(* ===== verification/Prelude.thy ===== *)
theory Prelude
  imports Main "HOL-Library.List_Lexorder" "HOL-Library.Product_Lexorder" "HOL-Library.Char_ord"
    "HOL-Library.Multiset"
begin

text \<open>
  What every component of the model shares: the collections of simplification rules,
  Go's 64-bit integer arithmetic, Go's maps, and Go's \<^verbatim>\<open>sort.Slice\<close>.

  \<^item> A Go \<^verbatim>\<open>int64\<close> (or \<^verbatim>\<open>int\<close>, 64 bits on the platforms the agent is built for) is an
    \<open>int\<close>; wherever the code adds two of them the sum is written \<open>i64 (a + b)\<close>, the
    two's complement value of the machine addition.
  \<^item> A Go map is an association list sorted by key: the order of the list stands for
    nothing (Go iterates in an unspecified order and \<^verbatim>\<open>encoding/json\<close> sorts the keys), and
    being sorted makes equality of the lists equality of the maps. The laws a client
    relies on are the locale \<open>go_map\<close>.
  \<^item> \<^verbatim>\<open>sort.Slice\<close> is \<open>sort_key\<close>; Go does not promise a stable sort, so the model
    is exact where the keys are distinct: \<open>sort_slice_unique\<close> shows that every sorted
    permutation is then the same list.
\<close>

named_theorems wrap_simps "rules that remove or merge the wrap-around of 64-bit sums"
named_theorems map_simps "rules for lookups in Go maps"

section \<open>Small list facts\<close>

lemma find_Some_in: "find P xs = Some x \<Longrightarrow> x \<in> set xs \<and> P x"
  by (induction xs) (auto split: if_splits)

lemma foldl_invariant:
  assumes "P a" and "\<And>a x. P a \<Longrightarrow> x \<in> set xs \<Longrightarrow> P (f a x)"
  shows "P (foldl f a xs)"
  using assms by (induction xs arbitrary: a) auto

lemma list_all2_map_self:
  assumes "\<And>x. x \<in> set xs \<Longrightarrow> P x (f x)"
  shows "list_all2 P xs (map f xs)"
  using assms by (induction xs) auto

lemma list_all2_compose:
  assumes "list_all2 P xs ys" and "list_all2 Q ys zs" and "\<And>x y z. P x y \<Longrightarrow> Q y z \<Longrightarrow> R x z"
  shows "list_all2 R xs zs"
  using assms by (auto simp: list_all2_conv_all_nth)

section \<open>Loops that stop at the first error\<close>

fun collect :: "('e + 'a) list \<Rightarrow> 'e + 'a list" where
  "collect [] = Inr []"
| "collect (r # rs) =
     (case r of Inl e \<Rightarrow> Inl e
      | Inr x \<Rightarrow> (case collect rs of Inl e \<Rightarrow> Inl e | Inr xs \<Rightarrow> Inr (x # xs)))"

lemma collect_map_Inr:
  "collect (map f xs) = Inr ys \<longleftrightarrow> list_all2 (\<lambda>x y. f x = Inr y) xs ys"
proof (induction xs arbitrary: ys)
  case Nil
  then show ?case by auto
next
  case (Cons x xs)
  have IH: "list_all2 (\<lambda>x y. f x = Inr y) xs zs \<longleftrightarrow> collect (map f xs) = Inr zs" for zs
    by (rule Cons.IH [symmetric])
  show ?case
    by (cases ys) (auto simp: IH split: sum.splits)
qed

lemma collect_map_Inr_total:
  assumes "\<And>x. x \<in> set xs \<Longrightarrow> f x = Inr (g x)"
  shows "collect (map f xs) = Inr (map g xs)"
  using assms by (simp add: collect_map_Inr list_all2_map_self)

section \<open>64-bit integers\<close>

type_synonym int64 = int

definition i64 :: "int \<Rightarrow> int64" where
  "i64 x = (x + 2 ^ 63) mod 2 ^ 64 - 2 ^ 63"

definition in_i64 :: "int \<Rightarrow> bool" where
  "in_i64 x \<longleftrightarrow> - (2 ^ 63) \<le> x \<and> x < 2 ^ 63"

lemma i64_id [wrap_simps]: "in_i64 x \<Longrightarrow> i64 x = x"
  by (simp add: in_i64_def i64_def)

lemma i64_range: "in_i64 (i64 x)"
  by (simp add: in_i64_def i64_def)

lemma i64_idem [wrap_simps]: "i64 (i64 x) = i64 x"
  by (rule i64_id) (rule i64_range)

lemma i64_add_left [wrap_simps]: "i64 (i64 a + b) = i64 (a + b)"
proof -
  have "i64 a + b + 2 ^ 63 = (a + 2 ^ 63) mod 2 ^ 64 + b"
    by (simp add: i64_def)
  then show ?thesis
    by (simp add: i64_def mod_simps algebra_simps)
qed

lemma i64_add_right [wrap_simps]: "i64 (a + i64 b) = i64 (a + b)"
  using i64_add_left [of b a] by (simp add: add.commute)

lemma in_i64_0 [simp]: "in_i64 0"
  by (simp add: in_i64_def)

lemma i64_0 [simp]: "i64 0 = 0"
  by (simp add: i64_def)

section \<open>Go maps\<close>

type_synonym ('k, 'v) gomap = "('k \<times> 'v) list"

abbreviation go_get :: "('k, 'v) gomap \<Rightarrow> 'k \<Rightarrow> 'v option" where
  "go_get \<equiv> map_of"

text \<open>\<^verbatim>\<open>m[k] = v\<close>: replace the entry or insert it at its place.\<close>

fun go_put :: "'k::linorder \<Rightarrow> 'v \<Rightarrow> ('k, 'v) gomap \<Rightarrow> ('k, 'v) gomap" where
  "go_put k v [] = [(k, v)]"
| "go_put k v ((k', v') # m) =
     (if k < k' then (k, v) # (k', v') # m
      else if k = k' then (k, v) # m
      else (k', v') # go_put k v m)"

text \<open>\<^verbatim>\<open>delete(m, k)\<close>.\<close>

definition go_delete :: "'k \<Rightarrow> ('k, 'v) gomap \<Rightarrow> ('k, 'v) gomap" where
  "go_delete k m = filter (\<lambda>e. fst e \<noteq> k) m"

definition go_keys :: "('k, 'v) gomap \<Rightarrow> 'k list" where
  "go_keys m = map fst m"

definition go_ok :: "('k::linorder, 'v) gomap \<Rightarrow> bool" where
  "go_ok m \<longleftrightarrow> sorted_wrt (<) (map fst m)"

text \<open>\<^verbatim>\<open>m[k]\<close> of a numeric map is the zero value where the key is absent.\<close>

definition go_num :: "('k, int) gomap \<Rightarrow> 'k \<Rightarrow> int" where
  "go_num m k = (case go_get m k of None \<Rightarrow> 0 | Some n \<Rightarrow> n)"

text \<open>\<^verbatim>\<open>for _, x := range xs { m[f(x)] = g(x) }\<close> on an empty map.\<close>

definition go_index :: "('a \<Rightarrow> 'k::linorder) \<Rightarrow> ('a \<Rightarrow> 'v) \<Rightarrow> 'a list \<Rightarrow> ('k, 'v) gomap" where
  "go_index f g xs = foldl (\<lambda>m x. go_put (f x) (g x) m) [] xs"

subsection \<open>The interface of a Go map\<close>

locale go_map =
  fixes get :: "'m \<Rightarrow> 'k \<Rightarrow> 'v option"
    and put :: "'k \<Rightarrow> 'v \<Rightarrow> 'm \<Rightarrow> 'm"
    and del :: "'k \<Rightarrow> 'm \<Rightarrow> 'm"
    and none :: "'m"
    and ok :: "'m \<Rightarrow> bool"
  assumes get_put: "get (put k v m) = (get m)(k \<mapsto> v)"
    and get_del: "get (del k m) = (get m)(k := None)"
    and get_none: "get none = Map.empty"
    and ok_none: "ok none"
    and ok_put: "ok m \<Longrightarrow> ok (put k v m)"
    and ok_del: "ok m \<Longrightarrow> ok (del k m)"
begin

text \<open>Filling a map in a loop: the last value stored under a key is the one found.\<close>

lemma fill_get:
  "get (foldl (\<lambda>m x. put (f x) (g x) m) m0 xs) k
     = (case find (\<lambda>x. f x = k) (rev xs) of None \<Rightarrow> get m0 k | Some x \<Rightarrow> Some (g x))"
proof (induction xs rule: rev_induct)
  case Nil
  then show ?case by simp
next
  case (snoc x xs)
  then show ?case by (simp add: get_put)
qed

lemma fill_ok: "ok m0 \<Longrightarrow> ok (foldl (\<lambda>m x. put (f x) (g x) m) m0 xs)"
  by (induction xs arbitrary: m0) (simp_all add: ok_put)

lemma fill_dom:
  "dom (get (foldl (\<lambda>m x. put (f x) (g x) m) m0 xs)) = dom (get m0) \<union> f ` set xs"
  by (induction xs arbitrary: m0) (auto simp: get_put)

end

lemma go_get_put [map_simps]: "go_get (go_put k v m) = (go_get m)(k \<mapsto> v)"
  by (induction m) auto

lemma go_get_delete [map_simps]: "go_get (go_delete k m) = (go_get m)(k := None)"
  by (induction m) (auto simp: go_delete_def)

lemma go_delete_put [simp]: "go_delete k (go_put k v m) = go_delete k m"
  by (induction k v m rule: go_put.induct) (auto simp: go_delete_def)

lemma go_put_put [simp]: "go_put k v (go_put k w m) = go_put k v m"
  by (induction k w m rule: go_put.induct) auto

lemma go_keys_put: "set (map fst (go_put k v m)) = insert k (set (map fst m))"
  by (induction k v m rule: go_put.induct) auto

lemma list_all_put: "list_all P m \<Longrightarrow> P (k, v) \<Longrightarrow> list_all P (go_put k v m)"
  by (induction k v m rule: go_put.induct) auto

lemma list_all_delete: "list_all P m \<Longrightarrow> list_all P (go_delete k m)"
  by (auto simp: go_delete_def list_all_iff)

lemma go_ok_Nil [simp]: "go_ok []"
  by (simp add: go_ok_def)

lemma go_ok_put: "go_ok m \<Longrightarrow> go_ok (go_put k v m)"
proof (induction m)
  case Nil
  then show ?case by (simp add: go_ok_def)
next
  case (Cons e m)
  obtain k' v' where e: "e = (k', v')" by (cases e)
  from Cons.prems have "go_ok m" and lt: "\<forall>x \<in> set (map fst m). k' < x"
    by (auto simp: go_ok_def e)
  then have IH: "go_ok (go_put k v m)" by (simp add: Cons.IH)
  show ?case
    using Cons.prems IH lt go_keys_put [of k v m]
    by (auto simp: go_ok_def e simp del: set_map)
qed

lemma go_ok_filter: "go_ok m \<Longrightarrow> go_ok (filter P m)"
  by (induction m) (auto simp: go_ok_def)

lemma go_ok_delete: "go_ok m \<Longrightarrow> go_ok (go_delete k m)"
  by (simp add: go_delete_def go_ok_filter)

interpretation gm: go_map map_of go_put go_delete "[]" go_ok
  by unfold_locales (auto simp: go_get_put go_get_delete go_ok_put go_ok_delete)

lemma go_ok_distinct: "go_ok m \<Longrightarrow> distinct (map fst m)"
  by (simp add: go_ok_def strict_sorted_iff)

lemma go_get_in_set: "go_ok m \<Longrightarrow> go_get m k = Some v \<longleftrightarrow> (k, v) \<in> set m"
  by (simp add: go_ok_distinct)

text \<open>Sorted by key, two maps with the same lookups are the same list.\<close>

lemma go_map_ext:
  assumes "go_ok m" and "go_ok m'" and "\<And>k. go_get m k = go_get m' k"
  shows "m = m'"
proof (rule map_sorted_distinct_set_unique [of fst])
  show "set m = set m'"
    using assms by (auto simp: go_get_in_set [symmetric] simp del: map_of_eq_Some_iff)
  show "inj_on fst (set m \<union> set m')"
    using assms go_ok_distinct \<open>set m = set m'\<close> by (auto simp: distinct_map)
qed (use assms in \<open>auto simp: go_ok_def strict_sorted_iff\<close>)

subsection \<open>Indexing a slice by a key\<close>

lemma go_index_ok [simp]: "go_ok (go_index f g xs)"
  unfolding go_index_def by (rule gm.fill_ok) simp

lemma go_index_get:
  "go_get (go_index f g xs) k = map_option g (find (\<lambda>x. f x = k) (rev xs))"
  unfolding go_index_def by (simp add: gm.fill_get split: option.splits)

lemma go_index_None [map_simps]: "go_get (go_index f g xs) k = None \<longleftrightarrow> k \<notin> f ` set xs"
  by (auto simp: go_index_get find_None_iff)

lemma go_index_Some:
  assumes "go_get (go_index f g xs) k = Some v"
  shows "\<exists>x \<in> set xs. f x = k \<and> g x = v"
proof -
  from assms obtain x where "find (\<lambda>x. f x = k) (rev xs) = Some x" and "v = g x"
    by (auto simp: go_index_get)
  then have "x \<in> set (rev xs)" and "f x = k"
    by (auto dest: find_Some_in)
  then show ?thesis using \<open>v = g x\<close> by auto
qed

lemma go_index_distinct:
  assumes "distinct (map f xs)" and "x \<in> set xs"
  shows "go_get (go_index f g xs) (f x) = Some (g x)"
proof -
  have "go_get (go_index f g xs) (f x) \<noteq> None"
    using assms(2) by (simp add: map_simps)
  then obtain v where v: "go_get (go_index f g xs) (f x) = Some v" by blast
  from go_index_Some [OF v] obtain y where "y \<in> set xs" "f y = f x" "g y = v" by blast
  then show ?thesis using assms v by (metis distinct_map inj_onD)
qed

lemma go_index_dom: "fst ` set (go_index f g xs) = f ` set xs"
  using gm.fill_dom [of f g "[]" xs] by (simp add: go_index_def dom_map_of_conv_image_fst)

lemma go_index_length_distinct:
  assumes "distinct (map f xs)"
  shows "length (go_index f g xs) = length xs"
proof -
  have "length (go_index f g xs) = card (fst ` set (go_index f g xs))"
    using go_ok_distinct [OF go_index_ok, of f g xs]
    by (metis distinct_card length_map list.set_map)
  also have "\<dots> = card (f ` set xs)" by (simp add: go_index_dom)
  also have "\<dots> = length xs" using assms by (metis distinct_card length_map list.set_map)
  finally show ?thesis .
qed

subsection \<open>The entries of a map as a multiset\<close>

lemma mset_go_put:
  "go_ok m \<Longrightarrow> mset (go_put k v m) = add_mset (k, v) (mset (go_delete k m))"
proof (induction m)
  case Nil
  then show ?case by (simp add: go_delete_def)
next
  case (Cons e m)
  obtain k' v' where e: "e = (k', v')" by (cases e)
  from Cons.prems have m: "go_ok m" and lt: "\<forall>x \<in> set m. k' < fst x" by (auto simp: go_ok_def e)
  have gone: "go_delete k m = m" if "k \<le> k'"
    using lt that by (fastforce simp: go_delete_def filter_id_conv)
  then have "filter_mset (\<lambda>e. fst e \<noteq> k) (mset m) = mset m" if "k \<le> k'"
    using that by (metis go_delete_def mset_filter)
  with Cons.IH [OF m] show ?case
    by (auto simp: e go_delete_def)
qed

lemma go_delete_absent: "go_get m k = None \<Longrightarrow> go_delete k m = m"
  by (auto simp: go_delete_def filter_id_conv map_of_eq_None_iff)

section \<open>Sorting\<close>

definition sort_slice :: "('a \<Rightarrow> 'k::linorder) \<Rightarrow> 'a list \<Rightarrow> 'a list" where
  "sort_slice key xs = sort_key key xs"

lemma set_sort_slice [simp]: "set (sort_slice key xs) = set xs"
  by (simp add: sort_slice_def)

lemma mset_sort_slice [simp]: "mset (sort_slice key xs) = mset xs"
  by (simp add: sort_slice_def)

lemma length_sort_slice [simp]: "length (sort_slice key xs) = length xs"
  by (simp add: sort_slice_def)

lemma sorted_sort_slice: "sorted (map key (sort_slice key xs))"
  by (simp add: sort_slice_def)

lemma sort_slice_unique:
  assumes "distinct (map key xs)" and "mset ys = mset xs" and "sorted (map key ys)"
  shows "ys = sort_slice key xs"
proof (rule map_sorted_distinct_set_unique [of key])
  have s: "set ys = set xs" using assms(2) by (metis set_mset_mset)
  have inj: "inj_on key (set xs)" using assms(1) by (simp add: distinct_map)
  then show "inj_on key (set ys \<union> set (sort_slice key xs))" by (simp add: s)
  show "set ys = set (sort_slice key xs)" using s by simp
  have "mset (map key ys) = mset (map key xs)" using assms(2) by (simp add: mset_map)
  then show "distinct (map key ys)" using assms(1) by (metis mset_eq_imp_distinct_iff)
  have "mset (map key (sort_slice key xs)) = mset (map key xs)" by (simp add: mset_map)
  then show "distinct (map key (sort_slice key xs))"
    using assms(1) by (metis mset_eq_imp_distinct_iff)
qed (use assms sorted_sort_slice in auto)

end
