(* ===== verification/GoStrings.thy ===== *)
theory GoStrings
  imports Prelude "HOL-Library.Sublist"
begin

text \<open>
  The functions of Go's \<^verbatim>\<open>strings\<close> package that the agent uses, on byte strings (a
  \<open>char\<close> is a byte, as in a Go string; comparison of strings is Go's bytewise order).
  \<open>to_lower\<close> and \<open>trim_space\<close> treat the ASCII range, which is what the comparisons
  with ASCII literals and the log formats of the code see.
\<close>

section \<open>Prefixes and searching\<close>

definition has_prefix :: "string \<Rightarrow> string \<Rightarrow> bool" where
  "has_prefix p s \<longleftrightarrow> take (length p) s = p"

definition trim_prefix :: "string \<Rightarrow> string \<Rightarrow> string" where
  "trim_prefix p s = (if has_prefix p s then drop (length p) s else s)"

definition has_suffix :: "string \<Rightarrow> string \<Rightarrow> bool" where
  "has_suffix p s \<longleftrightarrow> length p \<le> length s \<and> drop (length s - length p) s = p"

text \<open>\<^verbatim>\<open>strings.Index\<close>: the first occurrence of \<open>p\<close>, \<open>None\<close> for Go's -1.\<close>

fun index_of :: "string \<Rightarrow> string \<Rightarrow> nat option" where
  "index_of p [] = (if p = [] then Some 0 else None)"
| "index_of p (c # cs) =
     (if has_prefix p (c # cs) then Some 0 else map_option Suc (index_of p cs))"

text \<open>\<^verbatim>\<open>strings.LastIndex\<close>.\<close>

fun last_index :: "string \<Rightarrow> string \<Rightarrow> nat option" where
  "last_index p [] = (if p = [] then Some 0 else None)"
| "last_index p (c # cs) =
     (case last_index p cs of
        Some i \<Rightarrow> Some (Suc i)
      | None \<Rightarrow> if has_prefix p (c # cs) then Some 0 else None)"

text \<open>\<^verbatim>\<open>strings.IndexAny\<close>: the first byte that is one of \<open>cs\<close>.\<close>

fun index_any :: "char list \<Rightarrow> string \<Rightarrow> nat option" where
  "index_any cs [] = None"
| "index_any cs (x # xs) = (if x \<in> set cs then Some 0 else map_option Suc (index_any cs xs))"

lemma has_prefix_append [simp]: "has_prefix p (p @ s)"
  by (simp add: has_prefix_def)

lemma has_prefixE: "has_prefix p s \<Longrightarrow> s = p @ drop (length p) s"
  by (metis append_take_drop_id has_prefix_def)

lemma has_prefix_Cons [simp]: "has_prefix (a # p) (b # s) \<longleftrightarrow> a = b \<and> has_prefix p s"
  by (auto simp: has_prefix_def)

lemma has_prefix_Nil [simp]: "has_prefix [] s" "has_prefix (a # p) [] = False"
  by (simp_all add: has_prefix_def)

lemma index_of_Some:
  "index_of p s = Some i \<Longrightarrow> s = take i s @ p @ drop (i + length p) s"
proof (induction p s arbitrary: i rule: index_of.induct)
  case (1 p)
  then show ?case by (simp split: if_splits)
next
  case (2 p c cs)
  then show ?case
    by (auto split: if_splits dest: has_prefixE)
qed

lemma has_prefix_length: "has_prefix p s \<Longrightarrow> length p \<le> length s"
  by (auto simp: has_prefix_def dest: arg_cong [where f = length])

lemma index_of_bound: "index_of p s = Some i \<Longrightarrow> i + length p \<le> length s"
proof (induction p s arbitrary: i rule: index_of.induct)
  case (1 p)
  then show ?case by (simp split: if_splits)
next
  case (2 p c cs)
  then show ?case by (auto split: if_splits dest: has_prefix_length)
qed

text \<open>A separator that starts with a byte not in front of it is found where it stands.\<close>

lemma index_of_skip:
  "a \<notin> set u \<Longrightarrow> index_of (a # p) (u @ (a # p) @ v) = Some (length u)"
proof (induction u)
  case Nil
  have "has_prefix (a # p) ((a # p) @ v)" by (rule has_prefix_append)
  then show ?case by simp
next
  case (Cons b u)
  then show ?case by auto
qed

lemma index_of_absent: "a \<notin> set s \<Longrightarrow> index_of (a # p) s = None"
  by (induction s) auto

section \<open>Splitting\<close>

text \<open>\<^verbatim>\<open>strings.SplitN(s, sep, 2)\<close> for a separator that is not empty.\<close>

definition split_n2 :: "string \<Rightarrow> string \<Rightarrow> string list" where
  "split_n2 sep s =
     (case index_of sep s of None \<Rightarrow> [s] | Some i \<Rightarrow> [take i s, drop (i + length sep) s])"

text \<open>\<^verbatim>\<open>strings.Split(s, sep)\<close>; an empty separator splits into single bytes.\<close>

function split_on :: "string \<Rightarrow> string \<Rightarrow> string list" where
  "split_on sep s =
     (if sep = [] then map (\<lambda>c. [c]) s
      else case index_of sep s of
          None \<Rightarrow> [s]
        | Some i \<Rightarrow> take i s # split_on sep (drop (i + length sep) s))"
  by pat_completeness auto
termination
proof (relation "measure (\<lambda>(sep, s). length s)")
  fix sep s :: string and i
  assume "sep \<noteq> []" and "index_of sep s = Some i"
  then show "((sep, drop (i + length sep) s), (sep, s)) \<in> measure (\<lambda>(sep, s). length s)"
    using index_of_bound [of sep s i] by (cases sep) auto
qed simp

declare split_on.simps [simp del]

lemma split_on_skip:
  "a \<notin> set u \<Longrightarrow> split_on (a # p) (u @ (a # p) @ v) = u # split_on (a # p) v"
  by (subst split_on.simps) (simp add: index_of_skip del: append_Cons append.append_Cons)

lemma split_on_absent: "a \<notin> set s \<Longrightarrow> split_on (a # p) s = [s]"
  by (subst split_on.simps) (simp add: index_of_absent)

section \<open>Mapping and trimming\<close>

text \<open>A \<^verbatim>\<open>strings.NewReplacer\<close> of single bytes by single bytes.\<close>

definition replace_bytes :: "char set \<Rightarrow> char \<Rightarrow> string \<Rightarrow> string" where
  "replace_bytes old new s = map (\<lambda>c. if c \<in> old then new else c) s"

lemma set_replace_bytes: "new \<notin> old \<Longrightarrow> set (replace_bytes old new s) \<inter> old = {}"
  by (auto simp: replace_bytes_def)

lemma replace_bytes_id: "set s \<inter> old = {} \<Longrightarrow> replace_bytes old new s = s"
  by (induction s) (auto simp: replace_bytes_def)

lemma replace_bytes_idem:
  "new \<notin> old \<Longrightarrow> replace_bytes old new (replace_bytes old new s) = replace_bytes old new s"
  by (intro replace_bytes_id set_replace_bytes)

lemma replace_bytes_Nil [simp]: "replace_bytes old new s = [] \<longleftrightarrow> s = []"
  by (simp add: replace_bytes_def)

definition lower_byte :: "char \<Rightarrow> char" where
  "lower_byte c =
     (if CHR ''A'' \<le> c \<and> c \<le> CHR ''Z'' then char_of (of_char c + (32 :: nat)) else c)"

definition to_lower :: "string \<Rightarrow> string" where
  "to_lower s = map lower_byte s"

text \<open>\<^verbatim>\<open>strings.EqualFold\<close>.\<close>

definition equal_fold :: "string \<Rightarrow> string \<Rightarrow> bool" where
  "equal_fold s t \<longleftrightarrow> to_lower s = to_lower t"

definition space_bytes :: "char list" where
  "space_bytes = [CHR '' '', CHR 0x09, CHR 0x0A, CHR 0x0B, CHR 0x0C, CHR 0x0D]"

text \<open>\<^verbatim>\<open>strings.Trim(s, cutset)\<close> and \<^verbatim>\<open>strings.TrimSpace\<close>.\<close>

definition trim_bytes :: "char list \<Rightarrow> string \<Rightarrow> string" where
  "trim_bytes cs s =
     rev (dropWhile (\<lambda>c. c \<in> set cs) (rev (dropWhile (\<lambda>c. c \<in> set cs) s)))"

definition trim_space :: "string \<Rightarrow> string" where
  "trim_space s = trim_bytes space_bytes s"

text \<open>\<^verbatim>\<open>strings.TrimRight(s, cutset)\<close>.\<close>

definition trim_right :: "char list \<Rightarrow> string \<Rightarrow> string" where
  "trim_right cs s = rev (dropWhile (\<lambda>c. c \<in> set cs) (rev s))"

lemma trim_bytes_id:
  assumes "s = [] \<or> hd s \<notin> set cs \<and> last s \<notin> set cs"
  shows "trim_bytes cs s = s"
proof (cases "s = []")
  case True
  then show ?thesis by (simp add: trim_bytes_def)
next
  case False
  with assms have "dropWhile (\<lambda>c. c \<in> set cs) s = s" and
    "dropWhile (\<lambda>c. c \<in> set cs) (rev s) = rev s"
    by (auto simp: dropWhile_eq_self_iff hd_rev)
  then show ?thesis by (simp add: trim_bytes_def)
qed

section \<open>Decimal numbers\<close>

text \<open>The verb \<^verbatim>\<open>%d\<close> of \<^verbatim>\<open>fmt\<close>.\<close>

definition digit_char :: "nat \<Rightarrow> char" where
  "digit_char n = char_of (48 + n)"

fun show_nat :: "nat \<Rightarrow> string" where
  "show_nat n = (if n < 10 then [digit_char n] else show_nat (n div 10) @ [digit_char (n mod 10)])"

declare show_nat.simps [simp del]

definition show_int :: "int \<Rightarrow> string" where
  "show_int n = (if n < 0 then CHR ''-'' # show_nat (nat (- n)) else show_nat (nat n))"

text \<open>
  \<^verbatim>\<open>strconv.ParseInt(s, 10, 64)\<close>: an optional sign, then one or more digits, in range;
  \<open>None\<close> is an error return.
\<close>

definition digit_val :: "char \<Rightarrow> int option" where
  "digit_val c = (if CHR ''0'' \<le> c \<and> c \<le> CHR ''9'' then Some (of_char c - 48) else None)"

fun digits_val :: "int \<Rightarrow> string \<Rightarrow> int option" where
  "digits_val acc [] = Some acc"
| "digits_val acc (c # cs) =
     (case digit_val c of None \<Rightarrow> None | Some d \<Rightarrow> digits_val (10 * acc + d) cs)"

definition parse_uint_digits :: "string \<Rightarrow> int option" where
  "parse_uint_digits s = (if s = [] then None else digits_val 0 s)"

definition parse_int64 :: "string \<Rightarrow> int64 option" where
  "parse_int64 s =
     (let (neg, ds) = (if has_prefix ''-'' s then (True, tl s)
                       else if has_prefix ''+'' s then (False, tl s) else (False, s))
      in case parse_uint_digits ds of
           None \<Rightarrow> None
         | Some n \<Rightarrow> let v = (if neg then - n else n) in if in_i64 v then Some v else None)"

text \<open>\<^verbatim>\<open>strings.Fields\<close>.\<close>

function str_fields :: "string \<Rightarrow> string list" where
  "str_fields [] = []"
| "str_fields (c # cs) =
     (if c \<in> set space_bytes then str_fields cs
      else (c # takeWhile (\<lambda>d. d \<notin> set space_bytes) cs)
        # str_fields (dropWhile (\<lambda>d. d \<notin> set space_bytes) cs))"
  by pat_completeness auto

termination
  by (relation "measure length") (auto simp: le_imp_less_Suc length_dropWhile_le)

lemma str_fields_no_space: "f \<in> set (str_fields s) \<Longrightarrow> set f \<inter> set space_bytes = {}"
  by (induction s rule: str_fields.induct) (auto split: if_splits dest: set_takeWhileD)

text \<open>Fields written with a space before each are read back.\<close>

lemma str_fields_word:
  assumes "w \<noteq> []" and "set w \<inter> set space_bytes = {}" and "r = [] \<or> hd r \<in> set space_bytes"
  shows "str_fields (w @ r) = w # str_fields r"
proof -
  obtain c cs where w: "w = c # cs" using assms(1) by (cases w) simp_all
  have c: "c \<notin> set space_bytes" and cs: "\<And>d. d \<in> set cs \<Longrightarrow> d \<notin> set space_bytes"
    using assms(2) by (auto simp: w)
  have "takeWhile (\<lambda>d. d \<notin> set space_bytes) (cs @ r) = cs"
    and "dropWhile (\<lambda>d. d \<notin> set space_bytes) (cs @ r) = r"
    using assms(3) cs by (cases r; simp add: takeWhile_append2 dropWhile_append2)+
  with c show ?thesis by (simp add: w)
qed

lemma str_fields_spaced:
  assumes "\<And>w. w \<in> set ws \<Longrightarrow> w \<noteq> [] \<and> set w \<inter> set space_bytes = {}"
  shows "str_fields (concat (map ((#) (CHR '' '')) ws)) = ws"
  using assms
proof (induction ws)
  case (Cons w ws)
  have sp: "CHR '' '' \<in> set space_bytes" by (simp add: space_bytes_def)
  have "str_fields (w @ concat (map ((#) (CHR '' '')) ws)) = w # str_fields (concat (map ((#) (CHR '' '')) ws))"
    using Cons.prems sp by (intro str_fields_word) (auto, cases ws, auto)
  with Cons sp show ?case by simp
qed simp

lemma digit_char_code: "n < 10 \<Longrightarrow> of_char (digit_char n) = 48 + n"
  by (simp add: digit_char_def)

lemma space_bytes_code: "c \<in> set space_bytes \<Longrightarrow> of_char c < (48 :: nat)"
  by (auto simp: space_bytes_def)

lemma show_nat_no_space: "show_nat n \<noteq> [] \<and> set (show_nat n) \<inter> set space_bytes = {}"
proof (induction n rule: show_nat.induct)
  case (1 n)
  have "digit_char k \<notin> set space_bytes" if "k < 10" for k
    using digit_char_code [OF that] space_bytes_code [of "digit_char k"] by linarith
  with 1 show ?case by (subst show_nat.simps, subst (2) show_nat.simps) auto
qed

section \<open>Paths\<close>

fun join_slash :: "string list \<Rightarrow> string" where
  "join_slash [] = []"
| "join_slash [x] = x"
| "join_slash (x # xs) = x @ CHR ''/'' # join_slash xs"

text \<open>\<^verbatim>\<open>filepath.Clean\<close> and \<^verbatim>\<open>filepath.Dir\<close> on Unix; \<open>kept\<close> holds the kept elements, the last one first.\<close>

fun clean_elements :: "bool \<Rightarrow> string list \<Rightarrow> string list \<Rightarrow> string list" where
  "clean_elements rooted kept [] = rev kept"
| "clean_elements rooted kept (x # xs) =
     (if x = [] \<or> x = ''.'' then clean_elements rooted kept xs
      else if x = ''..'' then
        (case kept of
           k # ks \<Rightarrow> if k = ''..'' then clean_elements rooted (x # kept) xs else clean_elements rooted ks xs
         | [] \<Rightarrow> clean_elements rooted (if rooted then [] else [x]) xs)
      else clean_elements rooted (x # kept) xs)"

definition clean_path :: "string \<Rightarrow> string" where
  "clean_path p =
     (let rooted = has_prefix ''/'' p;
          out = (if rooted then ''/'' else []) @ join_slash (clean_elements rooted [] (split_on ''/'' p))
      in if out = [] then ''.'' else out)"

definition dir_of :: "string \<Rightarrow> string" where
  "dir_of p = clean_path (rev (dropWhile (\<lambda>c. c \<noteq> CHR ''/'') (rev p)))"

end
