(* ===== verification/Model.thy ===== *)
theory Model
  imports Complex_Main "HOL-Library.Word" Prelude
begin

text \<open>
  The data of \<^verbatim>\<open>internal/model/model.go\<close>: one record per struct, one field per struct
  field (prefixed by the struct, since record fields share one name space), and the values
  of Go's \<^verbatim>\<open>any\<close> that \<^verbatim>\<open>encoding/json\<close> produces.

  \<^item> A \<^verbatim>\<open>map[string]any\<close> is an \<open>obj option\<close>: \<open>None\<close> is the nil map, which Go (and
    \<^verbatim>\<open>reflect.DeepEqual\<close>) tells apart from the empty map \<open>Some []\<close>.
  \<^item> A \<^verbatim>\<open>json.RawMessage\<close> is its text; empty text is the absent message.
  \<^item> A \<^verbatim>\<open>float64\<close> is the rational number it denotes; JSON has no NaN and no infinity.
\<close>

section \<open>Dynamic values\<close>

type_synonym float64 = rat
type_synonym uint64 = "64 word"

datatype any =
    ANil
  | ABool bool
  | ANum float64
  | AInt int64
  | AStr string
  | AArr "any list"
  | AMap "(string \<times> any) list"

type_synonym obj = "(string, any) gomap"
type_synonym raw_message = string

section \<open>Desired state\<close>

record node_policy =
  nod_Region :: string
  nod_Group :: string
  nod_Tags :: "string list"
  nod_Weight :: int
  nod_TrafficThresholdBytes :: int64
  nod_TrafficUsedBytes :: int64
  nod_DrainTargetOnline :: int

record user_limits =
  lim_TrafficBytes :: int64
  lim_TrafficUsedBytes :: int64
  lim_UploadBPS :: int64
  lim_DownloadBPS :: int64
  lim_IPLimit :: int
  lim_DeviceLimit :: int
  lim_ConnectionLimit :: int
  lim_ExpiresAt :: int64

record managed_user =
  usr_ID :: string
  usr_AccountID :: string
  usr_Enabled :: bool
  usr_Email :: string
  usr_OutboundTag :: string
  usr_SessionGeneration :: int64
  usr_Level :: int
  usr_Credential :: "obj option"
  usr_Limits :: user_limits

record managed_inbound =
  inb_ID :: string
  inb_Tag :: string
  inb_Listen :: string
  inb_Port :: any
  inb_Protocol :: string
  inb_IPLimitMode :: string
  inb_Settings :: "obj option"
  inb_StreamSettings :: "obj option"
  inb_Sniffing :: "obj option"
  inb_Users :: "managed_user list"
  inb_Metadata :: "obj option"

record desired_state =
  ds_Version :: string
  ds_Enabled :: bool
  ds_Mode :: string
  ds_Node :: node_policy
  ds_Inbounds :: "managed_inbound list"
  ds_Outbounds :: "raw_message list"
  ds_Routing :: raw_message
  ds_DNS :: raw_message

section \<open>Reports\<close>

record traffic_record =
  rec_Name :: string
  rec_Value :: int64
  rec_UserID :: string
  rec_InboundID :: string
  rec_Direction :: string

record traffic_batch =
  bat_EventID :: string
  bat_NodeID :: string
  bat_CollectedAt :: int64
  bat_Records :: "traffic_record list"

record policy_violation =
  vio_UserID :: string
  vio_InboundID :: string
  vio_Reason :: string
  vio_Observed :: int64
  vio_Limit :: int64

record session_record =
  ses_UserID :: string
  ses_InboundID :: string
  ses_IPs :: "string list"
  ses_LastSeen :: int64
  ses_RecentConnections :: int
  ses_Source :: string

record session_report =
  rep_NodeID :: string
  rep_GeneratedAt :: int64
  rep_WindowSec :: int
  rep_Records :: "session_record list"
  rep_Violations :: "policy_violation list"

record heartbeat =
  hb_NodeID :: string
  hb_AgentVersion :: string
  hb_XrayVersion :: string
  hb_Healthy :: bool
  hb_XrayRunning :: bool
  hb_XrayAPI :: bool
  hb_CPUPercent :: float64
  hb_MemoryBytes :: uint64
  hb_Load1 :: float64
  hb_NetworkRX :: uint64
  hb_NetworkTX :: uint64
  hb_NetworkRXBPS :: float64
  hb_NetworkTXBPS :: float64
  hb_OnlineUsers :: int
  hb_TrackedIPs :: int
  hb_StateVersion :: string
  hb_Mode :: string
  hb_DrainReady :: bool
  hb_Region :: string
  hb_Group :: string
  hb_Tags :: "string list"
  hb_Weight :: int
  hb_StrictLimitsReady :: bool
  hb_Message :: string

section \<open>Configuration of the agent\<close>

record agent_config =
  cfg_NodeID :: string
  cfg_PanelURL :: string
  cfg_PanelToken :: string
  cfg_SyncSeconds :: int
  cfg_XrayBinary :: string
  cfg_XrayConfig :: string
  cfg_XrayAPI :: string
  cfg_XrayAccessLog :: string
  cfg_XrayLimitsFile :: string
  cfg_StateFile :: string
  cfg_TrafficSpoolDir :: string
  cfg_IPWindowSeconds :: int
  cfg_ReportSessions :: bool
  cfg_StrictLimitBackendURL :: string
  cfg_RequirePatchedCore :: bool
  cfg_Listen :: string
  cfg_NetworkInterface :: string
  cfg_Region :: string
  cfg_Group :: string
  cfg_Tags :: "string list"
  cfg_Weight :: int

section \<open>Zero values\<close>

text \<open>Go's zero values of the structs, the starting point of the concrete examples.\<close>

definition zero_node :: node_policy where
  "zero_node = \<lparr>nod_Region = [], nod_Group = [], nod_Tags = [], nod_Weight = 0,
     nod_TrafficThresholdBytes = 0, nod_TrafficUsedBytes = 0, nod_DrainTargetOnline = 0\<rparr>"

definition zero_limits :: user_limits where
  "zero_limits = \<lparr>lim_TrafficBytes = 0, lim_TrafficUsedBytes = 0, lim_UploadBPS = 0,
     lim_DownloadBPS = 0, lim_IPLimit = 0, lim_DeviceLimit = 0, lim_ConnectionLimit = 0,
     lim_ExpiresAt = 0\<rparr>"

definition zero_user :: managed_user where
  "zero_user = \<lparr>usr_ID = [], usr_AccountID = [], usr_Enabled = False, usr_Email = [],
     usr_OutboundTag = [], usr_SessionGeneration = 0, usr_Level = 0, usr_Credential = None,
     usr_Limits = zero_limits\<rparr>"

definition zero_inbound :: managed_inbound where
  "zero_inbound = \<lparr>inb_ID = [], inb_Tag = [], inb_Listen = [], inb_Port = ANil,
     inb_Protocol = [], inb_IPLimitMode = [], inb_Settings = None, inb_StreamSettings = None,
     inb_Sniffing = None, inb_Users = [], inb_Metadata = None\<rparr>"

definition zero_state :: desired_state where
  "zero_state = \<lparr>ds_Version = [], ds_Enabled = False, ds_Mode = [], ds_Node = zero_node,
     ds_Inbounds = [], ds_Outbounds = [], ds_Routing = [], ds_DNS = []\<rparr>"

lemmas zero_defs = zero_node_def zero_limits_def zero_user_def zero_inbound_def zero_state_def

section \<open>Time\<close>

text \<open>
  A \<^verbatim>\<open>time.Time\<close> is the number of nanoseconds since the Unix epoch; the zero \<^verbatim>\<open>Time\<close>
  is the first instant of the year 1. \<^verbatim>\<open>Unix()\<close> is the number of whole seconds, rounded
  towards the past.
\<close>

type_synonym gotime = int

definition second_ns :: int where "second_ns = 1000000000"

definition zero_time :: gotime where "zero_time = - 62135596800 * second_ns"

definition unix_sec :: "gotime \<Rightarrow> int64" where "unix_sec t = t div second_ns"

definition unix_time :: "int \<Rightarrow> gotime" where "unix_time s = s * second_ns"

lemma unix_sec_unix_time [simp]: "unix_sec (unix_time s) = s"
  by (simp add: unix_sec_def unix_time_def second_ns_def)

lemma unix_sec_mono: "t \<le> t' \<Longrightarrow> unix_sec t \<le> unix_sec t'"
  by (simp add: unix_sec_def second_ns_def zdiv_mono1)

lemma unix_sec_add: "unix_sec (t + s * second_ns) = unix_sec t + s"
  by (simp add: unix_sec_def second_ns_def)

end
