(* ===== verification/Policy.thy ===== *)
theory Policy
  imports Model GoStrings
begin

text \<open>
  The policy evaluator, \<^verbatim>\<open>internal/policy/evaluator.go\<close>: which credentials of the desired
  state stay enabled (expiry, traffic quota, IP limit, device limit), the restriction of a
  desired state while the node drains, and the accounting of usage the panel has not
  committed yet.
\<close>

section \<open>Usage keys\<close>

datatype usage_key = UsageKey (uk_UserID: string) (uk_InboundID: string)

text \<open>Keys are ordered by user, then inbound, so that maps keyed by them are Go maps of the prelude.\<close>

instantiation usage_key :: linorder
begin

definition less_eq_usage_key :: "usage_key \<Rightarrow> usage_key \<Rightarrow> bool" where
  "less_eq_usage_key a b \<longleftrightarrow> (uk_UserID a, uk_InboundID a) \<le> (uk_UserID b, uk_InboundID b)"

definition less_usage_key :: "usage_key \<Rightarrow> usage_key \<Rightarrow> bool" where
  "less_usage_key a b \<longleftrightarrow> (uk_UserID a, uk_InboundID a) < (uk_UserID b, uk_InboundID b)"

instance
  by standard
    (auto simp: less_eq_usage_key_def less_usage_key_def usage_key.expand less_le_not_le
      simp del: less_eq_prod_simp less_prod_simp intro: usage_key.expand order_trans)

end

type_synonym usage = "(usage_key, int64) gomap"

record evaluation =
  ev_State :: desired_state
  ev_Violations :: "policy_violation list"

section \<open>Copies of a state\<close>

text \<open>
  \<^verbatim>\<open>cloneState\<close> copies the inbound slice and every user slice, so that the in-place edits
  below write to the copies. Values here are never shared, so the copy is equal to its source.
\<close>

definition clone_state :: "desired_state \<Rightarrow> desired_state" where
  "clone_state s = s\<lparr>ds_Inbounds := map (\<lambda>i. i\<lparr>inb_Users := inb_Users i @ []\<rparr>) (ds_Inbounds s @ [])\<rparr>"

lemma clone_state_id [simp]: "clone_state s = s"
  by (simp add: clone_state_def)

section \<open>Evaluating the limits of one inbound\<close>

definition violation :: "managed_user \<Rightarrow> managed_inbound \<Rightarrow> string \<Rightarrow> int64 \<Rightarrow> int64 \<Rightarrow> policy_violation" where
  "violation u i reason observed limit =
     \<lparr>vio_UserID = usr_ID u, vio_InboundID = inb_ID i, vio_Reason = reason,
      vio_Observed = observed, vio_Limit = limit\<rparr>"

definition session_map :: "session_record list \<Rightarrow> (usage_key, session_record) gomap" where
  "session_map ss = go_index (\<lambda>s. UsageKey (ses_UserID s) (ses_InboundID s)) (\<lambda>s. s) ss"

definition ip_count :: "(usage_key, session_record) gomap \<Rightarrow> usage_key \<Rightarrow> int" where
  "ip_count m k = (case go_get m k of None \<Rightarrow> 0 | Some s \<Rightarrow> int (length (ses_IPs s)))"

text \<open>The body of the first loop over the users of an inbound.\<close>

definition eval_user ::
  "managed_inbound \<Rightarrow> (usage_key, session_record) gomap \<Rightarrow> usage \<Rightarrow> gotime \<Rightarrow> managed_user
     \<Rightarrow> managed_user \<times> policy_violation list" where
  "eval_user i sessions pending now u =
     (if \<not> usr_Enabled u then (u, [])
      else let k = UsageKey (usr_ID u) (inb_ID i); l = usr_Limits u in
        if lim_ExpiresAt l > 0 \<and> unix_sec now \<ge> lim_ExpiresAt l
        then (u\<lparr>usr_Enabled := False\<rparr>,
              [violation u i ''expired'' (unix_sec now) (lim_ExpiresAt l)])
        else let used = i64 (lim_TrafficUsedBytes l + go_num pending k) in
        if lim_TrafficBytes l > 0 \<and> used \<ge> lim_TrafficBytes l
        then (u\<lparr>usr_Enabled := False\<rparr>,
              [violation u i ''traffic_quota'' used (lim_TrafficBytes l)])
        else let count = ip_count sessions k in
        if lim_IPLimit l > 0 \<and> to_lower (inb_IPLimitMode i) \<noteq> ''off'' \<and> count > lim_IPLimit l
        then (u\<lparr>usr_Enabled := False\<rparr>, [violation u i ''ip_limit'' count (lim_IPLimit l)])
        else (u, []))"

text \<open>\<^verbatim>\<open>limitByAccount\<close>: the strictest positive device limit of the enabled credentials.\<close>

definition cap_step :: "(string, int) gomap \<Rightarrow> managed_user \<Rightarrow> (string, int) gomap" where
  "cap_step m u =
     (let l = lim_DeviceLimit (usr_Limits u); a = usr_AccountID u in
      if \<not> usr_Enabled u \<or> a = [] \<or> l \<le> 0 then m
      else case go_get m a of
          None \<Rightarrow> go_put a l m
        | Some n \<Rightarrow> if l < n then go_put a l m else m)"

definition limit_by_account :: "managed_user list \<Rightarrow> (string, int) gomap" where
  "limit_by_account us = foldl cap_step [] us"

text \<open>
  The second loop over the users, with its map \<^verbatim>\<open>activeByAccount\<close>. A count of the elements of
  a slice stays far below \<open>2 ^ 63\<close>, so the increment is plain addition.
\<close>

fun device_pass ::
  "managed_inbound \<Rightarrow> (string, int) gomap \<Rightarrow> (string, int) gomap \<Rightarrow> managed_user list
     \<Rightarrow> managed_user list \<times> policy_violation list" where
  "device_pass i caps active [] = ([], [])"
| "device_pass i caps active (u # us) =
     (let a = usr_AccountID u; limit = go_num caps a in
      if \<not> usr_Enabled u \<or> a = [] \<or> limit \<le> 0
      then (case device_pass i caps active us of (us', vs) \<Rightarrow> (u # us', vs))
      else let n = go_num active a + 1 in
        case device_pass i caps (go_put a n active) us of (us', vs) \<Rightarrow>
          if n > limit
          then (u\<lparr>usr_Enabled := False\<rparr> # us', violation u i ''device_limit'' n limit # vs)
          else (u # us', vs))"

definition evaluate_inbound ::
  "(usage_key, session_record) gomap \<Rightarrow> usage \<Rightarrow> gotime \<Rightarrow> managed_inbound
     \<Rightarrow> managed_inbound \<times> policy_violation list" where
  "evaluate_inbound sessions pending now i =
     (let first = map (eval_user i sessions pending now) (inb_Users i);
          us = map fst first;
          (us', dev) = device_pass i (limit_by_account us) [] us
      in (i\<lparr>inb_Users := us'\<rparr>, concat (map snd first) @ dev))"

definition evaluate ::
  "desired_state \<Rightarrow> session_record list \<Rightarrow> usage \<Rightarrow> gotime \<Rightarrow> evaluation" where
  "evaluate desired sessions pending now =
     (let out = clone_state desired;
          res = map (evaluate_inbound (session_map sessions) pending now) (ds_Inbounds out)
      in \<lparr>ev_State = out\<lparr>ds_Inbounds := map fst res\<rparr>, ev_Violations = concat (map snd res)\<rparr>)"

section \<open>Draining\<close>

definition drain_inbound ::
  "(string, managed_inbound) gomap \<Rightarrow> managed_inbound \<Rightarrow> managed_inbound list" where
  "drain_inbound prev_in i =
     (case go_get prev_in (inb_ID i) of
        None \<Rightarrow> []
      | Some old \<Rightarrow>
          let members = go_index usr_ID (\<lambda>_. ()) (inb_Users old) in
          [i\<lparr>inb_Users := filter (\<lambda>u. go_get members (usr_ID u) \<noteq> None) (inb_Users i)\<rparr>])"

definition apply_drain :: "desired_state \<Rightarrow> desired_state \<Rightarrow> desired_state" where
  "apply_drain previous desired =
     (let out = clone_state desired;
          prev_in = go_index inb_ID (\<lambda>i. i) (ds_Inbounds previous)
      in out\<lparr>ds_Mode := ''draining'',
             ds_Inbounds := concat (map (drain_inbound prev_in) (ds_Inbounds out))\<rparr>)"

section \<open>Usage the panel has not committed\<close>

definition counts_usage :: "traffic_record \<Rightarrow> bool" where
  "counts_usage r \<longleftrightarrow> \<not> (rec_UserID r = [] \<or> rec_InboundID r = [] \<or> rec_Value r \<le> 0)"

definition usage_add :: "usage \<Rightarrow> usage_key \<Rightarrow> int64 \<Rightarrow> usage" where
  "usage_add m k v = go_put k (i64 (go_num m k + v)) m"

definition pending_usage :: "traffic_record list \<Rightarrow> usage" where
  "pending_usage rs =
     foldl (\<lambda>m r. if \<not> counts_usage r then m
                  else usage_add m (UsageKey (rec_UserID r) (rec_InboundID r)) (rec_Value r)) [] rs"

definition merge_usage :: "usage \<Rightarrow> usage \<Rightarrow> usage" where
  "merge_usage dst src = foldl (\<lambda>m (k, v). usage_add m k v) dst src"

section \<open>What the limits mean\<close>

text \<open>
  The predicates of the specification, each over the user, its inbound and the inputs of the
  evaluation. The last session record of a user counts, as in the code's map.
\<close>

definition is_expired :: "gotime \<Rightarrow> managed_user \<Rightarrow> bool" where
  "is_expired now u \<longleftrightarrow>
     0 < lim_ExpiresAt (usr_Limits u) \<and> lim_ExpiresAt (usr_Limits u) \<le> unix_sec now"

definition total_used :: "usage \<Rightarrow> managed_inbound \<Rightarrow> managed_user \<Rightarrow> int64" where
  "total_used pending i u =
     i64 (lim_TrafficUsedBytes (usr_Limits u) + go_num pending (UsageKey (usr_ID u) (inb_ID i)))"

definition over_quota :: "usage \<Rightarrow> managed_inbound \<Rightarrow> managed_user \<Rightarrow> bool" where
  "over_quota pending i u \<longleftrightarrow>
     0 < lim_TrafficBytes (usr_Limits u)
       \<and> lim_TrafficBytes (usr_Limits u) \<le> total_used pending i u"

definition session_ips :: "session_record list \<Rightarrow> string \<Rightarrow> string \<Rightarrow> string list" where
  "session_ips ss uid iid =
     (case find (\<lambda>s. ses_UserID s = uid \<and> ses_InboundID s = iid) (rev ss) of
        None \<Rightarrow> [] | Some s \<Rightarrow> ses_IPs s)"

definition over_ips :: "session_record list \<Rightarrow> managed_inbound \<Rightarrow> managed_user \<Rightarrow> bool" where
  "over_ips ss i u \<longleftrightarrow>
     0 < lim_IPLimit (usr_Limits u) \<and> to_lower (inb_IPLimitMode i) \<noteq> ''off''
       \<and> lim_IPLimit (usr_Limits u) < int (length (session_ips ss (usr_ID u) (inb_ID i)))"

definition admissible ::
  "session_record list \<Rightarrow> usage \<Rightarrow> gotime \<Rightarrow> managed_inbound \<Rightarrow> managed_user \<Rightarrow> bool" where
  "admissible ss pending now i u \<longleftrightarrow>
     usr_Enabled u \<and> \<not> is_expired now u \<and> \<not> over_quota pending i u \<and> \<not> over_ips ss i u"

text \<open>The credentials that carry a device limit for an account, and the positions before one.\<close>

definition device_limits :: "(managed_user \<Rightarrow> bool) \<Rightarrow> managed_user list \<Rightarrow> string \<Rightarrow> int set" where
  "device_limits ok us a =
     set (map (\<lambda>u. lim_DeviceLimit (usr_Limits u))
       (filter (\<lambda>u. ok u \<and> usr_AccountID u = a \<and> 0 < lim_DeviceLimit (usr_Limits u)) us))"

definition earlier_devices :: "(managed_user \<Rightarrow> bool) \<Rightarrow> managed_user list \<Rightarrow> nat \<Rightarrow> nat" where
  "earlier_devices ok us j =
     length (filter (\<lambda>v. ok v \<and> usr_AccountID v = usr_AccountID (us ! j)) (take j us))"

definition device_ok :: "(managed_user \<Rightarrow> bool) \<Rightarrow> managed_user list \<Rightarrow> nat \<Rightarrow> bool" where
  "device_ok ok us j \<longleftrightarrow>
     (let a = usr_AccountID (us ! j); ls = device_limits ok us a
      in a = [] \<or> ls = {} \<or> int (earlier_devices ok us j) < Min ls)"

section \<open>The first loop\<close>

lemma ip_count_session_map:
  "ip_count (session_map ss) (UsageKey uid iid) = int (length (session_ips ss uid iid))"
  by (simp add: ip_count_def session_map_def go_index_get session_ips_def split: option.splits)

lemma eval_user_fst:
  "fst (eval_user i (session_map ss) pending now u)
     = u\<lparr>usr_Enabled := admissible ss pending now i u\<rparr>"
  by (simp add: eval_user_def admissible_def is_expired_def over_quota_def total_used_def
      over_ips_def ip_count_session_map Let_def)

lemma eval_user_snd:
  "length (snd (eval_user i (session_map ss) pending now u))
     = (if usr_Enabled u \<and> \<not> admissible ss pending now i u then 1 else 0)"
  by (auto simp add: eval_user_def admissible_def is_expired_def over_quota_def total_used_def
      over_ips_def ip_count_session_map Let_def)

section \<open>The device loop\<close>

lemma device_limits_Nil [simp]: "device_limits ok [] a = {}"
  by (simp add: device_limits_def)

lemma finite_device_limits [simp]: "finite (device_limits ok us a)"
  by (simp add: device_limits_def)

lemma device_limits_snoc:
  "device_limits ok (us @ [u]) a =
     (if ok u \<and> usr_AccountID u = a \<and> 0 < lim_DeviceLimit (usr_Limits u)
      then insert (lim_DeviceLimit (usr_Limits u)) (device_limits ok us a)
      else device_limits ok us a)"
  by (auto simp: device_limits_def)

lemma limit_by_account_get:
  assumes "a \<noteq> []"
  shows "go_get (limit_by_account us) a =
     (if device_limits usr_Enabled us a = {} then None
      else Some (Min (device_limits usr_Enabled us a)))"
proof (induction us rule: rev_induct)
  case Nil
  then show ?case by (simp add: limit_by_account_def)
next
  case (snoc u us)
  have "limit_by_account (us @ [u]) = cap_step (limit_by_account us) u"
    by (simp add: limit_by_account_def)
  then show ?case
    using snoc assms
    by (auto simp: cap_step_def device_limits_snoc Let_def go_get_put min_def
        split: option.splits if_splits simp del: Min_less_iff Min_le_iff Min_ge_iff Min_gr_iff)
qed

lemma limit_by_account_num:
  assumes "a \<noteq> []"
  shows "go_num (limit_by_account us) a =
     (if device_limits usr_Enabled us a = {} then 0 else Min (device_limits usr_Enabled us a))"
  using assms by (simp add: go_num_def limit_by_account_get)

lemma device_limits_pos: "l \<in> device_limits ok us a \<Longrightarrow> 0 < l"
  by (auto simp: device_limits_def)

lemma go_num_put [map_simps]: "go_num (go_put k n m) k' = (if k' = k then n else go_num m k')"
  by (simp add: go_num_def go_get_put)

lemma go_num_Nil [simp]: "go_num [] k = 0"
  by (simp add: go_num_def)

lemma device_pass_length: "length (fst (device_pass i caps active us)) = length us"
  by (induction i caps active us rule: device_pass.induct)
    (auto simp: Let_def split: prod.splits)

text \<open>One user of the device loop, by its position and the counts the loop started with.\<close>

lemma device_pass_nth:
  assumes "j < length us"
  shows "fst (device_pass i caps active us) ! j =
    (us ! j)\<lparr>usr_Enabled := usr_Enabled (us ! j) \<and>
       (usr_AccountID (us ! j) = [] \<or> go_num caps (usr_AccountID (us ! j)) \<le> 0
        \<or> go_num active (usr_AccountID (us ! j)) + int (earlier_devices usr_Enabled us j)
            < go_num caps (usr_AccountID (us ! j)))\<rparr>"
  using assms
proof (induction i caps active us arbitrary: j rule: device_pass.induct)
  case (1 i caps active)
  then show ?case by simp
next
  case (2 i caps active u us)
  let ?a = "usr_AccountID u"
  show ?case
  proof (cases j)
    case 0
    then show ?thesis
      by (auto simp: Let_def earlier_devices_def split: prod.splits)
  next
    case (Suc j')
    then have j': "j' < length us" using "2.prems" by simp
    have tail: "fst (device_pass i caps active (u # us)) ! j =
        fst (device_pass i caps
          (if \<not> usr_Enabled u \<or> ?a = [] \<or> go_num caps ?a \<le> 0 then active
           else go_put ?a (go_num active ?a + 1) active) us) ! j'"
      by (auto simp: Suc Let_def split: prod.splits)
    have nth: "(u # us) ! j = us ! j'" by (simp add: Suc)
    have e: "earlier_devices usr_Enabled (u # us) j
      = earlier_devices usr_Enabled us j'
        + (if usr_Enabled u \<and> ?a = usr_AccountID (us ! j') then 1 else 0)"
      by (simp add: earlier_devices_def Suc)
    show ?thesis
    proof (cases "\<not> usr_Enabled u \<or> ?a = [] \<or> go_num caps ?a \<le> 0")
      case True
      from "2.IH"(1) [OF refl refl True j'] show ?thesis
        using True by (auto simp: tail nth e simp del: device_pass.simps)
    next
      case False
      from "2.IH"(2) [OF refl refl False refl j'] show ?thesis
        using False
        by (auto simp: tail nth e map_simps algebra_simps simp del: device_pass.simps)
    qed
  qed
qed

lemma device_pass_count:
  assumes "a \<noteq> []" and "0 < go_num caps a"
  shows "int (length (filter (\<lambda>u. usr_Enabled u \<and> usr_AccountID u = a)
           (fst (device_pass i caps active us))))
     = min (int (length (filter (\<lambda>u. usr_Enabled u \<and> usr_AccountID u = a) us)))
           (max 0 (go_num caps a - go_num active a))"
  using assms
proof (induction i caps active us rule: device_pass.induct)
  case (1 i caps active)
  then show ?case by simp
next
  case (2 i caps active u us)
  show ?case
  proof (cases "\<not> usr_Enabled u \<or> usr_AccountID u = [] \<or> go_num caps (usr_AccountID u) \<le> 0")
    case True
    from "2.IH"(1) [OF refl refl True "2.prems"] show ?thesis
      using True "2.prems" by (auto simp: Let_def split: prod.splits)
  next
    case False
    from "2.IH"(2) [OF refl refl False refl "2.prems"] show ?thesis
      using False "2.prems" by (auto simp: Let_def map_simps split: prod.splits)
  qed
qed

lemma device_pass_skip:
  "\<not> usr_Enabled u \<or> usr_AccountID u = [] \<or> go_num caps (usr_AccountID u) \<le> 0 \<Longrightarrow>
     fst (device_pass i caps active (u # us)) = u # fst (device_pass i caps active us)"
  by (simp add: Let_def prod.case_eq_if)

lemma device_pass_tally:
  "\<not> (\<not> usr_Enabled u \<or> usr_AccountID u = [] \<or> go_num caps (usr_AccountID u) \<le> 0) \<Longrightarrow>
     fst (device_pass i caps active (u # us))
       = (if go_num active (usr_AccountID u) + 1 > go_num caps (usr_AccountID u)
          then u\<lparr>usr_Enabled := False\<rparr> else u)
         # fst (device_pass i caps
             (go_put (usr_AccountID u) (go_num active (usr_AccountID u) + 1) active) us)"
  by (simp add: Let_def prod.case_eq_if)

lemma device_pass_uncapped:
  assumes "a = [] \<or> go_num caps a = 0"
  shows "length (filter (\<lambda>u. usr_Enabled u \<and> usr_AccountID u = a)
           (fst (device_pass i caps active us)))
     = length (filter (\<lambda>u. usr_Enabled u \<and> usr_AccountID u = a) us)"
  using assms
proof (induction i caps active us rule: device_pass.induct)
  case (1 i caps active)
  then show ?case by simp
next
  case (2 i caps active u us)
  show ?case
  proof (cases "\<not> usr_Enabled u \<or> usr_AccountID u = [] \<or> go_num caps (usr_AccountID u) \<le> 0")
    case True
    from "2.IH"(1) [OF refl refl True "2.prems"] show ?thesis
      by (simp add: device_pass_skip [OF True] del: device_pass.simps)
  next
    case False
    then have "usr_AccountID u \<noteq> a" using "2.prems" by auto
    with "2.IH"(2) [OF refl refl False refl "2.prems"] show ?thesis
      by (simp add: device_pass_tally [OF False] del: device_pass.simps)
  qed
qed

section \<open>One inbound\<close>

lemma device_limits_map [simp]:
  "device_limits usr_Enabled (map (\<lambda>u. u\<lparr>usr_Enabled := ok u\<rparr>) us) a = device_limits ok us a"
  by (simp add: device_limits_def filter_map o_def)

lemma earlier_devices_map [simp]:
  "j < length us \<Longrightarrow>
     earlier_devices usr_Enabled (map (\<lambda>u. u\<lparr>usr_Enabled := ok u\<rparr>) us) j = earlier_devices ok us j"
  by (simp add: earlier_devices_def take_map filter_map o_def)

lemma first_loop_users:
  "map fst (map (eval_user i (session_map ss) pending now) us)
     = map (\<lambda>u. u\<lparr>usr_Enabled := admissible ss pending now i u\<rparr>) us"
  by (simp add: eval_user_fst o_def)

lemma evaluate_inbound_users:
  "inb_Users (fst (evaluate_inbound (session_map ss) pending now i)) =
     fst (device_pass i
       (limit_by_account (map (\<lambda>u. u\<lparr>usr_Enabled := admissible ss pending now i u\<rparr>) (inb_Users i)))
       [] (map (\<lambda>u. u\<lparr>usr_Enabled := admissible ss pending now i u\<rparr>) (inb_Users i)))"
  by (simp only: evaluate_inbound_def Let_def first_loop_users) (simp split: prod.splits)

lemma evaluate_inbound_frame [simp]:
  "(fst (evaluate_inbound sm pending now i))\<lparr>inb_Users := us\<rparr> = i\<lparr>inb_Users := us\<rparr>"
  "inb_ID (fst (evaluate_inbound sm pending now i)) = inb_ID i"
  "inb_IPLimitMode (fst (evaluate_inbound sm pending now i)) = inb_IPLimitMode i"
  by (simp_all add: evaluate_inbound_def Let_def split: prod.splits)

lemma evaluate_inbound_length [simp]:
  "length (inb_Users (fst (evaluate_inbound (session_map ss) pending now i))) = length (inb_Users i)"
  by (simp add: evaluate_inbound_users device_pass_length)

lemma evaluate_inbound_nth:
  assumes "j < length (inb_Users i)"
  shows "inb_Users (fst (evaluate_inbound (session_map ss) pending now i)) ! j =
    (inb_Users i ! j)\<lparr>usr_Enabled :=
       admissible ss pending now i (inb_Users i ! j)
         \<and> device_ok (admissible ss pending now i) (inb_Users i) j\<rparr>"
proof -
  let ?ok = "admissible ss pending now i" and ?us = "inb_Users i"
  let ?us1 = "map (\<lambda>u. u\<lparr>usr_Enabled := ?ok u\<rparr>) ?us"
  let ?a = "usr_AccountID (?us ! j)" and ?ls = "device_limits ?ok ?us (usr_AccountID (?us ! j))"
  have cap: "?a \<noteq> [] \<Longrightarrow> go_num (limit_by_account ?us1) ?a = (if ?ls = {} then 0 else Min ?ls)"
    by (simp add: limit_by_account_num)
  have pos: "?ls \<noteq> {} \<Longrightarrow> 0 < Min ?ls"
    by (simp add: device_limits_pos)
  have "?a = [] \<or> go_num (limit_by_account ?us1) ?a \<le> 0
      \<or> int (earlier_devices ?ok ?us j) < go_num (limit_by_account ?us1) ?a
    \<longleftrightarrow> device_ok ?ok ?us j"
    using cap pos
    by (cases "?a = []"; cases "?ls = {}")
      (auto simp: device_ok_def Let_def
        simp del: Min_less_iff Min_le_iff Min_ge_iff Min_gr_iff)
  then show ?thesis
    using assms device_pass_nth [of j ?us1 i "limit_by_account ?us1" "[]"]
    by (simp add: evaluate_inbound_users)
qed

lemma evaluate_inbounds:
  "ds_Inbounds (ev_State (evaluate d ss pending now))
     = map (\<lambda>i. fst (evaluate_inbound (session_map ss) pending now i)) (ds_Inbounds d)"
  by (simp add: evaluate_def Let_def)

lemma evaluate_violations:
  "ev_Violations (evaluate d ss pending now)
     = concat (map (\<lambda>i. snd (evaluate_inbound (session_map ss) pending now i)) (ds_Inbounds d))"
  by (simp add: evaluate_def Let_def o_def)

lemmas evaluate_simps = evaluate_inbounds evaluate_violations

subsection \<open>Violations\<close>

text \<open>The keys of the users a step switched off, in order.\<close>

definition vio_key :: "policy_violation \<Rightarrow> usage_key" where
  "vio_key v = UsageKey (vio_UserID v) (vio_InboundID v)"

definition switched_off ::
  "string \<Rightarrow> managed_user list \<Rightarrow> managed_user list \<Rightarrow> usage_key list" where
  "switched_off iid us us' =
     map (\<lambda>(u, v). UsageKey (usr_ID u) iid)
       (filter (\<lambda>(u, v). usr_Enabled u \<and> \<not> usr_Enabled v) (zip us us'))"

lemma switched_off_Cons [simp]:
  "switched_off iid (u # us) (v # us') =
     (if usr_Enabled u \<and> \<not> usr_Enabled v then [UsageKey (usr_ID u) iid] else []) @ switched_off iid us us'"
  by (simp add: switched_off_def)

lemma switched_off_Nil [simp]: "switched_off iid [] vs = []" "switched_off iid us [] = []"
  by (simp_all add: switched_off_def)

lemma switched_off_compose:
  assumes "list_all2 (\<lambda>u v. usr_ID u = usr_ID v \<and> (usr_Enabled v \<longrightarrow> usr_Enabled u)) us vs"
    and "list_all2 (\<lambda>v w. usr_Enabled w \<longrightarrow> usr_Enabled v) vs ws"
  shows "mset (switched_off iid us ws) = mset (switched_off iid us vs) + mset (switched_off iid vs ws)"
  using assms
proof (induction us vs arbitrary: ws rule: list_all2_induct)
  case Nil
  then show ?case by simp
next
  case (Cons u us v vs)
  then obtain w ws' where "ws = w # ws'" by (auto simp: list_all2_Cons1)
  with Cons show ?case by auto
qed

lemma first_loop_viols:
  "map vio_key (concat (map snd (map (eval_user i (session_map ss) pending now) us)))
     = switched_off (inb_ID i) us (map (\<lambda>u. u\<lparr>usr_Enabled := admissible ss pending now i u\<rparr>) us)"
proof (induction us)
  case Nil
  then show ?case by simp
next
  case (Cons u us)
  have "map vio_key (snd (eval_user i (session_map ss) pending now u))
      = (if usr_Enabled u \<and> \<not> admissible ss pending now i u then [UsageKey (usr_ID u) (inb_ID i)] else [])"
    by (auto simp: eval_user_def admissible_def is_expired_def over_quota_def total_used_def
        over_ips_def ip_count_session_map Let_def violation_def vio_key_def)
  with Cons show ?case by simp
qed

lemma device_pass_viols:
  "map vio_key (snd (device_pass i caps active us))
     = switched_off (inb_ID i) us (fst (device_pass i caps active us))"
  by (induction i caps active us rule: device_pass.induct)
    (auto simp: Let_def violation_def vio_key_def split: prod.splits)

lemma evaluate_inbound_viols:
  "mset (map vio_key (snd (evaluate_inbound (session_map ss) pending now i)))
     = mset (switched_off (inb_ID i) (inb_Users i)
         (inb_Users (fst (evaluate_inbound (session_map ss) pending now i))))"
proof -
  let ?us1 = "map (\<lambda>u. u\<lparr>usr_Enabled := admissible ss pending now i u\<rparr>) (inb_Users i)"
  let ?dp = "device_pass i (limit_by_account ?us1) [] ?us1"
  have "map vio_key (snd (evaluate_inbound (session_map ss) pending now i))
      = switched_off (inb_ID i) (inb_Users i) ?us1 @ switched_off (inb_ID i) ?us1 (fst ?dp)"
    by (simp only: evaluate_inbound_def Let_def first_loop_users)
      (simp only: prod.case_eq_if snd_conv map_append first_loop_viols device_pass_viols)
  then have "mset (map vio_key (snd (evaluate_inbound (session_map ss) pending now i)))
      = mset (switched_off (inb_ID i) (inb_Users i) ?us1) + mset (switched_off (inb_ID i) ?us1 (fst ?dp))"
    by (simp only: mset_append)
  also have "\<dots> = mset (switched_off (inb_ID i) (inb_Users i) (fst ?dp))"
  proof (rule switched_off_compose [symmetric])
    show "list_all2 (\<lambda>u v. usr_ID u = usr_ID v \<and> (usr_Enabled v \<longrightarrow> usr_Enabled u))
        (inb_Users i) ?us1"
      by (rule list_all2_map_self) (auto simp: admissible_def)
    show "list_all2 (\<lambda>v w. usr_Enabled w \<longrightarrow> usr_Enabled v) ?us1 (fst ?dp)"
      by (auto simp: list_all2_conv_all_nth device_pass_length device_pass_nth)
  qed
  finally show ?thesis by (simp add: evaluate_inbound_users)
qed

lemma switched_off_empty:
  "switched_off iid us us' = [] \<longleftrightarrow> list_all (\<lambda>(u, v). usr_Enabled u \<longrightarrow> usr_Enabled v) (zip us us')"
  by (auto simp: switched_off_def filter_empty_conv list_all_iff)

lemma switched_off_same [simp]: "switched_off iid us us = []"
  by (induction us) simp_all

lemma concat_viols:
  "mset (map vio_key (concat (map (\<lambda>i. snd (evaluate_inbound (session_map ss) pending now i)) is)))
     = mset (concat (map2 (\<lambda>i i'. switched_off (inb_ID i) (inb_Users i) (inb_Users i'))
         is (map (\<lambda>i. fst (evaluate_inbound (session_map ss) pending now i)) is)))"
proof (induction "is")
  case Nil
  then show ?case by simp
next
  case (Cons i js)
  then show ?case
    using evaluate_inbound_viols [of ss pending now i] by (simp del: mset_map add: mset_map [symmetric])
qed

lemma eval_user_evidence:
  "v \<in> set (snd (eval_user i sm pending now u)) \<Longrightarrow> 0 < vio_Limit v \<and>
     (vio_Reason v \<in> {''expired'', ''traffic_quota''} \<and> vio_Limit v \<le> vio_Observed v
      \<or> vio_Reason v \<in> {''ip_limit'', ''device_limit''} \<and> vio_Limit v < vio_Observed v)"
  by (auto simp: eval_user_def violation_def Let_def split: if_splits)

lemma device_pass_evidence:
  "v \<in> set (snd (device_pass i caps active us)) \<Longrightarrow> 0 < vio_Limit v
     \<and> vio_Reason v = ''device_limit'' \<and> vio_Limit v < vio_Observed v"
  by (induction i caps active us rule: device_pass.induct)
    (auto simp: violation_def Let_def split: if_splits prod.splits)

lemma evaluate_inbound_evidence:
  "v \<in> set (snd (evaluate_inbound sm pending now i)) \<Longrightarrow> 0 < vio_Limit v \<and>
     (vio_Reason v \<in> {''expired'', ''traffic_quota''} \<and> vio_Limit v \<le> vio_Observed v
      \<or> vio_Reason v \<in> {''ip_limit'', ''device_limit''} \<and> vio_Limit v < vio_Observed v)"
proof -
  assume "v \<in> set (snd (evaluate_inbound sm pending now i))"
  then consider u where "v \<in> set (snd (eval_user i sm pending now u))"
    | caps us where "v \<in> set (snd (device_pass i caps [] us))"
    by (auto simp: evaluate_inbound_def Let_def prod.case_eq_if)
  then show ?thesis
  proof cases
    case 1
    then show ?thesis by (rule eval_user_evidence)
  next
    case 2
    from device_pass_evidence [OF this] show ?thesis by simp
  qed
qed

lemma evaluate_inbound_count:
  "length (filter (\<lambda>u. usr_Enabled u \<and> usr_AccountID u = acc)
      (inb_Users (fst (evaluate_inbound (session_map ss) pending now i))))
    = (let ok = admissible ss pending now i; ls = device_limits ok (inb_Users i) acc;
           n = length (filter (\<lambda>u. ok u \<and> usr_AccountID u = acc) (inb_Users i))
       in if acc = [] \<or> ls = {} then n else min n (nat (Min ls)))"
proof -
  let ?ok = "admissible ss pending now i" and ?us = "inb_Users i"
  let ?us1 = "map (\<lambda>u. u\<lparr>usr_Enabled := ?ok u\<rparr>) ?us"
  let ?caps = "limit_by_account ?us1" and ?ls = "device_limits ?ok ?us acc"
  let ?P = "\<lambda>u. usr_Enabled u \<and> usr_AccountID u = acc"
  have n: "length (filter ?P ?us1) = length (filter (\<lambda>u. ?ok u \<and> usr_AccountID u = acc) ?us)"
    by (simp add: filter_map o_def)
  show ?thesis
  proof (cases "acc = [] \<or> ?ls = {}")
    case True
    then have "acc = [] \<or> go_num ?caps acc = 0"
      by (cases "acc = []") (simp_all add: limit_by_account_num)
    then have "length (filter ?P (fst (device_pass i ?caps [] ?us1))) = length (filter ?P ?us1)"
      by (rule device_pass_uncapped)
    then show ?thesis using True n by (simp add: evaluate_inbound_users Let_def)
  next
    case False
    then have cap: "go_num ?caps acc = Min ?ls" by (simp add: limit_by_account_num)
    moreover have "0 < Min ?ls" using False by (simp add: device_limits_pos)
    ultimately have "int (length (filter ?P (fst (device_pass i ?caps [] ?us1))))
        = min (int (length (filter ?P ?us1))) (max 0 (Min ?ls))"
      using False device_pass_count [of acc ?caps i "[]" ?us1] by simp
    then have "length (filter ?P (fst (device_pass i ?caps [] ?us1)))
        = min (length (filter ?P ?us1)) (nat (Min ?ls))" by linarith
    then show ?thesis using False n by (simp add: evaluate_inbound_users Let_def)
  qed
qed

section \<open>The reference evaluation\<close>

definition admit_inbound ::
  "(managed_inbound \<Rightarrow> managed_user \<Rightarrow> bool) \<Rightarrow> managed_inbound \<Rightarrow> managed_inbound" where
  "admit_inbound ok i = i\<lparr>inb_Users :=
     map (\<lambda>j. (inb_Users i ! j)\<lparr>usr_Enabled :=
            ok i (inb_Users i ! j) \<and> device_ok (ok i) (inb_Users i) j\<rparr>)
       [0..<length (inb_Users i)]\<rparr>"

lemma evaluate_inbound_admits:
  "fst (evaluate_inbound (session_map ss) pending now i)
     = admit_inbound (admissible ss pending now) i"
proof -
  let ?i' = "fst (evaluate_inbound (session_map ss) pending now i)"
  let ?us = "inb_Users (admit_inbound (admissible ss pending now) i)"
  have "inb_Users ?i' = ?us"
    by (rule nth_equalityI) (simp_all add: evaluate_inbound_nth admit_inbound_def)
  moreover have "?i' = i\<lparr>inb_Users := inb_Users ?i'\<rparr>"
    by (simp add: evaluate_inbound_def Let_def split: prod.splits)
  ultimately have "?i' = i\<lparr>inb_Users := ?us\<rparr>" by metis
  then show ?thesis by (simp add: admit_inbound_def)
qed

lemma evaluate_state:
  "ev_State (evaluate d ss pending now)
     = d\<lparr>ds_Inbounds := map (admit_inbound (admissible ss pending now)) (ds_Inbounds d)\<rparr>"
  by (simp add: evaluate_def Let_def evaluate_inbound_admits o_def)

lemma admit_inbound_simps [simp]:
  "inb_ID (admit_inbound ok i) = inb_ID i"
  "inb_IPLimitMode (admit_inbound ok i) = inb_IPLimitMode i"
  "length (inb_Users (admit_inbound ok i)) = length (inb_Users i)"
  by (simp_all add: admit_inbound_def)

lemma admit_inbound_frame:
  "admit_inbound ok i = i\<lparr>inb_Users := inb_Users (admit_inbound ok i)\<rparr>"
  by (simp add: admit_inbound_def)

lemma admit_inbound_nth:
  "j < length (inb_Users i) \<Longrightarrow> inb_Users (admit_inbound ok i) ! j =
     (inb_Users i ! j)\<lparr>usr_Enabled := ok i (inb_Users i ! j) \<and> device_ok (ok i) (inb_Users i) j\<rparr>"
  by (simp add: admit_inbound_def)

section \<open>Evaluating twice\<close>

lemma admissible_enabled:
  "admissible ss pending now i' (u\<lparr>usr_Enabled := b\<rparr>) \<longleftrightarrow>
     b \<and> admissible ss pending now i (u\<lparr>usr_Enabled := True\<rparr>)"
  if "inb_ID i' = inb_ID i" "inb_IPLimitMode i' = inb_IPLimitMode i"
  using that
  by (auto simp: admissible_def is_expired_def over_quota_def total_used_def over_ips_def)

lemma device_limits_mono:
  assumes "list_all2 (\<lambda>u v. usr_AccountID v = usr_AccountID u \<and> usr_Limits v = usr_Limits u
             \<and> (ok' v \<longrightarrow> ok u)) us vs"
  shows "device_limits ok' vs a \<subseteq> device_limits ok us a"
  using assms by (induction rule: list_all2_induct) (auto simp: device_limits_def)

lemma earlier_devices_mono:
  assumes "list_all2 (\<lambda>u v. usr_AccountID v = usr_AccountID u \<and> usr_Limits v = usr_Limits u
             \<and> (ok' v \<longrightarrow> ok u)) us vs" and "j < length us"
  shows "earlier_devices ok' vs j \<le> earlier_devices ok us j"
proof -
  have acc: "usr_AccountID (vs ! j) = usr_AccountID (us ! j)"
    using assms by (auto dest: list_all2_nthD)
  from assms(1) have "list_all2 (\<lambda>u v. usr_AccountID v = usr_AccountID u
      \<and> usr_Limits v = usr_Limits u \<and> (ok' v \<longrightarrow> ok u)) (take j us) (take j vs)"
    by (rule list_all2_takeI)
  then have "length (filter (\<lambda>v. ok' v \<and> usr_AccountID v = b) (take j vs))
      \<le> length (filter (\<lambda>v. ok v \<and> usr_AccountID v = b) (take j us))" for b
    by (induction rule: list_all2_induct) auto
  then show ?thesis by (simp add: earlier_devices_def acc)
qed

lemma admit_again:
  "admit_inbound (admissible ss pending now) (admit_inbound (admissible ss pending now) i)
     = admit_inbound (admissible ss pending now) i" (is "?f (?f i) = ?f i")
proof -
  let ?ok = "admissible ss pending now"
  have rel: "list_all2 (\<lambda>u v. usr_AccountID v = usr_AccountID u \<and> usr_Limits v = usr_Limits u
      \<and> (?ok (?f i) v \<longrightarrow> ?ok i u)) (inb_Users i) (inb_Users (?f i))"
    by (auto simp: list_all2_conv_all_nth admit_inbound_nth admissible_enabled [of "?f i" i])
  have same: "inb_Users (?f (?f i)) ! j = inb_Users (?f i) ! j" if j: "j < length (inb_Users i)" for j
  proof -
    let ?u = "inb_Users i ! j" and ?v = "inb_Users (?f i) ! j"
    have v: "?v = ?u\<lparr>usr_Enabled := ?ok i ?u \<and> device_ok (?ok i) (inb_Users i) j\<rparr>"
      using j by (simp add: admit_inbound_nth)
    have okv: "?ok (?f i) ?v \<longleftrightarrow> usr_Enabled ?v"
      unfolding v by (subst admissible_enabled [of "?f i" i])
        (auto simp: admissible_def is_expired_def over_quota_def total_used_def over_ips_def)
    have dev: "device_ok (?ok (?f i)) (inb_Users (?f i)) j" if "usr_Enabled ?v"
    proof -
      let ?ls = "device_limits (?ok i) (inb_Users i) (usr_AccountID ?u)"
      let ?ls' = "device_limits (?ok (?f i)) (inb_Users (?f i)) (usr_AccountID ?u)"
      from that v have d: "device_ok (?ok i) (inb_Users i) j" by simp
      have sub: "?ls' \<subseteq> ?ls" using rel by (rule device_limits_mono)
      have "Min ?ls \<le> Min ?ls'" if "?ls' \<noteq> {}" using sub that by (intro Min_antimono) simp_all
      with earlier_devices_mono [OF rel j] sub d show ?thesis
        unfolding device_ok_def Let_def v
        by (cases "?ls' = {}") (auto simp del: Min_less_iff Min_le_iff Min_ge_iff Min_gr_iff)
    qed
    show ?thesis using j okv dev by (auto simp: admit_inbound_nth [of j "?f i"])
  qed
  have "inb_Users (?f (?f i)) = inb_Users (?f i)"
    by (rule nth_equalityI) (use same in simp_all)
  then have "?f (?f i) = (?f i)\<lparr>inb_Users := inb_Users (?f i)\<rparr>"
    by (metis admit_inbound_frame)
  then show ?thesis by simp
qed

section \<open>Draining and pending usage\<close>

definition prev_members :: "desired_state \<Rightarrow> string \<Rightarrow> string set option" where
  "prev_members p iid = map_option (\<lambda>i. usr_ID ` set (inb_Users i))
     (find (\<lambda>i. inb_ID i = iid) (rev (ds_Inbounds p)))"

definition restrict_users :: "string set \<Rightarrow> managed_inbound \<Rightarrow> managed_inbound" where
  "restrict_users ids i = i\<lparr>inb_Users := filter (\<lambda>u. usr_ID u \<in> ids) (inb_Users i)\<rparr>"

lemma drain_inbound_eq:
  "drain_inbound (go_index inb_ID (\<lambda>i. i) (ds_Inbounds p)) i
     = (case prev_members p (inb_ID i) of None \<Rightarrow> [] | Some ids \<Rightarrow> [restrict_users ids i])"
proof -
  have mem: "(go_get (go_index usr_ID (\<lambda>_. ()) us) k \<noteq> None) = (k \<in> usr_ID ` set us)" for us k
    by (simp only: go_index_None not_not)
  show ?thesis
    unfolding drain_inbound_def Let_def mem
    by (simp add: prev_members_def restrict_users_def go_index_get split: option.splits)
qed

lemma apply_drain_inbounds:
  "ds_Inbounds (apply_drain p d) = concat (map (\<lambda>i. case prev_members p (inb_ID i) of
       None \<Rightarrow> [] | Some ids \<Rightarrow> [restrict_users ids i]) (ds_Inbounds d))"
  by (simp add: apply_drain_def Let_def drain_inbound_eq cong: map_cong)

lemma apply_drain_frame:
  "(apply_drain p d)\<lparr>ds_Inbounds := [], ds_Mode := m\<rparr> = d\<lparr>ds_Inbounds := [], ds_Mode := m\<rparr>"
  "ds_Mode (apply_drain p d) = ''draining''"
  by (simp_all add: apply_drain_def Let_def)

subsection \<open>Pending usage\<close>

definition record_key :: "traffic_record \<Rightarrow> usage_key" where
  "record_key r = UsageKey (rec_UserID r) (rec_InboundID r)"

definition bytes_for :: "traffic_record list \<Rightarrow> usage_key \<Rightarrow> int" where
  "bytes_for rs k =
     sum_list (map rec_Value (filter (\<lambda>r. counts_usage r \<and> record_key r = k) rs))"

lemma usage_add_num [map_simps]:
  "go_num (usage_add m k v) k' = (if k' = k then i64 (go_num m k + v) else go_num m k')"
  by (simp add: usage_add_def map_simps)

lemma pending_usage_num: "go_num (pending_usage rs) k = i64 (bytes_for rs k)"
proof (induction rs rule: rev_induct)
  case Nil
  then show ?case by (simp add: pending_usage_def bytes_for_def)
next
  case (snoc r rs)
  have "pending_usage (rs @ [r]) = (if \<not> counts_usage r then pending_usage rs
      else usage_add (pending_usage rs) (record_key r) (rec_Value r))"
    by (simp add: pending_usage_def record_key_def)
  then show ?case using snoc by (auto simp: map_simps wrap_simps bytes_for_def)
qed

lemma pending_usage_ok: "go_ok (pending_usage rs)"
  unfolding pending_usage_def
  by (rule foldl_invariant) (auto simp: usage_add_def go_ok_put)

lemma merge_usage_ok: "go_ok m \<Longrightarrow> go_ok (merge_usage m src)"
  unfolding merge_usage_def
  by (rule foldl_invariant) (auto simp: usage_add_def go_ok_put)

lemma merge_usage_num:
  assumes "distinct (map fst src)" and "\<And>k. in_i64 (go_num m k)"
  shows "go_num (merge_usage m src) k = i64 (go_num m k + go_num src k)"
  using assms
proof (induction src arbitrary: m)
  case Nil
  then show ?case by (simp add: merge_usage_def wrap_simps)
next
  case (Cons e src)
  obtain k' v where e: "e = (k', v)" by (cases e)
  have range: "in_i64 (go_num (usage_add m k' v) j)" for j
    using Cons.prems(2) by (simp add: map_simps i64_range)
  have zero: "k = k' \<Longrightarrow> go_num src k = 0"
    using Cons.prems(1) by (simp add: e go_num_def map_of_eq_None_iff [THEN iffD2])
  have "go_num (merge_usage m (e # src)) k = go_num (merge_usage (usage_add m k' v) src) k"
    by (simp add: merge_usage_def e)
  also have "\<dots> = i64 (go_num (usage_add m k' v) k + go_num src k)"
    using Cons.prems(1) range by (intro Cons.IH) auto
  also have "\<dots> = i64 (go_num m k + go_num (e # src) k)"
    using zero by (auto simp: e map_simps wrap_simps) (simp_all add: go_num_def)
  finally show ?case .
qed

section \<open>Properties of the evaluator\<close>

text \<open>
  Claim C17. The evaluator admits exactly the right credentials: its result is the desired state
  with nothing changed but the flags of the users, every inbound and user at its place, and a
  user's flag is set exactly when the credential is admissible (enabled by the panel, not
  expired, below its quota with the pending usage counted, within its IP limit) and, where its
  account carries a device limit in the inbound, fewer admissible credentials of the account
  stand before it than the strictest of these limits.
\<close>

theorem evaluate_admits_exactly:
  "ev_State (evaluate d ss pending now)
     = d\<lparr>ds_Inbounds := map (admit_inbound (admissible ss pending now)) (ds_Inbounds d)\<rparr>"
  by (rule evaluate_state)

text \<open>
  The device limit holds: in every inbound the number of credentials of an account
  that the evaluation leaves enabled is the number of its admissible ones, cut at the strictest
  positive device limit among them.
\<close>

lemma evaluate_device_cap:
  "map (\<lambda>i. length (filter (\<lambda>u. usr_Enabled u \<and> usr_AccountID u = acc) (inb_Users i)))
      (ds_Inbounds (ev_State (evaluate d ss pending now)))
   = map (\<lambda>i. let ok = admissible ss pending now i; ls = device_limits ok (inb_Users i) acc;
               n = length (filter (\<lambda>u. ok u \<and> usr_AccountID u = acc) (inb_Users i))
             in if acc = [] \<or> ls = {} then n else min n (nat (Min ls)))
      (ds_Inbounds d)"
proof -
  have "length (filter (\<lambda>u. usr_Enabled u \<and> usr_AccountID u = acc)
        (inb_Users (fst (evaluate_inbound (session_map ss) pending now i))))
      = (let ok = admissible ss pending now i; ls = device_limits ok (inb_Users i) acc;
             n = length (filter (\<lambda>u. ok u \<and> usr_AccountID u = acc) (inb_Users i))
         in if acc = [] \<or> ls = {} then n else min n (nat (Min ls)))" for i
    by (rule evaluate_inbound_count)
  then show ?thesis by (simp add: evaluate_inbounds)
qed


text \<open>
  Every violation carries its evidence: a positive limit, and an observed value that
  reaches it (expiry, quota) or exceeds it (IP limit, device limit).
\<close>

lemma evaluate_violation_evidence:
  "list_all (\<lambda>v. 0 < vio_Limit v \<and>
       (vio_Reason v \<in> {''expired'', ''traffic_quota''} \<and> vio_Limit v \<le> vio_Observed v
        \<or> vio_Reason v \<in> {''ip_limit'', ''device_limit''} \<and> vio_Limit v < vio_Observed v))
     (ev_Violations (evaluate d ss pending now))"
  unfolding evaluate_simps list_all_iff using evaluate_inbound_evidence by fastforce

text \<open>
  Evaluating is idempotent: evaluating the effective state again with the same
  sessions, usage and time changes nothing and reports no violation, so a state that was
  persisted after an evaluation is stable.
\<close>

lemma evaluate_idempotent:
  "evaluate (ev_State (evaluate d ss pending now)) ss pending now
     = \<lparr>ev_State = ev_State (evaluate d ss pending now), ev_Violations = []\<rparr>" (is "?e2 = _")
proof -
  have state: "ev_State ?e2 = ev_State (evaluate d ss pending now)"
    by (simp add: evaluate_state admit_again o_def)
  have "mset (map vio_key (ev_Violations ?e2))
      = mset (concat (map2 (\<lambda>i i'. switched_off (inb_ID i) (inb_Users i) (inb_Users i'))
          (ds_Inbounds (ev_State (evaluate d ss pending now))) (ds_Inbounds (ev_State ?e2))))"
    unfolding evaluate_simps by (rule concat_viols)
  also have "\<dots> = {#}" by (simp add: state zip_same_conv_map switched_off_same o_def)
  finally have "ev_Violations ?e2 = []" by simp
  with state show ?thesis by (cases ?e2) simp
qed


end
