(* ===== verification/Builder.thy ===== *)
theory Builder
  imports Model GoStrings
begin

text \<open>
  The configuration builder, \<^verbatim>\<open>internal/xray/builder.go\<close>: the synthetic accounting
  identity of a user in an inbound and its parsers, and the translation of a desired state into
  the JSON document Xray is started with. JSON documents are values of \<open>any\<close>; what
  \<^verbatim>\<open>json.Unmarshal\<close> makes of the text of a raw message is the parameter \<open>unm\<close>.
\<close>

section \<open>Failures\<close>

text \<open>An error return, and a run-time panic, which ends the process.\<close>

datatype failure = Error string | Panic string

type_synonym 'a result = "failure + 'a"
type_synonym unmarshal = "raw_message \<Rightarrow> string + any"

fun wrap_error :: "string \<Rightarrow> failure \<Rightarrow> failure" where
  "wrap_error what (Error e) = Error (what @ '': '' @ e)"
| "wrap_error what (Panic e) = Panic e"

lemma collect_no_panic:
  assumes "\<And>x e. x \<in> set xs \<Longrightarrow> f x \<noteq> Inl (Panic e)"
  shows "collect (map f xs) \<noteq> Inl (Panic e)"
  using assms
proof (induction xs)
  case Nil
  then show ?case by simp
next
  case (Cons x xs)
  from Cons.prems have "f x \<noteq> Inl (Panic e)" by simp
  moreover have "collect (map f xs) \<noteq> Inl (Panic e)" using Cons by simp
  ultimately show ?case by (auto split: sum.splits)
qed

section \<open>The accounting identity\<close>

definition reserved_bytes :: "char set" where
  "reserved_bytes = {CHR ''>'', CHR ''|'', CHR '' ''}"

definition sanitize :: "string \<Rightarrow> string" where
  "sanitize s = replace_bytes reserved_bytes (CHR ''_'') s"

definition accounting_email :: "string \<Rightarrow> string \<Rightarrow> string" where
  "accounting_email uid iid = ''u:'' @ sanitize uid @ ''|i:'' @ sanitize iid"

definition parse_accounting_email :: "string \<Rightarrow> (string \<times> string) option" where
  "parse_accounting_email email =
     (if \<not> has_prefix ''u:'' email then None
      else case split_n2 ''|i:'' (trim_prefix ''u:'' email) of
          [u, i] \<Rightarrow> if u = [] \<or> i = [] then None else Some (u, i)
        | _ \<Rightarrow> None)"

definition parse_accounting_name :: "string \<Rightarrow> (string \<times> string \<times> string) option" where
  "parse_accounting_name name =
     (case split_on ''>>>'' name of
        [p0, p1, p2, p3] \<Rightarrow>
          if p0 \<noteq> ''user'' \<or> p2 \<noteq> ''traffic'' then None
          else (case parse_accounting_email p1 of
              None \<Rightarrow> None | Some (u, i) \<Rightarrow> Some (u, i, p3))
      | _ \<Rightarrow> None)"

definition sanitize_tag :: "string \<Rightarrow> string" where
  "sanitize_tag s =
     replace_bytes {CHR '' '', CHR ''>'', CHR ''|'', CHR ''/''} (CHR ''_'') s"

section \<open>Inbounds\<close>

definition clone_map :: "obj option \<Rightarrow> obj" where
  "clone_map src = (case src of None \<Rightarrow> [] | Some m \<Rightarrow> m)"

definition client_of :: "managed_inbound \<Rightarrow> managed_user \<Rightarrow> any" where
  "client_of i u =
     AMap (go_put ''level'' (AInt (usr_Level u))
       (go_put ''email'' (AStr (accounting_email (usr_ID u) (inb_ID i)))
         (clone_map (usr_Credential u))))"

definition client_protocols :: "string list" where
  "client_protocols = [''vless'', ''vmess'', ''trojan'', ''shadowsocks'']"

definition build_settings :: "managed_inbound \<Rightarrow> obj" where
  "build_settings i =
     (let settings = clone_map (inb_Settings i);
          p = to_lower (inb_Protocol i);
          active = filter usr_Enabled (inb_Users i)
      in if p \<in> set client_protocols
         then go_put ''clients'' (AArr (map (client_of i) active)) settings
         else if p = ''wireguard'' then
           (if active = [] then settings
            else go_put ''peers'' (AArr (map (client_of i) active)) settings)
         else settings)"

definition put_some :: "string \<Rightarrow> obj option \<Rightarrow> obj \<Rightarrow> obj" where
  "put_some k v m = (case v of None \<Rightarrow> m | Some o' \<Rightarrow> go_put k (AMap o') m)"

definition build_inbound :: "managed_inbound \<Rightarrow> obj result" where
  "build_inbound i =
     (if inb_ID i = [] \<or> inb_Protocol i = [] \<or> inb_Tag i = []
      then Inl (Error ''id, tag and protocol are required'')
      else let m = go_put ''port'' (inb_Port i) (go_put ''protocol'' (AStr (inb_Protocol i))
                     (go_put ''tag'' (AStr (inb_Tag i)) []));
               m = (if inb_Listen i \<noteq> [] then go_put ''listen'' (AStr (inb_Listen i)) m else m);
               m = go_put ''settings'' (AMap (build_settings i)) m;
               m = put_some ''streamSettings'' (inb_StreamSettings i) m
           in Inr (put_some ''sniffing'' (inb_Sniffing i) m))"

definition build_inbound_document :: "managed_inbound \<Rightarrow> any result" where
  "build_inbound_document i =
     (case build_inbound i of
        Inl e \<Rightarrow> Inl e
      | Inr m \<Rightarrow> Inr (AMap [(''inbounds'', AArr [AMap m])]))"

definition build_user_document :: "managed_inbound \<Rightarrow> managed_user \<Rightarrow> any result" where
  "build_user_document i u =
     build_inbound_document (i\<lparr>inb_Users := [u\<lparr>usr_Enabled := True\<rparr>]\<rparr>)"

section \<open>The whole configuration\<close>

definition stats_level :: any where
  "stats_level = AMap [(''statsUserDownlink'', ABool True), (''statsUserOnline'', ABool True),
     (''statsUserUplink'', ABool True)]"

definition all_users :: "desired_state \<Rightarrow> (managed_inbound \<times> managed_user) list" where
  "all_users s = concat (map (\<lambda>i. map (Pair i) (inb_Users i)) (ds_Inbounds s))"

definition stats_levels :: "desired_state \<Rightarrow> obj" where
  "stats_levels s =
     foldl (\<lambda>m (i, u). if \<not> usr_Enabled u then m else go_put (show_int (usr_Level u)) stats_level m)
       [(''0'', stats_level)] (all_users s)"

definition managed_rule :: "managed_inbound \<Rightarrow> managed_user \<Rightarrow> any" where
  "managed_rule i u = AMap [
     (''outboundTag'', AStr (usr_OutboundTag u)),
     (''ruleTag'', AStr (''xnode-user-'' @ sanitize_tag (inb_ID i) @ ''-'' @ sanitize_tag (usr_ID u))),
     (''type'', AStr ''field''),
     (''user'', AArr [AStr (accounting_email (usr_ID u) (inb_ID i))])]"

definition managed_rules :: "desired_state \<Rightarrow> any list" where
  "managed_rules s =
     map (\<lambda>(i, u). managed_rule i u)
       (filter (\<lambda>(i, u). usr_Enabled u \<and> usr_OutboundTag u \<noteq> []) (all_users s))"

text \<open>
  \<^verbatim>\<open>json.Unmarshal\<close> into the (empty, not nil) map \<^verbatim>\<open>base\<close>: an object fills it, \<^verbatim>\<open>null\<close> sets
  it to the nil map, anything else is an error. Storing into a nil map panics.
\<close>

definition unmarshal_map :: "unmarshal \<Rightarrow> raw_message \<Rightarrow> string + obj option" where
  "unmarshal_map unm raw =
     (case unm raw of
        Inl e \<Rightarrow> Inl e
      | Inr (AMap m) \<Rightarrow> Inr (Some m)
      | Inr ANil \<Rightarrow> Inr None
      | Inr _ \<Rightarrow> Inl ''json: cannot unmarshal value into Go value of type map[string]interface {}'')"

definition build_routing :: "unmarshal \<Rightarrow> desired_state \<Rightarrow> obj option result" where
  "build_routing unm s =
     (case (if ds_Routing s \<noteq> [] then unmarshal_map unm (ds_Routing s) else Inr (Some [])) of
        Inl e \<Rightarrow> Inl (Error (''routing: '' @ e))
      | Inr base \<Rightarrow>
          let existing = (case go_get (clone_map base) ''rules'' of Some (AArr rs) \<Rightarrow> rs | _ \<Rightarrow> []);
              managed = managed_rules s
          in if managed = [] \<and> clone_map base = [] then Inr None
             else if managed = [] then Inr base
             else (case base of
                 None \<Rightarrow> Inl (Panic ''assignment to entry in nil map'')
               | Some m \<Rightarrow> Inr (Some (go_put ''rules'' (AArr (managed @ existing)) m))))"

definition build_inbounds :: "desired_state \<Rightarrow> any list result" where
  "build_inbounds s =
     collect (map (\<lambda>i. case build_inbound i of
         Inl e \<Rightarrow> Inl (wrap_error (''inbound '' @ inb_ID i) e)
       | Inr m \<Rightarrow> Inr (AMap m)) (ds_Inbounds s))"

definition default_outbounds :: "any list" where
  "default_outbounds =
     [AMap [(''protocol'', AStr ''freedom''), (''tag'', AStr ''direct'')],
      AMap [(''protocol'', AStr ''blackhole''), (''tag'', AStr ''block'')]]"

definition build_outbounds :: "unmarshal \<Rightarrow> desired_state \<Rightarrow> any list result" where
  "build_outbounds unm s =
     (if ds_Outbounds s = [] then Inr default_outbounds
      else collect (map (\<lambda>raw. case unm raw of
          Inl e \<Rightarrow> Inl (Error (''outbound: '' @ e)) | Inr v \<Rightarrow> Inr v) (ds_Outbounds s)))"

definition config_head :: "desired_state \<Rightarrow> string \<Rightarrow> string list \<Rightarrow> obj" where
  "config_head s api access_log =
     [(''api'', AMap [(''listen'', AStr api),
         (''services'', AArr (map AStr [''HandlerService'', ''StatsService'', ''RoutingService'', ''LoggerService''])),
         (''tag'', AStr ''api'')]),
      (''log'', AMap ((case access_log of
            l # _ \<Rightarrow> if l \<noteq> [] then [(''access'', AStr l)] else []
          | [] \<Rightarrow> []) @ [(''loglevel'', AStr ''warning'')])),
      (''policy'', AMap [(''levels'', AMap (stats_levels s)),
         (''system'', AMap [(''statsInboundDownlink'', ABool True), (''statsInboundUplink'', ABool True),
            (''statsOutboundDownlink'', ABool True), (''statsOutboundUplink'', ABool True)])]),
      (''stats'', AMap [])]"

definition build_config :: "unmarshal \<Rightarrow> desired_state \<Rightarrow> string \<Rightarrow> string list \<Rightarrow> any result" where
  "build_config unm s api access_log =
     (case build_inbounds s of Inl e \<Rightarrow> Inl e | Inr ins \<Rightarrow>
      (case build_outbounds unm s of Inl e \<Rightarrow> Inl e | Inr outs \<Rightarrow>
       (case build_routing unm s of Inl e \<Rightarrow> Inl e | Inr routing \<Rightarrow>
        let cfg = go_put ''outbounds'' (AArr outs)
                    (go_put ''inbounds'' (AArr ins) (config_head s api access_log));
            cfg = put_some ''routing'' routing cfg
        in if ds_DNS s = [] then Inr (AMap cfg)
           else (case unm (ds_DNS s) of
               Inl e \<Rightarrow> Inl (Error (''dns: '' @ e))
             | Inr v \<Rightarrow> Inr (AMap (go_put ''dns'' v cfg))))))"

section \<open>Lemmas on identities\<close>

lemma sanitize_clean: "c \<in> reserved_bytes \<Longrightarrow> c \<notin> set (sanitize s)"
  using set_replace_bytes [of "CHR ''_''" reserved_bytes s]
  by (auto simp: sanitize_def reserved_bytes_def)

lemma sanitize_Nil [simp]: "sanitize s = [] \<longleftrightarrow> s = []"
  by (simp add: sanitize_def)

lemma sanitize_idem [simp]: "sanitize (sanitize s) = sanitize s"
  by (simp add: sanitize_def replace_bytes_idem reserved_bytes_def)

lemma sanitize_id: "set s \<inter> reserved_bytes = {} \<Longrightarrow> sanitize s = s"
  by (simp add: sanitize_def replace_bytes_id)

lemma split_n2_skip: "a \<notin> set u \<Longrightarrow> split_n2 (a # p) (u @ (a # p) @ v) = [u, v]"
  by (simp add: split_n2_def index_of_skip del: append_Cons)

lemma split_on_four:
  assumes "a \<notin> set u1" and "a \<notin> set u2" and "a \<notin> set u3" and "a \<notin> set u4"
  shows "split_on (a # p) (u1 @ (a # p) @ u2 @ (a # p) @ u3 @ (a # p) @ u4) = [u1, u2, u3, u4]"
  by (simp only: split_on_skip [OF assms(1)] split_on_skip [OF assms(2)]
      split_on_skip [OF assms(3)] split_on_absent [OF assms(4)])

lemma parse_email_shape:
  assumes "CHR ''|'' \<notin> set u"
  shows "parse_accounting_email (''u:'' @ u @ ''|i:'' @ i)
     = (if u = [] \<or> i = [] then None else Some (u, i))"
proof -
  have "trim_prefix ''u:'' (''u:'' @ u @ ''|i:'' @ i) = u @ ''|i:'' @ i"
    by (simp add: trim_prefix_def)
  moreover have "split_n2 ''|i:'' (u @ ''|i:'' @ i) = [u, i]"
    using split_n2_skip [OF assms, of "''i:''" i] by simp
  ultimately show ?thesis
    by (simp only: parse_accounting_email_def has_prefix_append not_True_eq_False if_False list.case)
qed

lemma bar_reserved: "CHR ''|'' \<in> reserved_bytes" "CHR ''>'' \<in> reserved_bytes"
  by (simp_all add: reserved_bytes_def)

lemma parse_email_roundtrip:
  "parse_accounting_email (accounting_email uid iid)
     = (if uid = [] \<or> iid = [] then None else Some (sanitize uid, sanitize iid))"
  unfolding accounting_email_def
  by (subst parse_email_shape) (simp_all add: sanitize_clean bar_reserved)

lemma gt_not_in_email: "CHR ''>'' \<notin> set (accounting_email uid iid)"
  by (simp add: accounting_email_def sanitize_clean bar_reserved)

lemma accounting_email_injective_aux:
  "accounting_email u i = accounting_email u' i' \<longleftrightarrow> sanitize u = sanitize u' \<and> sanitize i = sanitize i'"
proof
  assume "accounting_email u i = accounting_email u' i'"
  then have eq: "sanitize u @ ''|i:'' @ sanitize i = sanitize u' @ ''|i:'' @ sanitize i'"
    by (simp add: accounting_email_def)
  have two: "split_n2 ''|i:'' (sanitize w @ ''|i:'' @ sanitize j) = [sanitize w, sanitize j]" for w j
    using split_n2_skip [where a = "CHR ''|''" and u = "sanitize w" and p = "''i:''" and v = "sanitize j"]
      sanitize_clean [OF bar_reserved(1), of w] by simp
  have "[sanitize u, sanitize i] = [sanitize u', sanitize i']"
    unfolding two [symmetric] eq ..
  then show "sanitize u = sanitize u' \<and> sanitize i = sanitize i'"
    by simp
qed (simp add: accounting_email_def)

lemma parse_name_roundtrip:
  assumes "uid \<noteq> []" and "iid \<noteq> []" and "CHR ''>'' \<notin> set dir"
  shows "parse_accounting_name (''user>>>'' @ accounting_email uid iid @ ''>>>traffic>>>'' @ dir)
     = Some (sanitize uid, sanitize iid, dir)"
proof -
  let ?e = "accounting_email uid iid"
  have "split_on (CHR ''>'' # ''>>'') (''user'' @ (CHR ''>'' # ''>>'') @ ?e @ (CHR ''>'' # ''>>'')
        @ ''traffic'' @ (CHR ''>'' # ''>>'') @ dir) = [''user'', ?e, ''traffic'', dir]"
    using gt_not_in_email assms(3) by (intro split_on_four) simp_all
  then show ?thesis
    using assms by (simp add: parse_accounting_name_def parse_email_roundtrip)
qed

section \<open>Lemmas on documents\<close>

fun json_field :: "string \<Rightarrow> any \<Rightarrow> any option" where
  "json_field k (AMap m) = go_get m k"
| "json_field k _ = None"

fun json_items :: "any \<Rightarrow> any list" where
  "json_items (AArr xs) = xs"
| "json_items _ = []"

text \<open>The clients of the first inbound of a document.\<close>

definition doc_clients :: "any result \<Rightarrow> any list" where
  "doc_clients r =
     (case r of Inl e \<Rightarrow> []
      | Inr d \<Rightarrow>
          (case json_field ''inbounds'' d of
             Some (AArr (i # _)) \<Rightarrow>
               (case json_field ''settings'' i of
                  Some st \<Rightarrow> (case json_field ''clients'' st of Some cs \<Rightarrow> json_items cs | None \<Rightarrow> [])
                | None \<Rightarrow> [])
           | _ \<Rightarrow> []))"

lemma go_get_put_some [map_simps]:
  "go_get (put_some k v m) k' = (if k' = k \<and> v \<noteq> None then Some (AMap (the v)) else go_get m k')"
  by (auto simp: put_some_def map_simps split: option.splits)

lemma build_inbound_settings:
  "build_inbound i = Inr m \<Longrightarrow> go_get m ''settings'' = Some (AMap (build_settings i))"
  by (auto simp: build_inbound_def Let_def map_simps split: if_splits)

lemma build_settings_clients:
  "to_lower (inb_Protocol i) \<in> set client_protocols \<Longrightarrow>
     go_get (build_settings i) ''clients'' = Some (AArr (map (client_of i) (filter usr_Enabled (inb_Users i))))"
  by (simp add: build_settings_def Let_def map_simps)

lemma build_settings_peers:
  "to_lower (inb_Protocol i) = ''wireguard'' \<Longrightarrow> filter usr_Enabled (inb_Users i) \<noteq> [] \<Longrightarrow>
     go_get (build_settings i) ''peers'' = Some (AArr (map (client_of i) (filter usr_Enabled (inb_Users i))))"
  by (simp add: build_settings_def Let_def map_simps client_protocols_def)

lemma client_of_fields:
  "json_field ''email'' (client_of i u) = Some (AStr (accounting_email (usr_ID u) (inb_ID i)))"
  "json_field ''level'' (client_of i u) = Some (AInt (usr_Level u))"
  "k \<notin> {''email'', ''level''} \<Longrightarrow> json_field k (client_of i u) = go_get (clone_map (usr_Credential u)) k"
  by (simp_all add: client_of_def map_simps)

lemma client_of_cong [simp]:
  "client_of (i\<lparr>inb_Users := us\<rparr>) u = client_of i u"
  "client_of i (u\<lparr>usr_Enabled := b\<rparr>) = client_of i u"
  by (simp_all add: client_of_def)

lemma build_inbound_ok:
  "(\<exists>m. build_inbound i = Inr m) \<longleftrightarrow> inb_ID i \<noteq> [] \<and> inb_Protocol i \<noteq> [] \<and> inb_Tag i \<noteq> []"
  by (simp add: build_inbound_def Let_def)

lemma doc_clients_inbound:
  assumes "to_lower (inb_Protocol i) \<in> set client_protocols"
  shows "doc_clients (build_inbound_document i)
     = (if inb_ID i = [] \<or> inb_Protocol i = [] \<or> inb_Tag i = [] then []
        else map (client_of i) (filter usr_Enabled (inb_Users i)))"
proof (cases "build_inbound i")
  case (Inl e)
  then show ?thesis
    by (simp add: doc_clients_def build_inbound_document_def) (metis build_inbound_ok Inl sum.distinct(1))
next
  case (Inr m)
  then have "inb_ID i \<noteq> [] \<and> inb_Protocol i \<noteq> [] \<and> inb_Tag i \<noteq> []"
    using build_inbound_ok by blast
  then show ?thesis
    using Inr build_inbound_settings [OF Inr] build_settings_clients [OF assms]
    by (simp add: doc_clients_def build_inbound_document_def)
qed

section \<open>Properties of the builder\<close>

text \<open>
  The accounting identity round-trips: parsing the synthetic email of a user and an
  inbound gives back their sanitized IDs (the IDs themselves where they hold none of the three
  reserved bytes), and nothing when one of the IDs is empty.
\<close>

lemma accounting_email_roundtrip:
  "parse_accounting_email (accounting_email uid iid)
     = (if uid = [] \<or> iid = [] then None else Some (sanitize uid, sanitize iid))"
  by (rule parse_email_roundtrip)

text \<open>
  Two identities share an accounting email exactly when their sanitized user IDs and
  their sanitized inbound IDs agree: the separator never makes two different pairs collide, and
  only the replacement of reserved bytes can.
\<close>

lemma accounting_email_injective:
  "accounting_email u i = accounting_email u' i' \<longleftrightarrow> sanitize u = sanitize u' \<and> sanitize i = sanitize i'"
  by (rule accounting_email_injective_aux)

text \<open>
  A counter name that Xray reports for a user, \<^verbatim>\<open>user>>>EMAIL>>>traffic>>>DIRECTION\<close>,
  is attributed to the user and inbound the email was made from, with its direction.
\<close>

lemma accounting_name_roundtrip:
  assumes "uid \<noteq> []" and "iid \<noteq> []" and "CHR ''>'' \<notin> set dir"
  shows "parse_accounting_name (''user>>>'' @ accounting_email uid iid @ ''>>>traffic>>>'' @ dir)
     = Some (sanitize uid, sanitize iid, dir)"
  using assms by (rule parse_name_roundtrip)

lemma accounting_name_roundtrip_witness:
  "parse_accounting_name (''user>>>'' @ accounting_email ''25'' ''101'' @ ''>>>traffic>>>'' @ ''uplink'')
     = Some (sanitize ''25'', sanitize ''101'', ''uplink'')"
  by (rule accounting_name_roundtrip) simp_all

text \<open>
  A configured inbound serves exactly its enabled users: when a VLESS, VMess, Trojan
  or Shadowsocks inbound is built, its client list has one entry per enabled user in order (and
  none for a disabled one), carrying the user's accounting email and level whatever the
  credential of the panel says under these keys, and the credential's own value under any other.
\<close>

lemma build_inbound_clients:
  assumes "build_inbound i = Inr m" and "to_lower (inb_Protocol i) \<in> set client_protocols"
  shows "\<exists>settings clients. go_get m ''settings'' = Some (AMap settings)
     \<and> go_get settings ''clients'' = Some (AArr clients)
     \<and> list_all2 (\<lambda>u c. json_field ''email'' c = Some (AStr (accounting_email (usr_ID u) (inb_ID i)))
           \<and> json_field ''level'' c = Some (AInt (usr_Level u))
           \<and> (\<forall>k. k = ''email'' \<or> k = ''level''
                 \<or> json_field k c = go_get (clone_map (usr_Credential u)) k))
         (filter usr_Enabled (inb_Users i)) clients"
proof (intro exI conjI)
  show "go_get m ''settings'' = Some (AMap (build_settings i))"
    using assms(1) by (rule build_inbound_settings)
  show "go_get (build_settings i) ''clients''
      = Some (AArr (map (client_of i) (filter usr_Enabled (inb_Users i))))"
    using assms(2) by (rule build_settings_clients)
  show "list_all2 (\<lambda>u c. json_field ''email'' c = Some (AStr (accounting_email (usr_ID u) (inb_ID i)))
           \<and> json_field ''level'' c = Some (AInt (usr_Level u))
           \<and> (\<forall>k. k = ''email'' \<or> k = ''level''
                 \<or> json_field k c = go_get (clone_map (usr_Credential u)) k))
         (filter usr_Enabled (inb_Users i)) (map (client_of i) (filter usr_Enabled (inb_Users i)))"
    by (rule list_all2_map_self) (auto simp: client_of_def map_simps)
qed

definition ex_vless :: managed_inbound where
  "ex_vless = zero_inbound\<lparr>inb_ID := ''101'', inb_Tag := ''v'', inb_Protocol := ''VLESS'', inb_Users :=
     [zero_user\<lparr>usr_ID := ''25'', usr_Enabled := True, usr_Credential := Some [(''email'', AStr ''x'')]\<rparr>,
      zero_user\<lparr>usr_ID := ''26''\<rparr>]\<rparr>"

lemma ex_vless_protocol: "to_lower (inb_Protocol ex_vless) \<in> set client_protocols"
  by code_simp

lemma build_inbound_clients_example:
  "\<exists>m settings clients. build_inbound ex_vless = Inr m \<and> go_get m ''settings'' = Some (AMap settings)
     \<and> go_get settings ''clients'' = Some (AArr clients) \<and> length clients = 1"
proof -
  obtain m where m: "build_inbound ex_vless = Inr m"
    using build_inbound_ok [of ex_vless] by (auto simp: ex_vless_def zero_defs)
  from build_inbound_clients [OF m ex_vless_protocol] obtain settings clients where
    "go_get m ''settings'' = Some (AMap settings)" "go_get settings ''clients'' = Some (AArr clients)"
    "length (filter usr_Enabled (inb_Users ex_vless)) = length clients"
    by (blast dest: list_all2_lengthD)
  with m show ?thesis by (auto simp: ex_vless_def zero_defs)
qed

text \<open>
  A hot-added user is configured as a restart would: for the protocols whose users are
  added at run time, the one-user documents of the enabled users hold together exactly the
  clients of the inbound document, in the same order.
\<close>

lemma hot_user_same_client:
  assumes "to_lower (inb_Protocol i) \<in> set client_protocols"
  shows "concat (map (\<lambda>u. doc_clients (build_user_document i u)) (filter usr_Enabled (inb_Users i)))
     = doc_clients (build_inbound_document i)"
  using assms by (auto simp: build_user_document_def doc_clients_inbound o_def)

lemma hot_user_same_client_witness:
  "concat (map (\<lambda>u. doc_clients (build_user_document ex_vless u)) (filter usr_Enabled (inb_Users ex_vless)))
     = doc_clients (build_inbound_document ex_vless)"
  using hot_user_same_client [OF ex_vless_protocol] .

text \<open>
  Claim C19. Hot-added inbounds are configured as a restart would configure them: when the whole
  configuration is built, its inbound list has one entry per desired inbound, in order, and each
  entry is the inbound of the one-inbound document the runtime API receives.
\<close>

theorem config_inbounds_are_documents:
  assumes "build_config unm s api access_log = Inr cfg"
  shows "\<exists>ins. json_field ''inbounds'' cfg = Some (AArr ins)
     \<and> map (\<lambda>x. Inr (AMap [(''inbounds'', AArr [x])])) ins = map build_inbound_document (ds_Inbounds s)"
proof -
  from assms obtain ins where ins: "build_inbounds s = Inr ins"
      and f: "json_field ''inbounds'' cfg = Some (AArr ins)"
    by (auto simp: build_config_def Let_def map_simps split: sum.splits if_splits)
  from ins have "list_all2 (\<lambda>i x. build_inbound_document i = Inr (AMap [(''inbounds'', AArr [x])]))
      (ds_Inbounds s) ins"
    unfolding build_inbounds_def collect_map_Inr
    by (rule list_all2_mono) (auto simp: build_inbound_document_def split: sum.splits)
  then have "map (\<lambda>x. Inr (AMap [(''inbounds'', AArr [x])])) ins = map build_inbound_document (ds_Inbounds s)"
    by (induction rule: list_all2_induct) auto
  with f show ?thesis by blast
qed

theorem config_inbounds_are_documents_witness:
  "\<exists>cfg ins. build_config (\<lambda>_. Inr ANil) (zero_state\<lparr>ds_Inbounds := [ex_vless]\<rparr>) ''127.0.0.1:1'' [] = Inr cfg
     \<and> json_field ''inbounds'' cfg = Some (AArr ins)
     \<and> map (\<lambda>x. Inr (AMap [(''inbounds'', AArr [x])])) ins = [build_inbound_document ex_vless]"
proof -
  let ?s = "zero_state\<lparr>ds_Inbounds := [ex_vless]\<rparr>"
  obtain m where "build_inbound ex_vless = Inr m"
    using build_inbound_ok [of ex_vless] by (auto simp: ex_vless_def zero_defs)
  moreover have "managed_rules ?s = []"
    by (simp add: managed_rules_def all_users_def ex_vless_def zero_defs)
  ultimately obtain cfg where "build_config (\<lambda>_. Inr ANil) ?s ''127.0.0.1:1'' [] = Inr cfg"
    by (auto simp: build_config_def build_inbounds_def build_outbounds_def build_routing_def
        clone_map_def zero_defs)
  from this config_inbounds_are_documents [OF this] show ?thesis by auto
qed

text \<open>
  Claim C22. When the agent crashes while it builds the routing section: exactly when the panel
  sends \<^verbatim>\<open>"routing": null\<close> (a message that decodes to \<open>ANil\<close>) and some enabled user has an
  outbound tag. The nil map that \<^verbatim>\<open>null\<close> leaves behind is then stored into, which panics.
\<close>

theorem build_routing_panics_iff:
  "(\<exists>e. build_routing unm s = Inl (Panic e)) \<longleftrightarrow>
     ds_Routing s \<noteq> [] \<and> unm (ds_Routing s) = Inr ANil \<and> managed_rules s \<noteq> []"
proof -
  have "unm r = Inr ANil \<longleftrightarrow> unmarshal_map unm r = Inr None" for r
    by (auto simp: unmarshal_map_def split: sum.splits any.splits)
  then show ?thesis
    by (auto simp: build_routing_def Let_def clone_map_def split: sum.splits option.splits)
qed

text \<open>
  Per-user routing takes precedence: in a routing section that is built, the rules are
  the managed ones (one per enabled user with an outbound tag, matching the user's accounting
  email, in the order of the desired state) followed by the panel's own rules.
\<close>

lemma build_routing_rules:
  assumes "build_routing unm s = Inr (Some m)" and "managed_rules s \<noteq> []"
  shows "go_get m ''rules'' = Some (AArr (
      map (\<lambda>(i, u). managed_rule i u)
        (filter (\<lambda>(i, u). usr_Enabled u \<and> usr_OutboundTag u \<noteq> []) (all_users s))
      @ (case unmarshal_map unm (ds_Routing s) of
           Inr (Some base) \<Rightarrow>
             (if ds_Routing s = [] then []
              else case go_get base ''rules'' of Some (AArr rs) \<Rightarrow> rs | _ \<Rightarrow> [])
         | _ \<Rightarrow> [])))"
  using assms
  by (auto simp: build_routing_def managed_rules_def [symmetric] Let_def clone_map_def map_simps
      split: sum.splits option.splits if_splits any.splits)

definition ex_routed :: desired_state where
  "ex_routed = zero_state\<lparr>ds_Routing := ''null'', ds_Inbounds := [zero_inbound\<lparr>inb_ID := ''i'', inb_Users :=
     [zero_user\<lparr>usr_ID := ''u'', usr_Enabled := True, usr_OutboundTag := ''premium''\<rparr>]\<rparr>]\<rparr>"

lemma build_routing_rules_witness:
  "build_routing (\<lambda>_. Inr (AMap [])) ex_routed
     = Inr (Some [(''rules'', AArr [managed_rule (hd (ds_Inbounds ex_routed))
         (hd (inb_Users (hd (ds_Inbounds ex_routed))))])])"
proof -
  have rules: "managed_rules ex_routed \<noteq> []"
    by (simp add: managed_rules_def all_users_def ex_routed_def zero_defs)
  have m: "build_routing (\<lambda>_. Inr (AMap [])) ex_routed
      = Inr (Some [(''rules'', AArr (managed_rules ex_routed))])"
    using rules by (simp add: build_routing_def unmarshal_map_def clone_map_def ex_routed_def)
  from build_routing_rules [OF m rules] m show ?thesis
    by (simp add: unmarshal_map_def all_users_def ex_routed_def zero_defs)
qed

end
