(* ===== verification/Runtime.thy ===== *)
theory Runtime
  imports Builder
begin

text \<open>
  Hot reload, \<^verbatim>\<open>internal/xray/runtime.go\<close>: the plan that moves a running Xray from the
  previous effective state to the desired one, and its execution through Xray's API commands.
  Xray itself is outside the repository: running one of its API commands is the parameter
  \<open>run\<close> (a function on an unknown world \<open>'x\<close>), whose documented effect (\<^verbatim>\<open>docs/RUNTIME_API.md\<close>)
  is the predicate \<open>handler_service\<close>, stated over what Xray serves under each tag.
\<close>

section \<open>Plans\<close>

text \<open>The five kinds of \<^verbatim>\<open>RuntimeOp\<close>, each with the fields its kind uses.\<close>

datatype runtime_op =
    AddInbound managed_inbound
  | RemoveInbound string
  | ReplaceInbound string managed_inbound
  | AddUser managed_inbound managed_user
  | RemoveUser string string

record runtime_plan =
  plan_Operations :: "runtime_op list"
  plan_RequiresRestart :: bool
  plan_Reason :: string

section \<open>Comparisons\<close>

definition bytes_json_equal :: "unmarshal \<Rightarrow> raw_message \<Rightarrow> raw_message \<Rightarrow> bool" where
  "bytes_json_equal unm a b =
     (if a = [] \<and> b = [] then True
      else case unm a of
          Inl _ \<Rightarrow> a = b
        | Inr av \<Rightarrow> (case unm b of Inl _ \<Rightarrow> a = b | Inr bv \<Rightarrow> av = bv))"

definition raw_messages_equal :: "unmarshal \<Rightarrow> raw_message list \<Rightarrow> raw_message list \<Rightarrow> bool" where
  "raw_messages_equal unm a b \<longleftrightarrow>
     length a = length b \<and> list_all2 (bytes_json_equal unm) a b"

record route =
  rt_InboundID :: string
  rt_UserID :: string
  rt_OutboundTag :: string
  rt_Enabled :: bool

definition collect_routes :: "desired_state \<Rightarrow> route list" where
  "collect_routes s =
     sort_slice (\<lambda>r. (rt_InboundID r, rt_UserID r))
       (map (\<lambda>(i, u). \<lparr>rt_InboundID = inb_ID i, rt_UserID = usr_ID u,
                rt_OutboundTag = usr_OutboundTag u, rt_Enabled = usr_Enabled u\<rparr>)
          (filter (\<lambda>(i, u). usr_OutboundTag u \<noteq> []) (all_users s)))"

definition managed_routing_equal :: "desired_state \<Rightarrow> desired_state \<Rightarrow> bool" where
  "managed_routing_equal a b \<longleftrightarrow> collect_routes a = collect_routes b"

definition runtime_global_equal :: "unmarshal \<Rightarrow> desired_state \<Rightarrow> desired_state \<Rightarrow> bool" where
  "runtime_global_equal unm a b \<longleftrightarrow>
     raw_messages_equal unm (ds_Outbounds a) (ds_Outbounds b)
       \<and> bytes_json_equal unm (ds_Routing a) (ds_Routing b)
       \<and> bytes_json_equal unm (ds_DNS a) (ds_DNS b)
       \<and> managed_routing_equal a b"

definition inbound_by_id :: "managed_inbound list \<Rightarrow> (string, managed_inbound) gomap" where
  "inbound_by_id is = go_index inb_ID (\<lambda>i. i) is"

definition user_by_id :: "managed_user list \<Rightarrow> (string, managed_user) gomap" where
  "user_by_id us = go_index usr_ID (\<lambda>u. u) us"

definition inbound_base_equal :: "managed_inbound \<Rightarrow> managed_inbound \<Rightarrow> bool" where
  "inbound_base_equal a b \<longleftrightarrow>
     a\<lparr>inb_Users := [], inb_Metadata := None\<rparr> = b\<lparr>inb_Users := [], inb_Metadata := None\<rparr>"

definition user_runtime_equal :: "managed_user \<Rightarrow> managed_user \<Rightarrow> bool" where
  "user_runtime_equal a b \<longleftrightarrow>
     usr_Level a = usr_Level b \<and> usr_Credential a = usr_Credential b"

definition users_runtime_equal :: "managed_user list \<Rightarrow> managed_user list \<Rightarrow> bool" where
  "users_runtime_equal a b =
     (if length a \<noteq> length b then False
      else let am = user_by_id a; bm = user_by_id b in
        if length am \<noteq> length bm then False
        else list_all (\<lambda>(k, au). case go_get bm k of
            None \<Rightarrow> False
          | Some bu \<Rightarrow> user_runtime_equal au bu \<and> usr_Enabled au = usr_Enabled bu) am)"

definition supports_hot_users :: "managed_inbound \<Rightarrow> bool" where
  "supports_hot_users i \<longleftrightarrow> to_lower (inb_Protocol i) \<in> set client_protocols"

definition active_levels :: "desired_state \<Rightarrow> (int, unit) gomap" where
  "active_levels s =
     foldl (\<lambda>m (i, u). if usr_Enabled u then go_put (usr_Level u) () m else m)
       [(0, ())] (all_users s)"

section \<open>Planning\<close>

definition plan_removals :: "managed_inbound list \<Rightarrow> managed_inbound list \<Rightarrow> runtime_op list" where
  "plan_removals prev desired =
     map (\<lambda>old. RemoveInbound (inb_Tag old))
       (filter (\<lambda>old. go_get (inbound_by_id desired) (inb_ID old) = None) prev)"

text \<open>The two loops over the users of an inbound that stays.\<close>

definition must_remove :: "managed_user list \<Rightarrow> managed_user \<Rightarrow> bool" where
  "must_remove new old \<longleftrightarrow>
     usr_Enabled old \<and>
       (case go_get (user_by_id new) (usr_ID old) of
          None \<Rightarrow> True
        | Some n \<Rightarrow> \<not> usr_Enabled n \<or> \<not> user_runtime_equal old n)"

definition must_add :: "managed_user list \<Rightarrow> managed_user \<Rightarrow> bool" where
  "must_add old new \<longleftrightarrow>
     usr_Enabled new \<and>
       (case go_get (user_by_id old) (usr_ID new) of
          None \<Rightarrow> True
        | Some u \<Rightarrow> \<not> usr_Enabled u \<or> \<not> user_runtime_equal u new)"

definition plan_users :: "managed_inbound \<Rightarrow> managed_inbound \<Rightarrow> runtime_op list" where
  "plan_users old new =
     map (\<lambda>u. RemoveUser (inb_Tag old) (accounting_email (usr_ID u) (inb_ID old)))
       (filter (must_remove (inb_Users new)) (inb_Users old))
     @ map (AddUser new) (filter (must_add (inb_Users old)) (inb_Users new))"

definition plan_inbound :: "(string, managed_inbound) gomap \<Rightarrow> managed_inbound \<Rightarrow> runtime_op list" where
  "plan_inbound prev_by_id new =
     (case go_get prev_by_id (inb_ID new) of
        None \<Rightarrow> [AddInbound new]
      | Some old \<Rightarrow>
          if \<not> inbound_base_equal old new then [ReplaceInbound (inb_Tag old) new]
          else if users_runtime_equal (inb_Users old) (inb_Users new) then []
          else if \<not> supports_hot_users new then [ReplaceInbound (inb_Tag old) new]
          else plan_users old new)"

definition plan_runtime :: "unmarshal \<Rightarrow> desired_state \<Rightarrow> desired_state \<Rightarrow> runtime_plan" where
  "plan_runtime unm previous desired =
     (if \<not> runtime_global_equal unm previous desired
      then \<lparr>plan_Operations = [], plan_RequiresRestart = True,
            plan_Reason = ''outbounds/routing/dns changed''\<rparr>
      else case find (\<lambda>(i, u). usr_Enabled u \<and> go_get (active_levels previous) (usr_Level u) = None)
                 (all_users desired) of
          Some (i, u) \<Rightarrow> \<lparr>plan_Operations = [], plan_RequiresRestart = True,
            plan_Reason = ''new user policy level '' @ show_int (usr_Level u) @ '' requires config reload''\<rparr>
        | None \<Rightarrow> \<lparr>plan_Operations =
              plan_removals (ds_Inbounds previous) (ds_Inbounds desired)
              @ concat (map (plan_inbound (inbound_by_id (ds_Inbounds previous))) (ds_Inbounds desired)),
            plan_RequiresRestart = False, plan_Reason = []\<rparr>)"

section \<open>Execution\<close>

text \<open>
  The API commands, with the JSON document of the temporary file where there is one. \<open>run\<close>
  gives the error of the command (of writing its temporary file, or of the command itself), if
  any, and the world after it; \<open>cancelled\<close> says whether the context is cancelled in a world.
\<close>

datatype api_call = Adi any | Rmi string | Adu any | Rmu string string

type_synonym 'x api = "api_call \<Rightarrow> 'x \<Rightarrow> string option \<times> 'x"

definition run_document :: "'x api \<Rightarrow> (any \<Rightarrow> api_call) \<Rightarrow> any result \<Rightarrow> 'x \<Rightarrow> failure option \<times> 'x" where
  "run_document run call doc x =
     (case doc of
        Inl e \<Rightarrow> (Some e, x)
      | Inr d \<Rightarrow> (case run (call d) x of (err, x') \<Rightarrow> (map_option Error err, x')))"

definition add_inbound_runtime :: "'x api \<Rightarrow> managed_inbound \<Rightarrow> 'x \<Rightarrow> failure option \<times> 'x" where
  "add_inbound_runtime run i x = run_document run Adi (build_inbound_document i) x"

definition remove_inbound_runtime :: "'x api \<Rightarrow> string \<Rightarrow> 'x \<Rightarrow> failure option \<times> 'x" where
  "remove_inbound_runtime run tag x =
     (case run (Rmi tag) x of (err, x') \<Rightarrow> (map_option Error err, x'))"

definition add_user_runtime ::
  "'x api \<Rightarrow> managed_inbound \<Rightarrow> managed_user \<Rightarrow> 'x \<Rightarrow> failure option \<times> 'x" where
  "add_user_runtime run i u x = run_document run Adu (build_user_document i u) x"

definition remove_user_runtime :: "'x api \<Rightarrow> string \<Rightarrow> string \<Rightarrow> 'x \<Rightarrow> failure option \<times> 'x" where
  "remove_user_runtime run tag email x =
     (case run (Rmu tag email) x of (err, x') \<Rightarrow> (map_option Error err, x'))"

fun op_kind :: "runtime_op \<Rightarrow> string" where
  "op_kind (AddInbound i) = ''add_inbound''"
| "op_kind (RemoveInbound t) = ''remove_inbound''"
| "op_kind (ReplaceInbound t i) = ''replace_inbound''"
| "op_kind (AddUser i u) = ''add_user''"
| "op_kind (RemoveUser t e) = ''remove_user''"

text \<open>
  One operation. A replacement removes the old inbound, waits, gives up if the context was
  cancelled (that error is returned as it is), and adds the new one.
\<close>

definition wrap_op :: "runtime_op \<Rightarrow> failure option \<times> 'x \<Rightarrow> failure option \<times> 'x" where
  "wrap_op op r = (map_option (wrap_error (op_kind op)) (fst r), snd r)"

fun exec_op :: "'x api \<Rightarrow> ('x \<Rightarrow> bool) \<Rightarrow> runtime_op \<Rightarrow> 'x \<Rightarrow> failure option \<times> 'x" where
  "exec_op run cancelled (AddInbound i) x = wrap_op (AddInbound i) (add_inbound_runtime run i x)"
| "exec_op run cancelled (RemoveInbound t) x =
     wrap_op (RemoveInbound t) (remove_inbound_runtime run t x)"
| "exec_op run cancelled (ReplaceInbound t i) x =
     (case remove_inbound_runtime run t x of
        (Some e, x') \<Rightarrow> wrap_op (ReplaceInbound t i) (Some e, x')
      | (None, x') \<Rightarrow> if cancelled x' then (Some (Error ''context canceled''), x')
                      else wrap_op (ReplaceInbound t i) (add_inbound_runtime run i x'))"
| "exec_op run cancelled (AddUser i u) x = wrap_op (AddUser i u) (add_user_runtime run i u x)"
| "exec_op run cancelled (RemoveUser t e) x =
     wrap_op (RemoveUser t e) (remove_user_runtime run t e x)"

fun exec_ops :: "'x api \<Rightarrow> ('x \<Rightarrow> bool) \<Rightarrow> runtime_op list \<Rightarrow> 'x \<Rightarrow> failure option \<times> 'x" where
  "exec_ops run cancelled [] x = (None, x)"
| "exec_ops run cancelled (op # ops) x =
     (case exec_op run cancelled op x of
        (Some e, x') \<Rightarrow> (Some e, x')
      | (None, x') \<Rightarrow> exec_ops run cancelled ops x')"

definition apply_runtime :: "'x api \<Rightarrow> ('x \<Rightarrow> bool) \<Rightarrow> runtime_plan \<Rightarrow> 'x \<Rightarrow> failure option \<times> 'x" where
  "apply_runtime run cancelled plan x =
     (if plan_RequiresRestart plan
      then (Some (Error (''runtime plan requires restart: '' @ plan_Reason plan)), x)
      else exec_ops run cancelled (plan_Operations plan) x)"

section \<open>What Xray serves\<close>

text \<open>
  The abstract specification. Under each tag Xray serves an inbound: its JSON object without
  the user list, and its users by email. The user list is \<^verbatim>\<open>clients\<close> or \<^verbatim>\<open>peers\<close> by protocol,
  its order means nothing.
\<close>

type_synonym served = "obj \<times> (string \<rightharpoonup> any)"
type_synonym serving = "string \<rightharpoonup> served"

definition users_key :: "obj \<Rightarrow> string option" where
  "users_key m =
     (case go_get m ''protocol'' of
        Some (AStr p) \<Rightarrow>
          if to_lower p \<in> set client_protocols then Some ''clients''
          else if to_lower p = ''wireguard'' then Some ''peers'' else None
      | _ \<Rightarrow> None)"

definition settings_of :: "obj \<Rightarrow> obj" where
  "settings_of m = (case go_get m ''settings'' of Some (AMap st) \<Rightarrow> st | _ \<Rightarrow> [])"

definition email_of :: "any \<Rightarrow> string" where
  "email_of c = (case json_field ''email'' c of Some (AStr e) \<Rightarrow> e | _ \<Rightarrow> [])"

definition listed_users :: "obj \<Rightarrow> any list" where
  "listed_users m =
     (case users_key m of
        None \<Rightarrow> []
      | Some k \<Rightarrow> (case go_get (settings_of m) k of Some (AArr cs) \<Rightarrow> cs | _ \<Rightarrow> []))"

definition served_of :: "obj \<Rightarrow> served" where
  "served_of m =
     ((case users_key m of
         None \<Rightarrow> m
       | Some k \<Rightarrow> go_put ''settings'' (AMap (go_delete k (settings_of m))) m),
      map_of (map (\<lambda>c. (email_of c, c)) (rev (listed_users m))))"

definition tag_of :: "obj \<Rightarrow> string" where
  "tag_of m = (case go_get m ''tag'' of Some (AStr t) \<Rightarrow> t | _ \<Rightarrow> [])"

text \<open>What a restart with the configuration of a state would serve.\<close>

definition served_inbound :: "managed_inbound \<Rightarrow> served option" where
  "served_inbound i = (case build_inbound i of Inl e \<Rightarrow> None | Inr m \<Rightarrow> Some (served_of m))"

definition serving_of :: "managed_inbound list \<Rightarrow> serving" where
  "serving_of is t =
     (case find (\<lambda>i. inb_Tag i = t) is of None \<Rightarrow> None | Some i \<Rightarrow> served_inbound i)"

text \<open>
  The documented effect of the API commands, when they succeed: \<^verbatim>\<open>adi\<close> adds the inbound of the
  document under a free tag, \<^verbatim>\<open>rmi\<close> removes the inbound of a tag, \<^verbatim>\<open>adu\<close> adds the user of a
  one-user inbound document to the inbound of that tag, under a free email, and \<^verbatim>\<open>rmu\<close> removes
  a user by email. A tag or an email that starts with a dash would be read as a flag.
\<close>

definition plain :: "string \<Rightarrow> bool" where
  "plain s \<longleftrightarrow> \<not> has_prefix ''-'' s"

definition inbound_doc :: "obj \<Rightarrow> any" where
  "inbound_doc m = AMap [(''inbounds'', AArr [AMap m])]"

definition handler_service :: "'x api \<Rightarrow> ('x \<Rightarrow> serving) \<Rightarrow> bool" where
  "handler_service run view \<longleftrightarrow>
     (\<forall>m x x'. run (Adi (inbound_doc m)) x = (None, x') \<longrightarrow>
        view x (tag_of m) = None \<and> view x' = (view x)(tag_of m \<mapsto> served_of m))
   \<and> (\<forall>t x x'. run (Rmi t) x = (None, x') \<longrightarrow> plain t \<longrightarrow>
        view x t \<noteq> None \<and> view x' = (view x)(t := None))
   \<and> (\<forall>m c x x'. run (Adu (inbound_doc m)) x = (None, x') \<longrightarrow> listed_users m = [c] \<longrightarrow>
        (\<exists>b us. view x (tag_of m) = Some (b, us) \<and> us (email_of c) = None
           \<and> view x' = (view x)(tag_of m \<mapsto> (b, us(email_of c \<mapsto> c)))))
   \<and> (\<forall>t e x x'. run (Rmu t e) x = (None, x') \<longrightarrow> plain e \<longrightarrow>
        (\<exists>b us. view x t = Some (b, us) \<and> us e \<noteq> None
           \<and> view x' = (view x)(t \<mapsto> (b, us(e := None)))))"

text \<open>The effect of the operations on what is served; \<open>None\<close> where one must fail.\<close>

definition view_add :: "managed_inbound \<Rightarrow> serving \<Rightarrow> serving option" where
  "view_add i v =
     (case served_inbound i of
        None \<Rightarrow> None
      | Some s \<Rightarrow> if v (inb_Tag i) = None then Some (v(inb_Tag i \<mapsto> s)) else None)"

fun view_op :: "runtime_op \<Rightarrow> serving \<Rightarrow> serving option" where
  "view_op (AddInbound i) v = view_add i v"
| "view_op (RemoveInbound t) v = (if v t = None then None else Some (v(t := None)))"
| "view_op (ReplaceInbound t i) v = (if v t = None then None else view_add i (v(t := None)))"
| "view_op (AddUser i u) v =
     (case v (inb_Tag i) of
        None \<Rightarrow> None
      | Some (b, us) \<Rightarrow>
          let e = accounting_email (usr_ID u) (inb_ID i) in
          if us e = None then Some (v(inb_Tag i \<mapsto> (b, us(e \<mapsto> client_of i u)))) else None)"
| "view_op (RemoveUser t e) v =
     (case v t of
        None \<Rightarrow> None
      | Some (b, us) \<Rightarrow> if us e = None then None else Some (v(t \<mapsto> (b, us(e := None)))))"

fun view_ops :: "runtime_op list \<Rightarrow> serving \<Rightarrow> serving option" where
  "view_ops [] v = Some v"
| "view_ops (op # ops) v = Option.bind (view_op op v) (view_ops ops)"

lemma view_ops_append: "view_ops (ops @ ops') v = Option.bind (view_ops ops v) (view_ops ops')"
  by (induction ops arbitrary: v) (auto split: bind_splits)

section \<open>The served inbound of a built object\<close>

lemma build_inbound_fields:
  assumes "build_inbound i = Inr m"
  shows "go_get m ''tag'' = Some (AStr (inb_Tag i))"
    and "go_get m ''protocol'' = Some (AStr (inb_Protocol i))"
    and "go_get m ''settings'' = Some (AMap (build_settings i))"
  using assms by (auto simp: build_inbound_def Let_def map_simps split: if_splits)

lemma tag_of_built: "build_inbound i = Inr m \<Longrightarrow> tag_of m = inb_Tag i"
  by (simp add: tag_of_def build_inbound_fields)

lemma settings_of_built: "build_inbound i = Inr m \<Longrightarrow> settings_of m = build_settings i"
  by (simp add: settings_of_def build_inbound_fields)

definition users_key_of :: "managed_inbound \<Rightarrow> string option" where
  "users_key_of i =
     (if to_lower (inb_Protocol i) \<in> set client_protocols then Some ''clients''
      else if to_lower (inb_Protocol i) = ''wireguard'' then Some ''peers'' else None)"

lemma users_key_built: "build_inbound i = Inr m \<Longrightarrow> users_key m = users_key_of i"
  by (simp add: users_key_def users_key_of_def build_inbound_fields)

lemma go_ok_put_some: "go_ok m \<Longrightarrow> go_ok (put_some k v m)"
  by (auto simp: put_some_def go_ok_put split: option.splits)

lemma build_inbound_go_ok: "build_inbound i = Inr m \<Longrightarrow> go_ok m"
  unfolding build_inbound_def Let_def
  by (auto split: if_splits simp del: go_put.simps intro!: go_ok_put_some go_ok_put)

lemma base_equal_fields:
  "inbound_base_equal a b \<Longrightarrow> inb_ID a = inb_ID b \<and> inb_Tag a = inb_Tag b
     \<and> inb_Listen a = inb_Listen b \<and> inb_Port a = inb_Port b \<and> inb_Protocol a = inb_Protocol b
     \<and> inb_Settings a = inb_Settings b \<and> inb_StreamSettings a = inb_StreamSettings b
     \<and> inb_Sniffing a = inb_Sniffing b"
  by (cases a; cases b) (simp add: inbound_base_equal_def)

lemma base_equal_users_key: "inbound_base_equal a b \<Longrightarrow> users_key_of a = users_key_of b"
  using base_equal_fields [of a b] by (simp add: users_key_of_def)

lemma settings_without_users:
  "users_key_of i = Some k \<Longrightarrow> go_delete k (build_settings i) = go_delete k (clone_map (inb_Settings i))"
  by (auto simp: users_key_of_def build_settings_def Let_def client_protocols_def split: if_splits)

lemma settings_no_users: "users_key_of i = None \<Longrightarrow> build_settings i = clone_map (inb_Settings i)"
  by (auto simp: users_key_of_def build_settings_def Let_def split: if_splits)

text \<open>Inbounds that differ in their users and metadata only are built alike but for the settings.\<close>

lemma base_equal_get:
  assumes "inbound_base_equal a b" and "build_inbound a = Inr ma" and "build_inbound b = Inr mb"
    and "k \<noteq> ''settings''"
  shows "go_get ma k = go_get mb k"
  using base_equal_fields [OF assms(1)] assms(2-)
  by (auto simp: build_inbound_def Let_def map_simps split: if_splits)

lemma base_equal_served:
  assumes "inbound_base_equal a b" and "build_inbound a = Inr ma" and "build_inbound b = Inr mb"
  shows "fst (served_of ma) = fst (served_of mb)"
proof -
  have ok: "go_ok ma" "go_ok mb" using assms(2,3) by (auto dest: build_inbound_go_ok)
  have set_eq: "inb_Settings a = inb_Settings b" using base_equal_fields [OF assms(1)] by simp
  show ?thesis
  proof (cases "users_key_of a")
    case None
    then have "ma = mb"
      using ok assms base_equal_users_key [OF assms(1)] set_eq
      by (intro go_map_ext)
        (metis base_equal_get build_inbound_fields(3) settings_no_users)+
    then show ?thesis by simp
  next
    case (Some k)
    have "go_put ''settings'' x ma = go_put ''settings'' x mb" for x
      using ok assms by (intro go_map_ext) (auto simp: go_ok_put map_simps base_equal_get)
    then show ?thesis
      using Some assms base_equal_users_key [OF assms(1)] set_eq
      by (simp add: served_of_def users_key_built settings_of_built settings_without_users)
  qed
qed

section \<open>The users an inbound serves\<close>

definition user_email :: "managed_inbound \<Rightarrow> managed_user \<Rightarrow> string" where
  "user_email i u = accounting_email (usr_ID u) (inb_ID i)"

definition user_map :: "managed_inbound \<Rightarrow> string \<rightharpoonup> any" where
  "user_map i = map_of (map (\<lambda>u. (user_email i u, client_of i u)) (rev (filter usr_Enabled (inb_Users i))))"

definition wf_inbound :: "managed_inbound \<Rightarrow> bool" where
  "wf_inbound i \<longleftrightarrow> distinct (map (sanitize \<circ> usr_ID) (inb_Users i))"

lemma email_eq: "user_email i u = user_email i v \<longleftrightarrow> sanitize (usr_ID u) = sanitize (usr_ID v)"
  by (simp add: user_email_def accounting_email_injective_aux)

lemma wf_inbound_distinct:
  assumes "wf_inbound i"
  shows "distinct (map (user_email i) (inb_Users i))" and "distinct (map usr_ID (inb_Users i))"
proof -
  have inj: "inj_on (sanitize \<circ> usr_ID) (set (inb_Users i))" and d: "distinct (inb_Users i)"
    using assms by (simp_all add: wf_inbound_def distinct_map)
  from inj have "inj_on (user_email i) (set (inb_Users i))"
    by (auto simp: inj_on_def email_eq)
  with d show "distinct (map (user_email i) (inb_Users i))" by (simp add: distinct_map)
  from inj have "inj_on usr_ID (set (inb_Users i))" by (auto simp: inj_on_def)
  with d show "distinct (map usr_ID (inb_Users i))" by (simp add: distinct_map)
qed

lemma wf_inbound_same:
  "wf_inbound i \<Longrightarrow> u \<in> set (inb_Users i) \<Longrightarrow> v \<in> set (inb_Users i)
     \<Longrightarrow> user_email i u = user_email i v \<Longrightarrow> u = v"
  using wf_inbound_distinct(1) by (auto simp: distinct_map inj_on_def)

lemma user_map_iff:
  assumes "wf_inbound i"
  shows "user_map i e = Some c \<longleftrightarrow>
     (\<exists>u \<in> set (inb_Users i). usr_Enabled u \<and> user_email i u = e \<and> client_of i u = c)"
proof -
  have "distinct (map (user_email i) (filter usr_Enabled (inb_Users i)))"
    using wf_inbound_distinct(1) [OF assms] by (rule distinct_map_filter)
  then have "distinct (map fst (map (\<lambda>u. (user_email i u, client_of i u))
      (rev (filter usr_Enabled (inb_Users i)))))"
    by (simp add: o_def rev_map [symmetric])
  then show ?thesis
    unfolding user_map_def by (auto simp: map_of_eq_Some_iff simp del: map_map)
qed

lemma user_map_None:
  "wf_inbound i \<Longrightarrow> user_map i e = None \<longleftrightarrow>
     (\<forall>u \<in> set (inb_Users i). usr_Enabled u \<longrightarrow> user_email i u \<noteq> e)"
  by (metis not_None_eq user_map_iff)

lemma served_hot:
  assumes "build_inbound i = Inr m" and "supports_hot_users i"
  shows "served_of m = (fst (served_of m), user_map i)"
proof -
  have "users_key_of i = Some ''clients''"
    using assms(2) by (simp add: users_key_of_def supports_hot_users_def)
  then have "listed_users m = map (client_of i) (filter usr_Enabled (inb_Users i))"
    using assms
    by (simp add: listed_users_def users_key_built settings_of_built build_settings_clients
        supports_hot_users_def)
  then show ?thesis
    by (simp add: served_of_def user_map_def email_of_def client_of_fields user_email_def
        rev_map o_def)
qed

text \<open>The user lists of a built inbound, by protocol.\<close>

lemma peers_built:
  "users_key_of i = Some ''peers'' \<Longrightarrow> go_get (build_settings i) ''peers'' =
     (if filter usr_Enabled (inb_Users i) = [] then go_get (clone_map (inb_Settings i)) ''peers''
      else Some (AArr (map (client_of i) (filter usr_Enabled (inb_Users i)))))"
  by (auto simp: users_key_of_def build_settings_def Let_def map_simps split: if_splits)

lemma client_of_equal:
  "inb_ID a = inb_ID b \<Longrightarrow> usr_ID u = usr_ID v \<Longrightarrow> user_runtime_equal u v \<Longrightarrow> client_of a u = client_of b v"
  by (simp add: client_of_def user_runtime_equal_def)

lemma user_email_cong: "inb_ID a = inb_ID b \<Longrightarrow> user_email a = user_email b"
  by (simp add: user_email_def fun_eq_iff)

lemma user_by_id_get:
  assumes "wf_inbound i"
  shows "go_get (user_by_id (inb_Users i)) k = Some u \<longleftrightarrow> u \<in> set (inb_Users i) \<and> usr_ID u = k"
  using go_index_distinct [OF wf_inbound_distinct(2) [OF assms], of _ "\<lambda>u. u"]
  by (auto simp: user_by_id_def dest: go_index_Some)

text \<open>What the code's comparison of two user lists establishes.\<close>

lemma users_equal_match:
  assumes "wf_inbound a" and "wf_inbound b" and eq: "users_runtime_equal (inb_Users a) (inb_Users b)"
    and u: "u \<in> set (inb_Users a)"
  shows "\<exists>v \<in> set (inb_Users b). usr_ID v = usr_ID u \<and> user_runtime_equal u v \<and> usr_Enabled u = usr_Enabled v"
proof -
  have "go_get (user_by_id (inb_Users a)) (usr_ID u) = Some u"
    using assms(1) u by (simp add: user_by_id_get)
  then have "(usr_ID u, u) \<in> set (user_by_id (inb_Users a))" by (rule map_of_SomeD)
  with eq have "case go_get (user_by_id (inb_Users b)) (usr_ID u) of None \<Rightarrow> False
      | Some v \<Rightarrow> user_runtime_equal u v \<and> usr_Enabled u = usr_Enabled v"
    by (auto simp: users_runtime_equal_def Let_def list_all_iff split: if_splits)
  then show ?thesis
    using assms(2) by (auto simp: user_by_id_get split: option.splits)
qed

lemma users_equal_sym:
  assumes "wf_inbound a" and "wf_inbound b" and eq: "users_runtime_equal (inb_Users a) (inb_Users b)"
    and v: "v \<in> set (inb_Users b)"
  shows "\<exists>u \<in> set (inb_Users a). usr_ID v = usr_ID u \<and> user_runtime_equal u v \<and> usr_Enabled u = usr_Enabled v"
proof -
  let ?A = "usr_ID ` set (inb_Users a)" and ?B = "usr_ID ` set (inb_Users b)"
  have len: "length (inb_Users a) = length (inb_Users b)"
    using eq by (simp add: users_runtime_equal_def split: if_splits)
  have "card ?A = length (inb_Users a)" "card ?B = length (inb_Users b)"
    using wf_inbound_distinct(2) assms(1,2) by (metis distinct_card length_map list.set_map)+
  moreover have "?A \<subseteq> ?B" using users_equal_match [OF assms(1-3)] by (metis image_eqI image_subsetI)
  ultimately have "?A = ?B" using len by (intro card_subset_eq) auto
  with v obtain u where u: "u \<in> set (inb_Users a)" "usr_ID u = usr_ID v" by force
  from users_equal_match [OF assms(1-3) u(1)] obtain w where
    w: "w \<in> set (inb_Users b)" "usr_ID w = usr_ID u" "user_runtime_equal u w" "usr_Enabled u = usr_Enabled w"
    by blast
  have "w = v"
    using wf_inbound_distinct(2) [OF assms(2)] w v u(2) by (auto simp: distinct_map inj_on_def)
  with w u show ?thesis by (metis (no_types))
qed

lemma users_equal_map:
  assumes "wf_inbound a" and "wf_inbound b" and "inb_ID a = inb_ID b"
    and eq: "users_runtime_equal (inb_Users a) (inb_Users b)"
  shows "user_map a = user_map b"
    and "filter usr_Enabled (inb_Users a) = [] \<longleftrightarrow> filter usr_Enabled (inb_Users b) = []"
proof -
  have em: "user_email a u = user_email b v" if "usr_ID u = usr_ID v" for u v
    using assms(3) that by (simp add: user_email_def)
  have fwd: "user_map b e = Some c" if c: "user_map a e = Some c" for e c
  proof -
    from c obtain u where u: "u \<in> set (inb_Users a)" "usr_Enabled u" "user_email a u = e" "client_of a u = c"
      unfolding user_map_iff [OF assms(1)] by blast
    from users_equal_match [OF assms(1,2) eq u(1)] u show ?thesis
      unfolding user_map_iff [OF assms(2)] using em client_of_equal assms(3) by metis
  qed
  have bwd: "user_map a e = Some c" if c: "user_map b e = Some c" for e c
  proof -
    from c obtain u where u: "u \<in> set (inb_Users b)" "usr_Enabled u" "user_email b u = e" "client_of b u = c"
      unfolding user_map_iff [OF assms(2)] by blast
    from users_equal_sym [OF assms(1,2) eq u(1)] u show ?thesis
      unfolding user_map_iff [OF assms(1)] using em client_of_equal assms(3) by metis
  qed
  from fwd bwd have "user_map a e = Some c \<longleftrightarrow> user_map b e = Some c" for e c by blast
  then show "user_map a = user_map b"
    by (metis (no_types, opaque_lifting) ext not_None_eq)
  show "filter usr_Enabled (inb_Users a) = [] \<longleftrightarrow> filter usr_Enabled (inb_Users b) = []"
    unfolding filter_empty_conv
    by (metis assms(1,2) eq users_equal_match users_equal_sym)
qed

lemma users_equal_served:
  assumes base: "inbound_base_equal a b" and m: "build_inbound a = Inr ma" "build_inbound b = Inr mb"
    and "wf_inbound a" and "wf_inbound b" and "users_runtime_equal (inb_Users a) (inb_Users b)"
  shows "served_of ma = served_of mb"
proof -
  note f = base_equal_fields [OF base]
  note users = users_equal_map [OF assms(4,5) _ assms(6)] 
  have um: "map_of (map (\<lambda>c. (email_of c, c)) (rev (map (client_of i) (filter usr_Enabled (inb_Users i)))))
      = user_map i" for i
    by (simp add: user_map_def email_of_def client_of_fields user_email_def rev_map o_def)
  have "snd (served_of ma) = snd (served_of mb)"
  proof (cases "users_key_of a")
    case None
    then show ?thesis
      using base_equal_users_key [OF base] m by (simp add: served_of_def listed_users_def users_key_built)
  next
    case (Some k)
    then consider "supports_hot_users a" "k = ''clients''" | "k = ''peers''"
      by (auto simp: users_key_of_def supports_hot_users_def split: if_splits)
    then show ?thesis
    proof cases
      case 1
      then have "supports_hot_users b" using f by (simp add: supports_hot_users_def)
      then show ?thesis
        using served_hot [OF m(1) 1(1)] served_hot [OF m(2)] users f by (metis snd_conv)
    next
      case 2
      then have "users_key_of a = Some ''peers''" "users_key_of b = Some ''peers''"
        using Some base_equal_users_key [OF base] by simp_all
      then show ?thesis
        using m users f
        by (auto simp: served_of_def listed_users_def users_key_built settings_of_built
            peers_built um simp del: rev_map [symmetric])
    qed
  qed
  with base_equal_served [OF base m] show ?thesis by (simp add: prod_eq_iff)
qed

end
