(* ===== verification/Reload.thy ===== *)
theory Reload
  imports Runtime
begin

text \<open>
  The hot reload plan is right: the effect of every operation of a plan on what Xray serves,
  first inbound by inbound, then for the whole plan, and the refinement from the execution of the
  API commands (\<^verbatim>\<open>PlanRuntime\<close>, \<^verbatim>\<open>ApplyRuntime\<close> of \<^verbatim>\<open>internal/xray/runtime.go\<close>) to these effects.
\<close>

section \<open>Operations on users\<close>

lemma view_remove_users:
  assumes "v t = Some (b, us)" and "distinct (map e xs)" and "\<And>x. x \<in> set xs \<Longrightarrow> us (e x) \<noteq> None"
  shows "view_ops (map (\<lambda>x. RemoveUser t (e x)) xs) v = Some (v(t \<mapsto> (b, us |` (- e ` set xs))))"
  using assms
proof (induction xs arbitrary: v us)
  case Nil
  then show ?case by (simp add: fun_upd_idem)
next
  case (Cons x xs)
  let ?us = "us(e x := None)"
  have step: "view_op (RemoveUser t (e x)) v = Some (v(t \<mapsto> (b, ?us)))"
    using Cons.prems(1) Cons.prems(3) [of x] by simp
  have rest: "view_ops (map (\<lambda>x. RemoveUser t (e x)) xs) (v(t \<mapsto> (b, ?us)))
      = Some ((v(t \<mapsto> (b, ?us)))(t \<mapsto> (b, ?us |` (- e ` set xs))))"
  proof (rule Cons.IH)
    show "(v(t \<mapsto> (b, ?us))) t = Some (b, ?us)" by (rule fun_upd_same)
    show "?us (e y) \<noteq> None" if "y \<in> set xs" for y
      using Cons.prems(2) Cons.prems(3) [of y] that by (auto simp: rev_image_eqI)
  qed (use Cons.prems(2) in simp_all)
  have eq: "?us |` (- e ` set xs) = us |` (- e ` set (x # xs))"
    by (rule ext) (simp add: restrict_map_def)
  show ?case
    by (simp only: list.map view_ops.simps step rest Option.bind.bind_lunit fun_upd_upd eq)
qed

lemma view_add_users:
  assumes "v (inb_Tag i) = Some (b, us)" and "distinct (map (user_email i) xs)"
    and "\<And>x. x \<in> set xs \<Longrightarrow> us (user_email i x) = None"
  shows "view_ops (map (AddUser i) xs) v
    = Some (v(inb_Tag i \<mapsto> (b, us ++ map_of (map (\<lambda>u. (user_email i u, client_of i u)) xs))))"
  using assms
proof (induction xs arbitrary: v us)
  case Nil
  then show ?case by (simp add: fun_upd_idem)
next
  case (Cons x xs)
  let ?us = "us(user_email i x \<mapsto> client_of i x)"
  let ?added = "\<lambda>xs. map_of (map (\<lambda>u. (user_email i u, client_of i u)) xs)"
  have step: "view_op (AddUser i x) v = Some (v(inb_Tag i \<mapsto> (b, ?us)))"
    using Cons.prems(1) Cons.prems(3) [of x] by (simp add: user_email_def)
  have rest: "view_ops (map (AddUser i) xs) (v(inb_Tag i \<mapsto> (b, ?us)))
      = Some ((v(inb_Tag i \<mapsto> (b, ?us)))(inb_Tag i \<mapsto> (b, ?us ++ ?added xs)))"
  proof (rule Cons.IH)
    show "(v(inb_Tag i \<mapsto> (b, ?us))) (inb_Tag i) = Some (b, ?us)" by (rule fun_upd_same)
    show "?us (user_email i y) = None" if "y \<in> set xs" for y
      using Cons.prems(2) Cons.prems(3) [of y] that by (auto simp: rev_image_eqI)
  qed (use Cons.prems(2) in simp_all)
  have "user_email i x \<notin> dom (?added xs)"
    using Cons.prems(2) by (simp add: dom_map_of_conv_image_fst image_image)
  then have eq: "?us ++ ?added xs = us ++ ?added (x # xs)"
    by (simp add: map_add_upd_left)
  show ?case
    by (simp only: list.map(2) view_ops.simps step rest Option.bind.bind_lunit fun_upd_upd eq)
qed

text \<open>The two lists of the plan for an inbound that stays.\<close>

definition removed_users :: "managed_inbound \<Rightarrow> managed_inbound \<Rightarrow> managed_user list" where
  "removed_users old new = filter (must_remove (inb_Users new)) (inb_Users old)"

definition added_users :: "managed_inbound \<Rightarrow> managed_inbound \<Rightarrow> managed_user list" where
  "added_users old new = filter (must_add (inb_Users old)) (inb_Users new)"

lemma plan_users_lists:
  "plan_users old new = map (\<lambda>u. RemoveUser (inb_Tag old) (user_email old u)) (removed_users old new)
     @ map (AddUser new) (added_users old new)"
  by (simp add: plan_users_def removed_users_def added_users_def user_email_def)

lemma kept_user:
  assumes "wf_inbound new" and "u \<in> set (inb_Users old)" and "usr_Enabled u" and "u \<notin> set (removed_users old new)"
  obtains n where "n \<in> set (inb_Users new)" "usr_ID n = usr_ID u" "usr_Enabled n" "user_runtime_equal u n"
  using assms
  by (auto simp: removed_users_def must_remove_def user_by_id_get split: option.splits)

lemma unadded_user:
  assumes "wf_inbound old" and "n \<in> set (inb_Users new)" and "usr_Enabled n" and "n \<notin> set (added_users old new)"
  obtains u where "u \<in> set (inb_Users old)" "usr_ID u = usr_ID n" "usr_Enabled u" "user_runtime_equal u n"
  using assms
  by (auto simp: added_users_def must_add_def user_by_id_get split: option.splits)

lemma removed_unmatched:
  assumes "wf_inbound new" and "u \<in> set (removed_users old new)" and "n \<in> set (inb_Users new)"
    and "usr_ID n = usr_ID u" and "usr_Enabled n"
  shows "\<not> user_runtime_equal u n"
proof -
  have "go_get (user_by_id (inb_Users new)) (usr_ID u) = Some n"
    using assms by (simp add: user_by_id_get)
  then show ?thesis using assms(2,5) by (auto simp: removed_users_def must_remove_def)
qed

lemma added_unmatched:
  assumes "wf_inbound old" and "n \<in> set (added_users old new)" and "u \<in> set (inb_Users old)"
    and "usr_ID u = usr_ID n" and "usr_Enabled u"
  shows "\<not> user_runtime_equal u n"
proof -
  have "go_get (user_by_id (inb_Users old)) (usr_ID n) = Some u"
    using assms by (simp add: user_by_id_get)
  then show ?thesis using assms(2,5) by (auto simp: added_users_def must_add_def)
qed

lemma same_email_same_user:
  "inb_ID old = inb_ID new \<Longrightarrow> usr_ID u = usr_ID n \<Longrightarrow> user_email old u = user_email new n"
  by (simp add: user_email_def)

text \<open>After the removals no added user is still there, and the additions complete the list.\<close>

lemma added_email_free:
  assumes wf: "wf_inbound old" "wf_inbound new" and id: "inb_ID old = inb_ID new"
    and n: "n \<in> set (added_users old new)"
  shows "(user_map old |` (- user_email old ` set (removed_users old new))) (user_email new n) = None"
proof (rule ccontr)
  assume "\<not> ?thesis"
  then obtain c where "user_map old (user_email new n) = Some c"
    and nr: "user_email new n \<notin> user_email old ` set (removed_users old new)"
    by (auto simp: restrict_map_def split: if_splits)
  then obtain u where u: "u \<in> set (inb_Users old)" "usr_Enabled u" "user_email old u = user_email new n"
    by (auto simp: user_map_iff [OF wf(1)])
  with nr have "u \<notin> set (removed_users old new)" by force
  from kept_user [OF wf(2) u(1,2) this] obtain n' where
    n': "n' \<in> set (inb_Users new)" "usr_ID n' = usr_ID u" "usr_Enabled n'" "user_runtime_equal u n'" .
  have "user_email new n' = user_email new n"
    using same_email_same_user [OF id, of u n'] n'(2) u(3) by simp
  then have "n' = n"
    using wf_inbound_same [OF wf(2)] n'(1) n by (simp add: added_users_def)
  with added_unmatched [OF wf(1) n u(1)] n'(2,4) u(2) show False by simp
qed

lemma added_map_Some:
  assumes wf: "wf_inbound new"
  shows "map_of (map (\<lambda>u. (user_email new u, client_of new u)) (added_users old new)) e = Some c
    \<longleftrightarrow> (\<exists>u \<in> set (added_users old new). user_email new u = e \<and> client_of new u = c)"
proof -
  have "distinct (map (user_email new) (added_users old new))"
    unfolding added_users_def using wf_inbound_distinct(1) [OF wf] by (rule distinct_map_filter)
  then have "distinct (map fst (map (\<lambda>u. (user_email new u, client_of new u)) (added_users old new)))"
    by (simp add: o_def)
  then show ?thesis by (auto simp: map_of_eq_Some_iff simp del: map_map)
qed

lemma hot_users_map:
  assumes wf: "wf_inbound old" "wf_inbound new" and id: "inb_ID old = inb_ID new"
  shows "(user_map old |` (- user_email old ` set (removed_users old new)))
      ++ map_of (map (\<lambda>u. (user_email new u, client_of new u)) (added_users old new))
    = user_map new" (is "?kept ++ ?added = _")
proof
  fix e
  show "(?kept ++ ?added) e = user_map new e"
  proof (cases "?added e")
    case (Some c)
    then obtain n where "n \<in> set (added_users old new)" "user_email new n = e" "client_of new n = c"
      by (auto simp: added_map_Some [OF wf(2)])
    then have "user_map new e = Some c"
      by (auto simp: user_map_iff [OF wf(2)] added_users_def must_add_def)
    with Some show ?thesis by simp
  next
    case None
    have "?kept e = Some c \<Longrightarrow> user_map new e = Some c" for c
    proof -
      assume "?kept e = Some c"
      then have "user_map old e = Some c" and nr: "e \<notin> user_email old ` set (removed_users old new)"
        by (auto simp: restrict_map_def split: if_splits)
      then obtain u where u: "u \<in> set (inb_Users old)" "usr_Enabled u" "user_email old u = e" "client_of old u = c"
        by (auto simp: user_map_iff [OF wf(1)])
      with nr have "u \<notin> set (removed_users old new)" by force
      from kept_user [OF wf(2) u(1,2) this] obtain n where
        n: "n \<in> set (inb_Users new)" "usr_ID n = usr_ID u" "usr_Enabled n" "user_runtime_equal u n" .
      have "user_email new n = e" "client_of new n = c"
        using same_email_same_user [OF id n(2) [symmetric]] client_of_equal [OF id n(2) [symmetric] n(4)]
          u(3,4) by simp_all
      with n show ?thesis by (auto simp: user_map_iff [OF wf(2)])
    qed
    moreover have "user_map new e = Some c \<Longrightarrow> ?kept e = Some c" for c
    proof -
      assume "user_map new e = Some c"
      then obtain n where n: "n \<in> set (inb_Users new)" "usr_Enabled n" "user_email new n = e" "client_of new n = c"
        by (auto simp: user_map_iff [OF wf(2)])
      with None have "n \<notin> set (added_users old new)"
        using n(3) added_map_Some [OF wf(2), of old e "client_of new n"] by auto
      from unadded_user [OF wf(1) n(1,2) this] obtain u where
        u: "u \<in> set (inb_Users old)" "usr_ID u = usr_ID n" "usr_Enabled u" "user_runtime_equal u n" .
      have e: "user_email old u = e" "client_of old u = c"
        using same_email_same_user [OF id u(2)] client_of_equal [OF id u(2,4)] n(3,4) by simp_all
      have "w \<notin> set (removed_users old new)" if "user_email old w = e" for w
      proof
        assume w: "w \<in> set (removed_users old new)"
        then have "w \<in> set (inb_Users old)" by (simp add: removed_users_def)
        from wf_inbound_same [OF wf(1) this u(1)] that e have "w = u" by simp
        with removed_unmatched [OF wf(2) w n(1)] n(2) u(2,4) show False by simp
      qed
      then have "e \<notin> user_email old ` set (removed_users old new)" by auto
      moreover have "user_map old e = Some c"
        using u e by (auto simp: user_map_iff [OF wf(1)])
      ultimately show ?thesis by simp
    qed
    ultimately have "?kept e = user_map new e" by (metis not_None_eq)
    with None show ?thesis by (simp add: map_add_def)
  qed
qed

text \<open>So the plan for the users of an inbound turns the old list into the new one, whatever it holds.\<close>

lemma view_plan_users:
  assumes "wf_inbound old" and "wf_inbound new" and base: "inbound_base_equal old new"
    and v: "v (inb_Tag new) = Some (b, user_map old)"
  shows "view_ops (plan_users old new) v = Some (v(inb_Tag new \<mapsto> (b, user_map new)))"
proof -
  note id = conjunct1 [OF base_equal_fields [OF base]]
  have tag: "inb_Tag old = inb_Tag new" using base_equal_fields [OF base] by simp
  let ?kept = "user_map old |` (- user_email old ` set (removed_users old new))"
  have "view_ops (map (\<lambda>u. RemoveUser (inb_Tag new) (user_email old u)) (removed_users old new)) v
      = Some (v(inb_Tag new \<mapsto> (b, ?kept)))"
  proof (rule view_remove_users)
    show "v (inb_Tag new) = Some (b, user_map old)" by (rule v)
    show "distinct (map (user_email old) (removed_users old new))"
      unfolding removed_users_def using wf_inbound_distinct(1) [OF assms(1)] by (rule distinct_map_filter)
    show "user_map old (user_email old u) \<noteq> None" if "u \<in> set (removed_users old new)" for u
      using that user_map_None [OF assms(1)] by (auto simp: removed_users_def must_remove_def)
  qed
  moreover have "view_ops (map (AddUser new) (added_users old new)) (v(inb_Tag new \<mapsto> (b, ?kept)))
      = Some (v(inb_Tag new \<mapsto> (b, user_map new)))"
  proof (subst view_add_users [where b = b and us = ?kept])
    show "distinct (map (user_email new) (added_users old new))"
      unfolding added_users_def using wf_inbound_distinct(1) [OF assms(2)] by (rule distinct_map_filter)
  qed (simp_all add: added_email_free [OF assms(1,2) id] hot_users_map [OF assms(1,2) id])
  ultimately show ?thesis by (simp add: plan_users_lists view_ops_append tag)
qed

section \<open>Operations on inbounds\<close>

definition buildable :: "managed_inbound \<Rightarrow> bool" where
  "buildable i \<longleftrightarrow> inb_ID i \<noteq> [] \<and> inb_Protocol i \<noteq> [] \<and> inb_Tag i \<noteq> []"

definition wf_inbounds :: "managed_inbound list \<Rightarrow> bool" where
  "wf_inbounds is \<longleftrightarrow> distinct (map inb_ID is) \<and> distinct (map inb_Tag is)
     \<and> list_all (\<lambda>i. wf_inbound i \<and> buildable i \<and> plain (inb_Tag i)) is"

abbreviation tags :: "managed_inbound list \<Rightarrow> string set" where
  "tags is \<equiv> inb_Tag ` set is"

lemma buildable_built: "buildable i \<Longrightarrow> \<exists>m. build_inbound i = Inr m \<and> served_inbound i = Some (served_of m)"
  by (auto simp: buildable_def served_inbound_def build_inbound_def Let_def)

lemma wf_inbounds_in: "wf_inbounds is \<Longrightarrow> i \<in> set is \<Longrightarrow> wf_inbound i \<and> buildable i"
  by (auto simp: wf_inbounds_def list_all_iff)

lemma serving_of_Nil [simp]: "serving_of [] = Map.empty"
  by (simp add: serving_of_def fun_eq_iff)

lemma serving_of_Cons [simp]: "serving_of (i # is) = (serving_of is)(inb_Tag i := served_inbound i)"
  by (auto simp: serving_of_def fun_eq_iff)

lemma serving_of_free: "t \<notin> tags is \<Longrightarrow> serving_of is t = None"
  by (induction "is") auto

lemma serving_of_None:
  "list_all buildable is \<Longrightarrow> serving_of is t = None \<longleftrightarrow> t \<notin> tags is"
proof (induction "is")
  case (Cons i "is")
  then show ?case using buildable_built [of i] by (auto split: if_splits)
qed simp

lemma serving_of_insert:
  assumes "distinct (map inb_Tag (P @ n # R))"
  shows "serving_of (P @ n # R) = (serving_of (P @ R))(inb_Tag n := served_inbound n)"
  using assms by (induction P) (auto simp: fun_upd_twist)

lemma serving_of_Some:
  "distinct (map inb_Tag is) \<Longrightarrow> serving_of is t = Some s \<longleftrightarrow>
     (\<exists>i \<in> set is. inb_Tag i = t \<and> served_inbound i = Some s)"
  by (induction "is") (auto simp: image_iff)

lemma serving_of_set:
  assumes "distinct (map inb_Tag xs)" and "distinct (map inb_Tag ys)" and "set xs = set ys"
  shows "serving_of xs = serving_of ys"
proof
  fix t
  have "serving_of xs t = Some s \<longleftrightarrow> serving_of ys t = Some s" for s
    using assms by (simp add: serving_of_Some)
  then show "serving_of xs t = serving_of ys t" by (metis not_None_eq)
qed

lemma view_add_serving:
  assumes "list_all buildable (P @ R)" and "buildable n" and "distinct (map inb_Tag (P @ R))"
  shows "view_add n (serving_of (P @ R))
    = (if inb_Tag n \<in> tags (P @ R) then None else Some (serving_of (P @ n # R)))"
proof -
  from buildable_built [OF assms(2)] obtain m where "served_inbound n = Some (served_of m)" by blast
  moreover have "serving_of (P @ n # R) = (serving_of (P @ R))(inb_Tag n := served_inbound n)"
    if "inb_Tag n \<notin> tags (P @ R)"
    using that assms(3) by (intro serving_of_insert) auto
  ultimately show ?thesis
    using serving_of_None [OF assms(1), of "inb_Tag n"] by (auto simp: view_add_def)
qed

lemma serving_of_remove:
  assumes "distinct (map inb_Tag (P @ o' # R))"
  shows "(serving_of (P @ o' # R))(inb_Tag o' := None) = serving_of (P @ R)"
proof -
  have "serving_of (P @ R) (inb_Tag o') = None"
    using assms by (intro serving_of_free) auto
  then show ?thesis
    by (simp add: serving_of_insert [OF assms] fun_upd_idem)
qed

lemma serving_of_tag:
  "distinct (map inb_Tag (P @ i # R)) \<Longrightarrow> serving_of (P @ i # R) (inb_Tag i) = served_inbound i"
  by (simp add: serving_of_insert)

text \<open>
  One inbound of the desired state, in the middle of the plan: \<open>P\<close> are the inbounds already
  moved, \<open>R\<close> the old ones still to come, \<open>old\<close> the previous version of the inbound.
\<close>

lemma view_replace:
  assumes "distinct (map inb_Tag (P @ old # R))" and "list_all buildable (P @ old # R)" and "buildable n"
  shows "view_op (ReplaceInbound (inb_Tag old) n) (serving_of (P @ old # R))
    = (if inb_Tag n \<in> tags (P @ R) then None else Some (serving_of (P @ n # R)))"
  using buildable_built [of old] assms serving_of_remove [OF assms(1)]
    view_add_serving [of P R n] serving_of_tag [OF assms(1)]
  by auto

lemma serving_of_swap:
  assumes "distinct (map inb_Tag (P @ old # R))" and "inb_Tag n = inb_Tag old"
  shows "serving_of (P @ n # R) = (serving_of (P @ old # R))(inb_Tag n := served_inbound n)"
proof -
  have "distinct (map inb_Tag (P @ n # R))" using assms by simp
  from serving_of_insert [OF this] serving_of_insert [OF assms(1)] show ?thesis
    by (simp add: assms(2))
qed

lemma view_plan_kept:
  assumes d: "distinct (map inb_Tag (P @ old # R))" and b: "list_all buildable (P @ old # R)" "buildable n"
    and wf: "wf_inbound old" "wf_inbound n"
    and get: "go_get byid (inb_ID n) = Some old"
  shows "view_ops (plan_inbound byid n) (serving_of (P @ old # R))
    = (if inb_Tag n \<in> tags (P @ R) then None else Some (serving_of (P @ n # R)))"
proof (cases "inbound_base_equal old n")
  case False
  then show ?thesis using view_replace [OF d b] get by (simp add: plan_inbound_def)
next
  case base: True
  have tag: "inb_Tag n = inb_Tag old" using base_equal_fields [OF base] by simp
  then have free: "inb_Tag n \<notin> tags (P @ R)" using d by auto
  from b buildable_built obtain mo mn where
    mo: "build_inbound old = Inr mo" "served_inbound old = Some (served_of mo)" and
    mn: "build_inbound n = Inr mn" "served_inbound n = Some (served_of mn)"
    by (metis list_all_append list.pred_inject(2))
  show ?thesis
  proof (cases "users_runtime_equal (inb_Users old) (inb_Users n)")
    case True
    then have "served_inbound n = served_inbound old"
      using users_equal_served [OF base mo(1) mn(1) wf] mo mn by simp
    then have "serving_of (P @ n # R) = serving_of (P @ old # R)"
      using serving_of_swap [OF d tag] serving_of_tag [OF d] tag by (simp add: fun_upd_idem)
    with True base free get show ?thesis by (simp add: plan_inbound_def)
  next
    case changed: False
    show ?thesis
    proof (cases "supports_hot_users n")
      case False
      with changed base get show ?thesis
        using view_replace [OF d b] by (simp add: plan_inbound_def)
    next
      case hot: True
      then have hot': "supports_hot_users old"
        using base_equal_fields [OF base] by (simp add: supports_hot_users_def)
      have "served_of mo = (fst (served_of mo), user_map old)"
        and "served_of mn = (fst (served_of mo), user_map n)"
        using served_hot [OF mo(1) hot'] served_hot [OF mn(1) hot]
          base_equal_served [OF base mo(1) mn(1)] by simp_all
      then have "serving_of (P @ old # R) (inb_Tag n) = Some (fst (served_of mo), user_map old)"
        and "served_inbound n = Some (fst (served_of mo), user_map n)"
        using serving_of_tag [OF d] mo(2) mn(2) tag by metis+
      with view_plan_users [OF wf base] serving_of_swap [OF d tag]
      have "view_ops (plan_users old n) (serving_of (P @ old # R)) = Some (serving_of (P @ n # R))"
        by simp
      with changed base get hot free show ?thesis by (simp add: plan_inbound_def)
    qed
  qed
qed

lemma view_plan_new:
  assumes "distinct (map inb_Tag (P @ R))" and "list_all buildable (P @ R)" and "buildable n"
    and "go_get byid (inb_ID n) = None"
  shows "view_ops (plan_inbound byid n) (serving_of (P @ R))
    = (if inb_Tag n \<in> tags (P @ R) then None else Some (serving_of (P @ n # R)))"
  using view_add_serving [OF assms(2,3,1)] assms(4) by (simp add: plan_inbound_def)

section \<open>Whole plans\<close>

text \<open>The previous versions of a list of desired inbounds.\<close>

definition olds :: "(string, managed_inbound) gomap \<Rightarrow> managed_inbound list \<Rightarrow> managed_inbound list" where
  "olds byid ns = List.map_filter (\<lambda>n. go_get byid (inb_ID n)) ns"

lemma olds_simps [simp]:
  "olds byid [] = []"
  "olds byid (n # ns) = (case go_get byid (inb_ID n) of None \<Rightarrow> [] | Some o' \<Rightarrow> [o']) @ olds byid ns"
  by (simp_all add: olds_def List.map_filter_simps split: option.splits)

lemma set_olds: "set (olds byid ns) = {o'. \<exists>n \<in> set ns. go_get byid (inb_ID n) = Some o'}"
  by (induction ns) (auto split: option.splits)

text \<open>When the next inbound finds its tag free, one after the other.\<close>

fun free_tags :: "(string, managed_inbound) gomap \<Rightarrow> managed_inbound list \<Rightarrow> managed_inbound list \<Rightarrow> bool" where
  "free_tags byid P [] \<longleftrightarrow> True"
| "free_tags byid P (n # Q) \<longleftrightarrow> inb_Tag n \<notin> tags (P @ olds byid Q) \<and> free_tags byid (P @ [n]) Q"

lemma view_plan_step:
  assumes "distinct (map inb_Tag (P @ olds byid (n # Q)))"
    and "list_all (\<lambda>i. wf_inbound i \<and> buildable i) (P @ olds byid (n # Q))" and "wf_inbound n" and "buildable n"
  shows "view_ops (plan_inbound byid n) (serving_of (P @ olds byid (n # Q)))
    = (if inb_Tag n \<in> tags (P @ olds byid Q) then None else Some (serving_of (P @ n # olds byid Q)))"
proof -
  have all: "list_all buildable (P @ olds byid (n # Q))"
    using assms(2) by (simp add: list_all_iff)
  show ?thesis
  proof (cases "go_get byid (inb_ID n)")
    case None
    then show ?thesis
      using view_plan_new [of P "olds byid Q" n byid] assms(1,4) all by simp
  next
    case (Some old)
    then show ?thesis
      using view_plan_kept [of P old "olds byid Q" n byid] assms all by simp
  qed
qed

lemma view_plan_list:
  assumes "distinct (map inb_Tag (P @ olds byid Q))"
    and "list_all (\<lambda>i. wf_inbound i \<and> buildable i) (P @ olds byid Q)"
    and "list_all (\<lambda>i. wf_inbound i \<and> buildable i) Q"
  shows "view_ops (concat (map (plan_inbound byid) Q)) (serving_of (P @ olds byid Q))
    = (if free_tags byid P Q then Some (serving_of (P @ Q)) else None)"
  using assms
proof (induction Q arbitrary: P)
  case Nil
  then show ?case by simp
next
  case (Cons n Q)
  from Cons.prems(3) have n: "wf_inbound n" "buildable n" by simp_all
  note step = view_plan_step [OF Cons.prems(1,2) n]
  show ?case
  proof (cases "inb_Tag n \<in> tags (P @ olds byid Q)")
    case True
    with step show ?thesis by (simp add: view_ops_append)
  next
    case False
    have "distinct (map inb_Tag ((P @ [n]) @ olds byid Q))"
      using Cons.prems(1) False by auto
    moreover have "list_all (\<lambda>i. wf_inbound i \<and> buildable i) ((P @ [n]) @ olds byid Q)"
      using Cons.prems(2) n by simp
    ultimately have "view_ops (concat (map (plan_inbound byid) Q)) (serving_of ((P @ [n]) @ olds byid Q))
        = (if free_tags byid (P @ [n]) Q then Some (serving_of ((P @ [n]) @ Q)) else None)"
      using Cons.prems(3) by (intro Cons.IH) simp_all
    with step False show ?thesis by (simp add: view_ops_append)
  qed
qed

lemma view_removals:
  assumes "distinct (map inb_Tag (P @ xs))" and "list_all buildable (P @ xs)"
  shows "view_ops (map (\<lambda>o'. RemoveInbound (inb_Tag o')) (filter p xs)) (serving_of (P @ xs))
    = Some (serving_of (P @ filter (\<lambda>o'. \<not> p o') xs))"
  using assms
proof (induction xs arbitrary: P)
  case Nil
  then show ?case by simp
next
  case (Cons x xs)
  show ?case
  proof (cases "p x")
    case True
    have "serving_of (P @ x # xs) (inb_Tag x) \<noteq> None"
      using serving_of_None [OF Cons.prems(2)] by simp
    moreover have "view_ops (map (\<lambda>o'. RemoveInbound (inb_Tag o')) (filter p xs)) (serving_of (P @ xs))
        = Some (serving_of (P @ filter (\<lambda>o'. \<not> p o') xs))"
      using Cons.prems by (intro Cons.IH) auto
    ultimately show ?thesis
      using True by (simp add: serving_of_remove [OF Cons.prems(1)])
  next
    case False
    then show ?thesis using Cons.IH [of "P @ [x]"] Cons.prems by simp
  qed
qed

lemma inbound_by_id_get:
  assumes "distinct (map inb_ID is)"
  shows "go_get (inbound_by_id is) k = Some i \<longleftrightarrow> i \<in> set is \<and> inb_ID i = k"
  using go_index_distinct [OF assms, of _ "\<lambda>i. i"]
  by (auto simp: inbound_by_id_def dest: go_index_Some)

lemma inbound_by_id_None: "go_get (inbound_by_id is) k = None \<longleftrightarrow> k \<notin> inb_ID ` set is"
  by (simp add: inbound_by_id_def map_simps)

lemma olds_distinct:
  assumes "wf_inbounds prev" and "distinct (map inb_ID ns)"
  shows "distinct (olds (inbound_by_id prev) ns)"
  using assms(2)
proof (induction ns)
  case (Cons n ns)
  have "distinct (map inb_ID prev)" using assms(1) by (simp add: wf_inbounds_def)
  note get = inbound_by_id_get [OF this]
  have "o' \<notin> set (olds (inbound_by_id prev) ns)" if "inb_ID o' = inb_ID n" for o'
    using that Cons.prems by (auto simp: set_olds get image_iff)
  then show ?case
    using Cons get [of "inb_ID n"] by (cases "go_get (inbound_by_id prev) (inb_ID n)") auto
qed simp

definition kept_inbounds :: "managed_inbound list \<Rightarrow> managed_inbound list \<Rightarrow> managed_inbound list" where
  "kept_inbounds prev desired = filter (\<lambda>o'. go_get (inbound_by_id desired) (inb_ID o') \<noteq> None) prev"

lemma olds_kept:
  assumes "wf_inbounds prev" and "wf_inbounds desired"
  shows "set (olds (inbound_by_id prev) desired) = set (kept_inbounds prev desired)"
    and "distinct (map inb_Tag (olds (inbound_by_id prev) desired))"
    and "set (olds (inbound_by_id prev) desired) \<subseteq> set prev"
proof -
  have p: "distinct (map inb_ID prev)" and d: "distinct (map inb_ID desired)" and
    t: "distinct (map inb_Tag prev)"
    using assms by (simp_all add: wf_inbounds_def)
  show set: "set (olds (inbound_by_id prev) desired) = set (kept_inbounds prev desired)"
    by (auto simp: set_olds kept_inbounds_def inbound_by_id_get [OF p] inbound_by_id_None
        simp del: not_None_eq)
  then show sub: "set (olds (inbound_by_id prev) desired) \<subseteq> set prev"
    by (auto simp: kept_inbounds_def)
  show "distinct (map inb_Tag (olds (inbound_by_id prev) desired))"
    using olds_distinct [OF assms(1) d] t sub inj_on_subset unfolding distinct_map by blast
qed

text \<open>What a plan does to what is served, and when it can be carried out at all.\<close>

lemma view_plan:
  assumes wf: "wf_inbounds (ds_Inbounds previous)" "wf_inbounds (ds_Inbounds desired)"
    and run: "\<not> plan_RequiresRestart (plan_runtime unm previous desired)"
  shows "view_ops (plan_Operations (plan_runtime unm previous desired)) (serving_of (ds_Inbounds previous))
    = (if free_tags (inbound_by_id (ds_Inbounds previous)) [] (ds_Inbounds desired)
       then Some (serving_of (ds_Inbounds desired)) else None)"
proof -
  let ?P = "ds_Inbounds previous" and ?D = "ds_Inbounds desired"
  let ?olds = "olds (inbound_by_id ?P) ?D"
  have ops: "plan_Operations (plan_runtime unm previous desired)
      = plan_removals ?P ?D @ concat (map (plan_inbound (inbound_by_id ?P)) ?D)"
    using run by (auto simp: plan_runtime_def split: if_splits option.splits)
  have t: "distinct (map inb_Tag ?P)" and w: "list_all (\<lambda>i. wf_inbound i \<and> buildable i) ?P"
    using wf(1) by (auto simp: wf_inbounds_def list_all_iff)
  have b: "list_all buildable ?P" using w by (simp add: list_all_iff)
  have "view_ops (plan_removals ?P ?D) (serving_of ?P) = Some (serving_of (kept_inbounds ?P ?D))"
    using view_removals [of "[]" ?P "\<lambda>o'. go_get (inbound_by_id ?D) (inb_ID o') = None"] t b
    by (simp add: plan_removals_def kept_inbounds_def)
  also have "serving_of (kept_inbounds ?P ?D) = serving_of ([] @ ?olds)"
  proof (rule serving_of_set)
    show "distinct (map inb_Tag (kept_inbounds ?P ?D))"
      unfolding kept_inbounds_def using t by (rule distinct_map_filter)
  qed (simp_all add: olds_kept [OF wf])
  finally have "view_ops (plan_removals ?P ?D) (serving_of ?P) = Some (serving_of ([] @ ?olds))" .
  moreover have "view_ops (concat (map (plan_inbound (inbound_by_id ?P)) ?D)) (serving_of ([] @ ?olds))
      = (if free_tags (inbound_by_id ?P) [] ?D then Some (serving_of ([] @ ?D)) else None)"
  proof (rule view_plan_list)
    show "list_all (\<lambda>i. wf_inbound i \<and> buildable i) ([] @ ?olds)"
      using olds_kept(3) [OF wf] w by (auto simp: list_all_iff)
    show "list_all (\<lambda>i. wf_inbound i \<and> buildable i) ?D"
      using wf(2) by (auto simp: wf_inbounds_def list_all_iff)
  qed (simp add: olds_kept [OF wf])
  ultimately show ?thesis
    by (simp only: ops view_ops_append Option.bind.bind_lunit append_Nil)
qed

text \<open>Tags are never in the way when none moved from one inbound to another.\<close>

lemma free_tags_no_clash:
  assumes "wf_inbounds prev" and "distinct (map inb_ID (P @ Q))" and "distinct (map inb_Tag (P @ Q))"
    and "\<And>n o'. n \<in> set Q \<Longrightarrow> o' \<in> set prev \<Longrightarrow> inb_Tag n = inb_Tag o' \<Longrightarrow> inb_ID n = inb_ID o'"
  shows "free_tags (inbound_by_id prev) P Q"
  using assms(2-)
proof (induction Q arbitrary: P)
  case (Cons n Q)
  have p: "distinct (map inb_ID prev)" using assms(1) by (simp add: wf_inbounds_def)
  have "inb_Tag n \<noteq> inb_Tag o'" if "o' \<in> set (olds (inbound_by_id prev) Q)" for o'
  proof
    assume eq: "inb_Tag n = inb_Tag o'"
    from that obtain q where "q \<in> set Q" "o' \<in> set prev" "inb_ID o' = inb_ID q"
      by (auto simp: set_olds inbound_by_id_get [OF p])
    moreover from Cons.prems(3) [of n o'] this eq have "inb_ID n = inb_ID q" by simp
    ultimately show False using Cons.prems(1) by auto
  qed
  moreover have "free_tags (inbound_by_id prev) (P @ [n]) Q"
  proof (rule Cons.IH)
    show "inb_ID q = inb_ID o'" if "q \<in> set Q" "o' \<in> set prev" "inb_Tag q = inb_Tag o'" for q o'
      using Cons.prems(3) [of q o'] that by simp
  qed (use Cons.prems(1,2) in simp_all)
  ultimately show ?case using Cons.prems(2) by auto
qed simp

section \<open>From the API commands to their effects\<close>

definition op_ok :: "runtime_op \<Rightarrow> bool" where
  "op_ok op =
     (case op of
        AddUser i u \<Rightarrow> supports_hot_users i
      | RemoveInbound t \<Rightarrow> plain t
      | ReplaceInbound t i \<Rightarrow> plain t
      | RemoveUser t e \<Rightarrow> plain e
      | AddInbound i \<Rightarrow> True)"

lemma plain_email [simp]: "plain (accounting_email uid iid)"
  by (simp add: plain_def accounting_email_def)

lemma handlerD:
  assumes "handler_service run view"
  shows "run (Adi (inbound_doc m)) x = (None, x') \<Longrightarrow>
      view x (tag_of m) = None \<and> view x' = (view x)(tag_of m \<mapsto> served_of m)"
    and "run (Rmi t) x = (None, x') \<Longrightarrow> plain t \<Longrightarrow> view x t \<noteq> None \<and> view x' = (view x)(t := None)"
    and "run (Adu (inbound_doc m)) x = (None, x') \<Longrightarrow> listed_users m = [c] \<Longrightarrow>
      \<exists>b us. view x (tag_of m) = Some (b, us) \<and> us (email_of c) = None
        \<and> view x' = (view x)(tag_of m \<mapsto> (b, us(email_of c \<mapsto> c)))"
    and "run (Rmu t e) x = (None, x') \<Longrightarrow> plain e \<Longrightarrow>
      \<exists>b us. view x t = Some (b, us) \<and> us e \<noteq> None \<and> view x' = (view x)(t \<mapsto> (b, us(e := None)))"
  using assms unfolding handler_service_def by blast+

lemma inbound_document: "build_inbound_document i = Inr d \<longleftrightarrow> (\<exists>m. build_inbound i = Inr m \<and> d = inbound_doc m)"
  by (auto simp: build_inbound_document_def inbound_doc_def split: sum.splits)

lemma add_inbound_view:
  assumes "handler_service run view" and "add_inbound_runtime run i x = (None, x')"
  shows "view_add i (view x) = Some (view x')"
proof -
  from assms(2) obtain m where m: "build_inbound i = Inr m" and r: "run (Adi (inbound_doc m)) x = (None, x')"
    by (auto simp: add_inbound_runtime_def run_document_def inbound_document split: sum.splits prod.splits)
  from handlerD(1) [OF assms(1) r] m show ?thesis
    by (simp add: view_add_def served_inbound_def tag_of_built)
qed

lemma user_document:
  assumes "supports_hot_users i" and "build_user_document i u = Inr d"
  obtains m where "d = inbound_doc m" and "listed_users m = [client_of i u]" and "tag_of m = inb_Tag i"
proof -
  let ?i = "i\<lparr>inb_Users := [u\<lparr>usr_Enabled := True\<rparr>]\<rparr>"
  from assms(2) obtain m where m: "build_inbound ?i = Inr m" and d: "d = inbound_doc m"
    by (auto simp: build_user_document_def inbound_document)
  have "to_lower (inb_Protocol i) \<in> set client_protocols"
    using assms(1) by (simp add: supports_hot_users_def)
  then have "listed_users m = [client_of ?i (u\<lparr>usr_Enabled := True\<rparr>)]"
    using m by (simp add: listed_users_def users_key_built users_key_of_def settings_of_built
        build_settings_clients)
  moreover have "client_of ?i (u\<lparr>usr_Enabled := True\<rparr>) = client_of i u"
    by (simp add: client_of_def)
  moreover have "tag_of m = inb_Tag i" using m by (simp add: tag_of_built)
  ultimately show ?thesis using that [OF d] by simp
qed

lemma exec_op_view:
  assumes h: "handler_service run view" and "op_ok op" and ex: "exec_op run cancelled op x = (None, x')"
  shows "view_op op (view x) = Some (view x')"
proof (cases op)
  case (AddInbound i)
  then show ?thesis
    using ex add_inbound_view [OF h, of i x x']
    by (cases "add_inbound_runtime run i x") (simp add: wrap_op_def)
next
  case (RemoveInbound t)
  with ex have "run (Rmi t) x = (None, x')"
    by (cases "run (Rmi t) x") (simp add: wrap_op_def remove_inbound_runtime_def)
  from handlerD(2) [OF h this] RemoveInbound assms(2) show ?thesis by (simp add: op_ok_def)
next
  case (ReplaceInbound t i)
  from ex ReplaceInbound obtain y where y: "run (Rmi t) x = (None, y)"
    and a: "add_inbound_runtime run i y = (None, x')"
    by (cases "run (Rmi t) x"; cases "add_inbound_runtime run i (snd (run (Rmi t) x))")
      (auto simp: wrap_op_def remove_inbound_runtime_def split: option.splits if_splits)
  from handlerD(2) [OF h y] add_inbound_view [OF h a] ReplaceInbound assms(2) show ?thesis by (simp add: op_ok_def)
next
  case (AddUser i u)
  with ex obtain d where d: "build_user_document i u = Inr d" and r: "run (Adu d) x = (None, x')"
    by (auto simp: wrap_op_def add_user_runtime_def run_document_def split: sum.splits prod.splits)
  from AddUser assms(2) have "supports_hot_users i" by (simp add: op_ok_def)
  from user_document [OF this d] obtain m where
    m: "d = inbound_doc m" "listed_users m = [client_of i u]" "tag_of m = inb_Tag i" .
  from handlerD(3) [OF h r [unfolded m(1)] m(2)] m(3) AddUser show ?thesis
    by (auto simp: email_of_def client_of_fields)
next
  case (RemoveUser t e)
  with ex have "run (Rmu t e) x = (None, x')"
    by (cases "run (Rmu t e) x") (simp add: wrap_op_def remove_user_runtime_def)
  from handlerD(4) [OF h this] RemoveUser assms(2) show ?thesis by (auto simp: op_ok_def)
qed

lemma exec_ops_view:
  assumes "handler_service run view" and "list_all op_ok ops" and "exec_ops run cancelled ops x = (None, x')"
  shows "view_ops ops (view x) = Some (view x')"
  using assms(2,3)
proof (induction ops arbitrary: x)
  case (Cons op ops)
  from Cons.prems(2) obtain y where y: "exec_op run cancelled op x = (None, y)"
    and r: "exec_ops run cancelled ops y = (None, x')"
    by (auto split: prod.splits option.splits)
  from exec_op_view [OF assms(1) _ y] Cons.IH [OF _ r] Cons.prems(1) show ?case by simp
qed simp

lemma plan_ops_ok:
  assumes "wf_inbounds (ds_Inbounds previous)"
  shows "list_all op_ok (plan_Operations (plan_runtime unm previous desired))"
proof -
  have tags: "plain (inb_Tag i)" if "i \<in> set (ds_Inbounds previous)" for i
    using assms that by (simp add: wf_inbounds_def list_all_iff)
  have p: "distinct (map inb_ID (ds_Inbounds previous))" using assms by (simp add: wf_inbounds_def)
  have "list_all op_ok (plan_inbound (inbound_by_id (ds_Inbounds previous)) n)" for n
    using tags by (auto simp: inbound_by_id_get [OF p] plan_inbound_def plan_users_def list_all_iff op_ok_def split: option.splits)
  with tags show ?thesis
    by (auto simp: plan_runtime_def plan_removals_def list_all_iff op_ok_def
        split: option.splits if_splits runtime_op.splits)
qed

section \<open>Properties\<close>

lemma reload_refines:
  assumes "handler_service run view"
    and "wf_inbounds (ds_Inbounds previous)" and "wf_inbounds (ds_Inbounds desired)"
    and "view x = serving_of (ds_Inbounds previous)"
    and "apply_runtime run cancelled (plan_runtime unm previous desired) x = (None, x')"
  shows "view x' = serving_of (ds_Inbounds desired)"
proof -
  have run: "\<not> plan_RequiresRestart (plan_runtime unm previous desired)"
    using assms(5) by (auto simp: apply_runtime_def)
  with assms(5) have "exec_ops run cancelled (plan_Operations (plan_runtime unm previous desired)) x = (None, x')"
    by (simp add: apply_runtime_def)
  from exec_ops_view [OF assms(1) plan_ops_ok [OF assms(2)] this] view_plan [OF assms(2,3) run] assms(4)
  show ?thesis by (simp split: if_splits)
qed

text \<open>
  Claim C1. The hot reload is right. Suppose Xray serves what the configuration of the previous
  state makes it serve, and running the plan from the previous to the desired state succeeds.
  Then Xray serves exactly what a restart with the configuration of the desired state would:
  the same inbounds with the same fields, and in each the same users with the same credentials.
  Inbound IDs, tags and (sanitised) user IDs are distinct within a state, and the API commands
  do what they document.
\<close>

theorem hot_reload_refines_restart:
  assumes "handler_service run view"
    and "wf_inbounds (ds_Inbounds previous)" and "wf_inbounds (ds_Inbounds desired)"
    and "view x = serving_of (ds_Inbounds previous)"
    and "apply_runtime run cancelled (plan_runtime unm previous desired) x = (None, x')"
  shows "view x' = serving_of (ds_Inbounds desired)"
  using assms by (rule reload_refines)

text \<open>A handler service as documented, over what it serves.\<close>

definition demo_run :: "serving api" where
  "demo_run c v =
     (case c of
        Adi (AMap [(_, AArr [AMap m])]) \<Rightarrow>
          (case v (tag_of m) of None \<Rightarrow> (None, v(tag_of m \<mapsto> served_of m)) | Some _ \<Rightarrow> (Some ''existing tag'', v))
      | Rmi t \<Rightarrow> (case v t of None \<Rightarrow> (Some ''not found'', v) | Some _ \<Rightarrow> (None, v(t := None)))
      | Adu (AMap [(_, AArr [AMap m])]) \<Rightarrow>
          (case (v (tag_of m), listed_users m) of
             (Some (b, us), [c]) \<Rightarrow>
               (case us (email_of c) of
                  None \<Rightarrow> (None, v(tag_of m \<mapsto> (b, us(email_of c \<mapsto> c)))) | Some _ \<Rightarrow> (Some ''user exists'', v))
           | _ \<Rightarrow> (Some ''not found'', v))
      | Rmu t e \<Rightarrow>
          (case v t of None \<Rightarrow> (Some ''not found'', v)
           | Some (b, us) \<Rightarrow>
               (case us e of None \<Rightarrow> (Some ''no user'', v) | Some _ \<Rightarrow> (None, v(t \<mapsto> (b, us(e := None))))))
      | _ \<Rightarrow> (Some ''failed to decode config'', v))"

lemma demo_handler_service: "handler_service demo_run (\<lambda>v. v)"
  by (auto simp: handler_service_def demo_run_def inbound_doc_def split: option.splits list.splits)

definition demo_inbound :: "managed_user list \<Rightarrow> managed_inbound" where
  "demo_inbound us = zero_inbound\<lparr>inb_ID := ''de'', inb_Tag := ''in-de'', inb_Protocol := ''vless'', inb_Users := us\<rparr>"

definition demo_user :: "string \<Rightarrow> bool \<Rightarrow> managed_user" where
  "demo_user k e = zero_user\<lparr>usr_ID := k, usr_Enabled := e\<rparr>"

definition demo_before :: desired_state where
  "demo_before = zero_state\<lparr>ds_Inbounds := [demo_inbound [demo_user ''a'' True, demo_user ''b'' True]]\<rparr>"

definition demo_after :: desired_state where
  "demo_after = zero_state\<lparr>ds_Inbounds := [demo_inbound [demo_user ''c'' True, demo_user ''b'' True, demo_user ''a'' False],
     (demo_inbound [])\<lparr>inb_ID := ''nl'', inb_Tag := ''in-nl''\<rparr>]\<rparr>"

theorem hot_reload_refines_restart_witness:
  "snd (apply_runtime demo_run (\<lambda>_. False) (plan_runtime (\<lambda>_. Inl []) demo_before demo_after)
       (serving_of (ds_Inbounds demo_before)))
   = serving_of (ds_Inbounds demo_after)"
proof (rule hot_reload_refines_restart [OF demo_handler_service])
  show "wf_inbounds (ds_Inbounds demo_before)" "wf_inbounds (ds_Inbounds demo_after)"
    by code_simp+
  show "apply_runtime demo_run (\<lambda>_. False) (plan_runtime (\<lambda>_. Inl []) demo_before demo_after)
       (serving_of (ds_Inbounds demo_before))
     = (None, snd (apply_runtime demo_run (\<lambda>_. False) (plan_runtime (\<lambda>_. Inl []) demo_before demo_after)
       (serving_of (ds_Inbounds demo_before))))"
  proof (rule prod_eqI)
    have "Option.is_none (fst (apply_runtime demo_run (\<lambda>_. False) (plan_runtime (\<lambda>_. Inl []) demo_before demo_after)
       (serving_of (ds_Inbounds demo_before))))"
      by code_simp
    then show "fst (apply_runtime demo_run (\<lambda>_. False) (plan_runtime (\<lambda>_. Inl []) demo_before demo_after)
       (serving_of (ds_Inbounds demo_before))) = fst (None, snd (apply_runtime demo_run (\<lambda>_. False) (plan_runtime (\<lambda>_. Inl []) demo_before demo_after)
       (serving_of (ds_Inbounds demo_before))))"
      by (simp add: Option.is_none_def)
  qed simp
qed simp

text \<open>
  The hot reload can be carried out. When the plan does not ask for a restart and no
  tag moved from one inbound to another, every operation of the plan finds what it needs on the
  way from the previous state (its tag free or taken, its user absent or present), and the
  sequence ends in the desired state.
\<close>

lemma hot_reload_is_possible:
  assumes "wf_inbounds (ds_Inbounds previous)" and "wf_inbounds (ds_Inbounds desired)"
    and "\<not> plan_RequiresRestart (plan_runtime unm previous desired)"
    and "\<And>n o'. n \<in> set (ds_Inbounds desired) \<Longrightarrow> o' \<in> set (ds_Inbounds previous)
      \<Longrightarrow> inb_Tag n = inb_Tag o' \<Longrightarrow> inb_ID n = inb_ID o'"
  shows "view_ops (plan_Operations (plan_runtime unm previous desired)) (serving_of (ds_Inbounds previous))
    = Some (serving_of (ds_Inbounds desired))"
proof -
  have "free_tags (inbound_by_id (ds_Inbounds previous)) [] (ds_Inbounds desired)"
    using assms(2) by (intro free_tags_no_clash [OF assms(1) _ _ assms(4)]) (auto simp: wf_inbounds_def)
  with view_plan [OF assms(1-3)] show ?thesis by simp
qed

lemma hot_reload_is_possible_example:
  "view_ops (plan_Operations (plan_runtime (\<lambda>_. Inl []) demo_before demo_after))
       (serving_of (ds_Inbounds demo_before))
     = Some (serving_of (ds_Inbounds demo_after))"
proof (rule hot_reload_is_possible)
  show "wf_inbounds (ds_Inbounds demo_before)" "wf_inbounds (ds_Inbounds demo_after)"
    by code_simp+
  show "\<not> plan_RequiresRestart (plan_runtime (\<lambda>_. Inl []) demo_before demo_after)"
    by code_simp
qed (auto simp: demo_before_def demo_after_def demo_inbound_def)

text \<open>The operations that cut the connections of a user under a tag.\<close>

definition disconnects :: "string \<Rightarrow> string \<Rightarrow> runtime_op \<Rightarrow> bool" where
  "disconnects t e op =
     (case op of
        RemoveInbound t' \<Rightarrow> t' = t
      | ReplaceInbound t' i \<Rightarrow> t' = t
      | RemoveUser t' e' \<Rightarrow> t' = t \<and> e' = e
      | _ \<Rightarrow> False)"

lemma wf_inbounds_same:
  assumes "wf_inbounds is" and "i \<in> set is" and "j \<in> set is"
  shows "inb_Tag i = inb_Tag j \<longleftrightarrow> i = j" and "inb_ID i = inb_ID j \<longleftrightarrow> i = j"
  using assms by (auto simp: wf_inbounds_def distinct_map dest: inj_onD)

text \<open>
  Claim C18. The plan is minimal for connections. A user who is enabled before and after, with
  the same level and credential, in an inbound of which nothing but users and metadata changed,
  and whose protocol can change users at run time, is not disconnected by any operation of the
  plan, whatever happens to the other users and inbounds.
\<close>

theorem hot_reload_keeps_connections:
  assumes wf: "wf_inbounds (ds_Inbounds previous)" "wf_inbounds (ds_Inbounds desired)"
    and i: "old \<in> set (ds_Inbounds previous)" "new \<in> set (ds_Inbounds desired)"
      "inbound_base_equal old new" "supports_hot_users new"
    and u: "u \<in> set (inb_Users old)" "n \<in> set (inb_Users new)" "usr_ID n = usr_ID u"
      "usr_Enabled u" "usr_Enabled n" "user_runtime_equal u n"
  shows "list_all (\<lambda>op. \<not> disconnects (inb_Tag old) (user_email old u) op)
    (plan_Operations (plan_runtime unm previous desired))"
proof -
  let ?P = "ds_Inbounds previous" and ?D = "ds_Inbounds desired"
  let ?keeps = "list_all (\<lambda>op. \<not> disconnects (inb_Tag old) (user_email old u) op)"
  have id: "inb_ID old = inb_ID new" using base_equal_fields [OF i(3)] by simp
  have p: "distinct (map inb_ID ?P)" using wf(1) by (simp add: wf_inbounds_def)
  have wfi: "wf_inbound old" "wf_inbound new" using wf_inbounds_in wf i(1,2) by blast+
  have "o' \<noteq> old" if "o' \<in> set ?P" "go_get (inbound_by_id ?D) (inb_ID o') = None" for o'
    using that i(2) id by (auto simp: inbound_by_id_None)
  then have 1: "?keeps (plan_removals ?P ?D)"
    using wf_inbounds_same(1) [OF wf(1) _ i(1)]
    by (auto simp: plan_removals_def list_all_iff disconnects_def)
  have 2: "?keeps (plan_inbound (inbound_by_id ?P) d)" if d: "d \<in> set ?D" for d
  proof (cases "d = new")
    case True
    have "go_get (inbound_by_id ?P) (inb_ID new) = Some old"
      using i(1) id by (simp add: inbound_by_id_get [OF p])
    moreover have "user_email old w \<noteq> user_email old u" if "w \<in> set (removed_users old new)" for w
    proof
      assume eq: "user_email old w = user_email old u"
      have "w \<in> set (inb_Users old)" using that by (simp add: removed_users_def)
      from wf_inbound_same [OF wfi(1) this u(1) eq] removed_unmatched [OF wfi(2) that u(2)] u(3,5,6)
      show False by simp
    qed
    ultimately show ?thesis
      using i(3,4) True
      by (auto simp: plan_inbound_def plan_users_lists list_all_iff disconnects_def)
  next
    case False
    have "inb_Tag o' \<noteq> inb_Tag old" if "go_get (inbound_by_id ?P) (inb_ID d) = Some o'" for o'
    proof -
      from that have o': "o' \<in> set ?P" "inb_ID o' = inb_ID d" by (auto simp: inbound_by_id_get [OF p])
      then have "o' \<noteq> old" using False id wf_inbounds_same(2) [OF wf(2) d i(2)] by auto
      then show ?thesis using wf_inbounds_same(1) [OF wf(1) o'(1) i(1)] by simp
    qed
    then show ?thesis
      by (auto simp: plan_inbound_def plan_users_lists list_all_iff disconnects_def split: option.split)
  qed
  from 1 2 show ?thesis
    by (auto simp: plan_runtime_def list_all_iff split: option.split)
qed

theorem hot_reload_keeps_connections_witness:
  "list_all (\<lambda>op. \<not> disconnects ''in-de'' (accounting_email ''b'' ''de'') op)
     (plan_Operations (plan_runtime (\<lambda>_. Inl []) demo_before demo_after))"
proof -
  let ?old = "demo_inbound [demo_user ''a'' True, demo_user ''b'' True]"
  let ?new = "demo_inbound [demo_user ''c'' True, demo_user ''b'' True, demo_user ''a'' False]"
  have wf: "wf_inbounds (ds_Inbounds demo_before)" "wf_inbounds (ds_Inbounds demo_after)"
    by code_simp+
  have hot: "supports_hot_users ?new" by code_simp
  have "list_all (\<lambda>op. \<not> disconnects (inb_Tag ?old) (user_email ?old (demo_user ''b'' True)) op)
     (plan_Operations (plan_runtime (\<lambda>_. Inl []) demo_before demo_after))"
    by (rule hot_reload_keeps_connections [OF wf _ _ _ hot, where n = "demo_user ''b'' True"])
      (simp_all add: demo_before_def demo_after_def demo_inbound_def demo_user_def
        inbound_base_equal_def user_runtime_equal_def)
  then show ?thesis by (simp add: demo_inbound_def demo_user_def user_email_def)
qed

lemma bytes_json_equal_refl [simp]: "bytes_json_equal unm a a"
  by (simp add: bytes_json_equal_def split: sum.split)

lemma runtime_global_equal_refl: "runtime_global_equal unm s s"
  by (simp add: runtime_global_equal_def raw_messages_equal_def managed_routing_equal_def list_all2_refl)

lemma active_levels_get:
  "usr_Enabled u \<Longrightarrow> (i, u) \<in> set (all_users s) \<Longrightarrow> go_get (active_levels s) (usr_Level u) \<noteq> None"
proof -
  have gen: "go_get m l \<noteq> None \<or> (\<exists>(i, u) \<in> set xs. usr_Enabled u \<and> usr_Level u = l) \<Longrightarrow>
      go_get (foldl (\<lambda>m (i, u). if usr_Enabled u then go_put (usr_Level u) () m else m) m xs) l \<noteq> None"
    for m l and xs :: "(managed_inbound \<times> managed_user) list"
    by (induction xs arbitrary: m) (auto simp: map_simps)
  show "usr_Enabled u \<Longrightarrow> (i, u) \<in> set (all_users s) \<Longrightarrow> go_get (active_levels s) (usr_Level u) \<noteq> None"
    unfolding active_levels_def by (rule gen) auto
qed

lemma users_runtime_equal_refl: "users_runtime_equal us us"
proof -
  have "go_ok (user_by_id us)" by (simp add: user_by_id_def)
  then show ?thesis
    by (auto simp: users_runtime_equal_def list_all_iff Let_def user_runtime_equal_def go_ok_distinct)
qed

text \<open>
  Synchronising an unchanged state costs nothing: with distinct inbound IDs, the plan
  from a state to itself neither restarts Xray nor holds an operation.
\<close>

lemma plan_runtime_unchanged:
  assumes "distinct (map inb_ID (ds_Inbounds s))"
  shows "plan_runtime unm s s = \<lparr>plan_Operations = [], plan_RequiresRestart = False, plan_Reason = []\<rparr>"
proof -
  have "plan_inbound (inbound_by_id (ds_Inbounds s)) i = []" if "i \<in> set (ds_Inbounds s)" for i
  proof -
    have "go_get (inbound_by_id (ds_Inbounds s)) (inb_ID i) = Some i"
      using that by (simp add: inbound_by_id_get [OF assms])
    then show ?thesis
      by (simp add: plan_inbound_def inbound_base_equal_def users_runtime_equal_refl)
  qed
  moreover have "plan_removals (ds_Inbounds s) (ds_Inbounds s) = []"
    by (auto simp: plan_removals_def filter_empty_conv inbound_by_id_None simp del: not_None_eq)
  moreover have "find (\<lambda>(i, u). usr_Enabled u \<and> go_get (active_levels s) (usr_Level u) = None) (all_users s) = None"
    using active_levels_get [of _ _ s] by (auto simp: find_None_iff)
  ultimately show ?thesis
    by (simp add: plan_runtime_def runtime_global_equal_refl)
qed

lemma plan_runtime_unchanged_witness:
  "plan_runtime (\<lambda>_. Inl []) demo_after demo_after
     = \<lparr>plan_Operations = [], plan_RequiresRestart = False, plan_Reason = []\<rparr>"
  by (rule plan_runtime_unchanged) (simp add: demo_after_def demo_inbound_def)

end
