(* ===== verification/Files.thy ===== *)
theory Files
  imports Prelude
begin

text \<open>
  Files as the agent uses them. A directory is a map from names to contents of some type; a
  write that must not be seen half done goes to a temporary file that is renamed over the old
  one. Any system call can fail, and the machine can stop between any two of them, so a write
  yields the error it returns and the states the directory passes through, the last one being
  the state after the return.

  The interface the components rely on is the locale \<open>atomic_store\<close>: a reader at any moment,
  also after a crash, finds the old value or the new one. It is interpreted on the writers of the
  configuration, of the core policy, of the state file and of the traffic spool, each in the
  theory of its component.
\<close>

type_synonym 'c files = "(string, 'c) gomap"

text \<open>
  What a JSON file holds: a document, or bytes that \<^verbatim>\<open>json.Unmarshal\<close> rejects with an error (a
  partial write, a foreign file).
\<close>

datatype 'a content = Doc 'a | Junk string

text \<open>The calls of an atomic write, in the order the code makes them.\<close>

datatype stage = Mkdir | CreateTemp | Chmod | Write | Sync | Close | Rename

text \<open>
  The environment of one write: the name \<^verbatim>\<open>os.CreateTemp\<close> picks, what a reader of the temporary
  file sees before it is complete, and which call fails with which error (the first one that is
  reached ends the write).
\<close>

record 'c write_env =
  we_temp :: string
  we_partial :: 'c
  we_fault :: "stage \<Rightarrow> string option"

definition rename_file :: "string \<Rightarrow> string \<Rightarrow> 'c files \<Rightarrow> 'c files" where
  "rename_file from to fs =
     (case go_get fs from of None \<Rightarrow> fs | Some c \<Rightarrow> go_put to c (go_delete from fs))"

text \<open>
  Everything after the temporary file exists. \<^verbatim>\<open>Chmod\<close>, \<^verbatim>\<open>Sync\<close> and \<^verbatim>\<open>Close\<close> do not change
  what is read; the deferred \<^verbatim>\<open>os.Remove\<close> takes the temporary file away on every error.
\<close>

definition stage_effect :: "'c write_env \<Rightarrow> string \<Rightarrow> 'c \<Rightarrow> stage \<Rightarrow> 'c files \<Rightarrow> 'c files" where
  "stage_effect e path c st fs =
     (case st of
        CreateTemp \<Rightarrow> go_put (we_temp e) (we_partial e) fs
      | Write \<Rightarrow> go_put (we_temp e) c fs
      | Rename \<Rightarrow> rename_file (we_temp e) path fs
      | _ \<Rightarrow> fs)"

fun run_stages :: "'c write_env \<Rightarrow> string \<Rightarrow> 'c \<Rightarrow> stage list \<Rightarrow> 'c files \<Rightarrow> string option \<times> 'c files list" where
  "run_stages e path c [] fs = (None, [fs])"
| "run_stages e path c (st # sts) fs =
     (case we_fault e st of
        Some err \<Rightarrow> (Some err, [fs, go_delete (we_temp e) fs])
      | None \<Rightarrow>
          (case run_stages e path c sts (stage_effect e path c st fs) of
             (r, trace) \<Rightarrow> (r, fs # trace)))"

definition after_temp :: "stage list" where
  "after_temp = [Chmod, Write, Sync, Close, Rename]"

text \<open>\<^verbatim>\<open>MkdirAll\<close> and \<^verbatim>\<open>CreateTemp\<close> come before the deferred removal is in force.\<close>

definition atomic_write :: "'c write_env \<Rightarrow> string \<Rightarrow> 'c \<Rightarrow> 'c files \<Rightarrow> string option \<times> 'c files list" where
  "atomic_write e path c fs =
     (case we_fault e Mkdir of
        Some err \<Rightarrow> (Some err, [fs])
      | None \<Rightarrow>
          (case we_fault e CreateTemp of
             Some err \<Rightarrow> (Some err, [fs])
           | None \<Rightarrow>
               (case run_stages e path c after_temp (stage_effect e path c CreateTemp fs) of
                  (r, trace) \<Rightarrow> (r, fs # trace))))"

text \<open>A temporary name is new: it is neither the target nor an existing file.\<close>

definition fresh_env :: "string \<Rightarrow> 'c write_env \<Rightarrow> 'c files \<Rightarrow> bool" where
  "fresh_env path e fs \<longleftrightarrow> we_temp e \<noteq> path \<and> go_get fs (we_temp e) = None"

section \<open>The interface of an atomic store\<close>

text \<open>
  \<open>commit\<close> runs in an environment; \<open>fetch\<close> is what a reader makes of the store, and
  \<open>admissible\<close> what the store relies on from the environment.
\<close>

locale atomic_store =
  fixes fetch :: "'s \<Rightarrow> 'v option"
    and commit :: "'e \<Rightarrow> 'v \<Rightarrow> 's \<Rightarrow> string option \<times> 's list"
    and admissible :: "'e \<Rightarrow> 'v \<Rightarrow> 's \<Rightarrow> bool"
  assumes trace_start: "snd (commit e v s) \<noteq> []"
    and during: "admissible e v s \<Longrightarrow> s' \<in> set (snd (commit e v s)) \<Longrightarrow> fetch s' = fetch s \<or> fetch s' = Some v"
    and stored: "admissible e v s \<Longrightarrow> fst (commit e v s) = None \<Longrightarrow> fetch (last (snd (commit e v s))) = Some v"
    and kept: "admissible e v s \<Longrightarrow> fst (commit e v s) = Some err \<Longrightarrow> fetch (last (snd (commit e v s))) = fetch s"
begin

text \<open>
  A history of the store: writes one after the other, each of which may be cut off by a crash
  at any of its states.
\<close>

fun history :: "'s \<Rightarrow> ('e \<times> 'v \<times> nat) list \<Rightarrow> 's \<Rightarrow> bool" where
  "history s [] s' \<longleftrightarrow> s' = s"
| "history s ((e, v, n) # ws) s' \<longleftrightarrow>
     admissible e v s \<and> n < length (snd (commit e v s)) \<and> history (snd (commit e v s) ! n) ws s'"

text \<open>Nothing but what was there or was written is ever read.\<close>

lemma history_read:
  "history s ws s' \<Longrightarrow> fetch s' = fetch s \<or> (\<exists>v \<in> (\<lambda>(e, v, n). v) ` set ws. fetch s' = Some v)"
proof (induction ws arbitrary: s)
  case Nil
  then show ?case by simp
next
  case (Cons w ws)
  obtain e v n where w: "w = (e, v, n)" by (cases w)
  let ?s = "snd (commit e v s) ! n"
  from Cons.prems have a: "admissible e v s" and n: "n < length (snd (commit e v s))"
    and h: "history ?s ws s'" by (auto simp: w)
  from during [OF a nth_mem [OF n]] Cons.IH [OF h] show ?case by (auto simp: w)
qed

lemma write_read:
  "admissible e v s \<Longrightarrow> fetch (last (snd (commit e v s))) = (if fst (commit e v s) = None then Some v else fetch s)"
  using stored kept by (cases "fst (commit e v s)") auto

end

section \<open>The temporary file protocol is atomic\<close>

lemma get_rename:
  assumes "from \<noteq> to"
  shows "go_get (rename_file from to fs) k =
    (case go_get fs from of None \<Rightarrow> go_get fs k
     | Some c \<Rightarrow> if k = to then Some c else if k = from then None else go_get fs k)"
  using assms by (auto simp: rename_file_def map_simps split: option.split)

text \<open>Away from the temporary file and the target nothing changes, and the target only by the rename.\<close>

lemma run_stages_frame:
  assumes "k \<noteq> we_temp e" and "k \<noteq> path" and "CreateTemp \<notin> set sts" and "we_temp e \<noteq> path"
  shows "s' \<in> set (snd (run_stages e path c sts fs)) \<Longrightarrow> go_get s' k = go_get fs k"
  using assms
proof (induction sts arbitrary: fs)
  case (Cons st sts)
  have eff: "go_get (stage_effect e path c st fs) k = go_get fs k"
    using Cons.prems by (auto simp: stage_effect_def map_simps get_rename split: stage.split option.split)
  show ?case
    using Cons.prems Cons.IH [of "stage_effect e path c st fs"] eff
    by (auto simp: map_simps split: option.splits prod.splits)
qed simp

lemma run_stages_nonempty: "snd (run_stages e path c sts fs) \<noteq> []"
  by (cases sts) (auto split: option.split prod.split)

text \<open>Before the rename the target is untouched in every state.\<close>

lemma run_stages_target:
  assumes "Rename \<notin> set sts" and "we_temp e \<noteq> path"
  shows "s' \<in> set (snd (run_stages e path c sts fs)) \<Longrightarrow> go_get s' path = go_get fs path"
  using assms
proof (induction sts arbitrary: fs)
  case (Cons st sts)
  have eff: "go_get (stage_effect e path c st fs) path = go_get fs path"
    using Cons.prems by (auto simp: stage_effect_def map_simps split: stage.split)
  show ?case
    using Cons.prems Cons.IH [of "stage_effect e path c st fs"] eff
    by (auto simp: map_simps split: option.splits prod.splits)
qed simp

lemma atomic_write_nonempty: "snd (atomic_write e path c fs) \<noteq> []"
  by (auto simp: atomic_write_def split: option.split prod.split)

lemmas write_simps = atomic_write_def after_temp_def stage_effect_def map_simps

lemma atomic_write_during:
  assumes "we_temp e \<noteq> path" and "s' \<in> set (snd (atomic_write e path c fs))"
  shows "go_get s' path = go_get fs path \<or> go_get s' path = Some c"
  using assms by (auto simp: write_simps get_rename split: option.splits)

lemma atomic_write_last:
  assumes "fresh_env path e fs"
  shows "go_get (last (snd (atomic_write e path c fs))) k =
    (if fst (atomic_write e path c fs) = None \<and> k = path then Some c else go_get fs k)"
  using assms by (auto simp: write_simps get_rename fresh_env_def split: option.splits)

text \<open>Whatever was left under the temporary name before.\<close>

lemma atomic_write_final:
  assumes "we_temp e \<noteq> path" and "k \<noteq> we_temp e"
  shows "go_get (last (snd (atomic_write e path c fs))) k =
    (if fst (atomic_write e path c fs) = None \<and> k = path then Some c else go_get fs k)"
  using assms by (auto simp: write_simps get_rename split: option.splits)

lemma atomic_write_frame:
  assumes "s' \<in> set (snd (atomic_write e path c fs))" and "k \<noteq> path" and "k \<noteq> we_temp e" and "we_temp e \<noteq> path"
  shows "go_get s' k = go_get fs k"
  using assms by (auto simp: write_simps get_rename split: option.splits)

text \<open>Success needs every call to succeed.\<close>

lemma atomic_write_ok: "fst (atomic_write e path c fs) = None \<longleftrightarrow>
    (\<forall>st \<in> {Mkdir, CreateTemp, Chmod, Write, Sync, Close, Rename}. we_fault e st = None)"
  by (auto simp: atomic_write_def after_temp_def split: option.splits)

text \<open>The interpretation the configuration, policy and state files share.\<close>

interpretation stored: atomic_store "\<lambda>fs. go_get fs path" "\<lambda>e c. atomic_write e path c"
    "\<lambda>e c fs. fresh_env path e fs" for path
proof unfold_locales
  show "snd (atomic_write e path c fs) \<noteq> []" for e c fs path by (rule atomic_write_nonempty)
  show "go_get s' path = go_get fs path \<or> go_get s' path = Some c"
    if "fresh_env path e fs" "s' \<in> set (snd (atomic_write e path c fs))" for s' e c fs path
    using that by (intro atomic_write_during) (simp_all add: fresh_env_def)
qed (simp_all add: atomic_write_last)

end
