(* ===== verification/Traffic.thy ===== *)
theory Traffic
  imports Files Policy GoStrings
begin

text \<open>
  The traffic spool, \<^verbatim>\<open>internal/traffic/spool.go\<close>: a directory with one JSON file per batch that
  the panel has not confirmed. Names of batches are hexadecimal (\<^verbatim>\<open>NewEventID\<close>), so a file name
  in the directory is the id and a suffix.
\<close>

section \<open>Event identifiers\<close>

definition hex_digit :: "nat \<Rightarrow> char" where
  "hex_digit n = (if n < 10 then char_of (48 + n) else char_of (87 + n))"

definition hex_encode :: "nat list \<Rightarrow> string" where
  "hex_encode bs = concat (map (\<lambda>b. [hex_digit (b div 16), hex_digit (b mod 16)]) bs)"

text \<open>The random bytes, if the system has some, else the clock (in nanoseconds).\<close>

definition new_event_id :: "nat list option \<Rightarrow> gotime \<Rightarrow> string" where
  "new_event_id rnd now = (case rnd of Some b \<Rightarrow> hex_encode b | None \<Rightarrow> show_int now)"

section \<open>The directory\<close>

datatype entry = Dir | File "traffic_batch content"

text \<open>\<open>None\<close> is a directory that does not exist.\<close>

type_synonym spool_dir = "entry files option"

text \<open>Its files; creating the directory does not change them.\<close>

definition entries :: "spool_dir \<Rightarrow> entry files" where
  "entries d = (case d of None \<Rightarrow> [] | Some m \<Rightarrow> m)"

definition temp_name :: "string \<Rightarrow> string" where "temp_name k = k @ ''.json.tmp''"
definition batch_name :: "string \<Rightarrow> string" where "batch_name k = k @ ''.json''"

text \<open>
  What can go wrong in an \<^verbatim>\<open>Enqueue\<close>: each call can fail, \<^verbatim>\<open>os.WriteFile\<close> also after it created
  the file. \<open>se_partial\<close> is the error with which the incomplete file would be rejected.
\<close>

record spool_env =
  se_mkdir :: "string option"
  se_write :: "string option"
  se_created :: bool
  se_partial :: string
  se_rename :: "string option"

text \<open>The error, and the states of the directory on the way (the last is the state on return).\<close>

definition enqueue :: "spool_env \<Rightarrow> traffic_batch \<Rightarrow> spool_dir \<Rightarrow> string option \<times> spool_dir list" where
  "enqueue e b d =
     (if bat_EventID b = [] then (Some ''event_id is required'', [d])
      else case se_mkdir e of
          Some err \<Rightarrow> (Some err, [d])
        | None \<Rightarrow>
            let m = entries d;
                tmp = temp_name (bat_EventID b);
                m1 = go_put tmp (File (Junk (se_partial e))) m;
                m2 = go_put tmp (File (Doc b)) m
            in case se_write e of
                Some err \<Rightarrow> (Some err, [d, Some m, Some (if se_created e then m1 else m)])
              | None \<Rightarrow>
                  (case se_rename e of
                     Some err \<Rightarrow> (Some err, [d, Some m, Some m1, Some m2])
                   | None \<Rightarrow> (None, [d, Some m, Some m1, Some m2,
                       Some (rename_file tmp (batch_name (bat_EventID b)) m2)])))"

text \<open>Reading the directory and its files.\<close>

record read_env =
  re_readdir :: "string option"
  re_read :: "string \<Rightarrow> string option"

definition no_faults :: read_env where
  "no_faults = \<lparr>re_readdir = None, re_read = (\<lambda>_. None)\<rparr>"

fun is_batch_file :: "string \<times> entry \<Rightarrow> bool" where
  "is_batch_file (name, Dir) \<longleftrightarrow> False"
| "is_batch_file (name, File c) \<longleftrightarrow> has_suffix ''.json'' name"

fun read_batch :: "read_env \<Rightarrow> string \<times> entry \<Rightarrow> string + traffic_batch" where
  "read_batch r (name, Dir) = Inl ''is a directory''"
| "read_batch r (name, File c) =
     (case re_read r name of
        Some err \<Rightarrow> Inl err
      | None \<Rightarrow> (case c of Junk err \<Rightarrow> Inl (name @ '': '' @ err) | Doc b \<Rightarrow> Inr b))"

definition batch_order :: "traffic_batch \<Rightarrow> int64 \<times> string" where
  "batch_order b = (bat_CollectedAt b, bat_EventID b)"

definition spool_list :: "read_env \<Rightarrow> spool_dir \<Rightarrow> string + traffic_batch list" where
  "spool_list r d =
     (case d of
        None \<Rightarrow> Inr []
      | Some m \<Rightarrow>
          (case re_readdir r of
             Some err \<Rightarrow> Inl err
           | None \<Rightarrow>
               (case collect (map (read_batch r) (filter is_batch_file m)) of
                  Inl err \<Rightarrow> Inl err
                | Inr bs \<Rightarrow> Inr (sort_slice batch_order bs))))"

text \<open>\<^verbatim>\<open>Delete\<close>, with the error of \<^verbatim>\<open>os.Remove\<close> other than that there is no such file.\<close>

definition spool_delete :: "string option \<Rightarrow> string \<Rightarrow> spool_dir \<Rightarrow> string option \<times> spool_dir" where
  "spool_delete fault k d =
     (case d of
        None \<Rightarrow> (None, d)
      | Some m \<Rightarrow>
          if go_get m (batch_name k) = None then (None, d)
          else case fault of
              Some err \<Rightarrow> (Some err, d)
            | None \<Rightarrow> (None, Some (go_delete (batch_name k) m)))"

definition spool_pending_usage :: "read_env \<Rightarrow> spool_dir \<Rightarrow> string + usage" where
  "spool_pending_usage r d =
     (case spool_list r d of
        Inl err \<Rightarrow> Inl err
      | Inr bs \<Rightarrow> Inr (foldl (\<lambda>m b. merge_usage m (pending_usage (bat_Records b))) [] bs))"

section \<open>What is spooled\<close>

definition fetch_batch :: "string \<Rightarrow> spool_dir \<Rightarrow> traffic_batch option" where
  "fetch_batch k d =
     (case go_get (entries d) (batch_name k) of Some (File (Doc b)) \<Rightarrow> Some b | _ \<Rightarrow> None)"

text \<open>The batches of a directory, and that every file of a batch can be read.\<close>

fun batch_of :: "string \<times> entry \<Rightarrow> traffic_batch list" where
  "batch_of (name, File (Doc b)) = (if has_suffix ''.json'' name then [b] else [])"
| "batch_of _ = []"

definition batches :: "spool_dir \<Rightarrow> traffic_batch multiset" where
  "batches d = \<Sum>\<^sub># (image_mset (mset \<circ> batch_of) (mset (entries d)))"

fun readable :: "string \<times> entry \<Rightarrow> bool" where
  "readable (name, File (Junk _)) \<longleftrightarrow> \<not> has_suffix ''.json'' name"
| "readable _ \<longleftrightarrow> True"

definition spool_ok :: "spool_dir \<Rightarrow> bool" where
  "spool_ok d \<longleftrightarrow> go_ok (entries d) \<and> list_all readable (entries d)"

lemma entries_Some [simp]: "entries (Some m) = m"
  by (simp add: entries_def)

lemma temp_not_batch [simp]: "\<not> has_suffix ''.json'' (temp_name k)"
  by (simp add: has_suffix_def temp_name_def)

lemma batch_is_batch [simp]: "has_suffix ''.json'' (batch_name k)"
  by (simp add: has_suffix_def batch_name_def)

lemma temp_batch_name [simp]: "temp_name k \<noteq> batch_name k'"
  by (metis temp_not_batch batch_is_batch)

lemma batch_temp_name [simp]: "batch_name k \<noteq> temp_name k'"
  by (rule temp_batch_name [symmetric])

lemma batch_name_inj [simp]: "batch_name k = batch_name k' \<longleftrightarrow> k = k'"
  by (simp add: batch_name_def)

lemma read_batch_files:
  assumes "list_all readable m"
  shows "collect (map (read_batch no_faults) (filter is_batch_file m)) = Inr (concat (map batch_of m))"
  using assms
proof (induction m)
  case (Cons x m)
  have "x = (fst x, snd x)" by simp
  then show ?case
    using Cons by (cases x; cases "snd x") (auto simp: no_faults_def split: content.splits)
qed simp

text \<open>Listing a readable directory gives its batches, oldest first.\<close>

lemma spool_list_batches:
  assumes "spool_ok d"
  shows "\<exists>bs. spool_list no_faults d = Inr bs \<and> mset bs = batches d \<and> sorted (map batch_order bs)"
proof (cases d)
  case None
  then show ?thesis by (simp add: spool_list_def batches_def entries_def)
next
  case (Some m)
  have "mset (concat (map batch_of m)) = batches d"
    by (simp add: batches_def entries_def Some mset_concat flip: sum_mset_sum_list)
  with Some assms read_batch_files [of m] show ?thesis
    by (simp add: spool_list_def no_faults_def spool_ok_def entries_def sorted_sort_slice)
qed

lemma batches_put:
  assumes "go_ok m"
  shows "batches (Some (go_put k v m)) = mset (batch_of (k, v)) + batches (Some (go_delete k m))"
  using assms by (simp add: batches_def entries_def mset_go_put)

lemma batches_put_temp:
  assumes "go_ok m" and "\<not> has_suffix ''.json'' k"
  shows "batches (Some (go_put k v m)) = batches (Some m)"
proof -
  have none: "batch_of (k, w) = []" for w
    using assms(2) by (cases "(k, w)" rule: batch_of.cases) auto
  have "batches (Some (go_delete k m)) = batches (Some m)"
    using none by (induction m) (auto simp: batches_def entries_def go_delete_def)
  with none show ?thesis by (simp add: batches_put [OF assms(1)])
qed

lemma spool_ok_put_temp: "go_ok m \<Longrightarrow> list_all readable m \<Longrightarrow> spool_ok (Some (go_put (temp_name k) (File c) m))"
  by (cases c) (auto simp: spool_ok_def entries_def go_ok_put list_all_put)

lemma spool_ok_Some: "spool_ok (Some m) \<longleftrightarrow> go_ok m \<and> list_all readable m"
  by (simp add: spool_ok_def entries_def)

text \<open>The states an \<^verbatim>\<open>Enqueue\<close> goes through.\<close>

lemma rename_batch:
  assumes "spool_ok (Some m)" and "go_get m (batch_name k) = None"
  shows "spool_ok (Some (rename_file (temp_name k) (batch_name k) (go_put (temp_name k) (File (Doc b)) m)))"
    and "batches (Some (rename_file (temp_name k) (batch_name k) (go_put (temp_name k) (File (Doc b)) m)))
      = add_mset b (batches (Some m))"
proof -
  let ?rest = "go_delete (temp_name k) m"
  have m: "go_ok m" "list_all readable m" using assms(1) by (simp_all add: spool_ok_Some)
  have eq: "rename_file (temp_name k) (batch_name k) (go_put (temp_name k) (File (Doc b)) m)
      = go_put (batch_name k) (File (Doc b)) ?rest"
    by (simp add: rename_file_def map_simps go_delete_put)
  show "spool_ok (Some (rename_file (temp_name k) (batch_name k) (go_put (temp_name k) (File (Doc b)) m)))"
    using m by (simp add: eq spool_ok_Some go_ok_put go_ok_delete list_all_put list_all_delete)
  have absent: "go_delete (batch_name k) ?rest = ?rest"
    using assms(2) by (intro go_delete_absent) (simp add: map_simps)
  have "batches (Some ?rest) = batches (Some m)"
    using batches_put_temp [OF m(1) temp_not_batch, of k "File (Junk [])"]
      batches_put [OF m(1), of "temp_name k" "File (Junk [])"] by simp
  then show "batches (Some (rename_file (temp_name k) (batch_name k) (go_put (temp_name k) (File (Doc b)) m)))
      = add_mset b (batches (Some m))"
    using m by (simp add: eq batches_put go_ok_delete absent)
qed

lemma batches_entries: "batches (Some (entries d)) = batches d"
  by (simp add: batches_def)

lemma spool_ok_entries: "spool_ok (Some (entries d)) = spool_ok d"
  by (simp add: spool_ok_def)

lemma enqueue_states:
  assumes "spool_ok d" and "go_get (entries d) (batch_name (bat_EventID b)) = None"
    and "d' \<in> set (snd (enqueue e b d))"
  shows "spool_ok d' \<and> (batches d' = batches d \<or> batches d' = add_mset b (batches d))"
proof -
  have ok: "spool_ok (Some (entries d))" "go_ok (entries d)" "list_all readable (entries d)"
    using assms(1) by (simp_all add: spool_ok_entries spool_ok_def)
  show ?thesis
    using assms(3) ok rename_batch [OF ok(1) assms(2)]
    by (auto simp: enqueue_def Let_def batches_entries batches_put_temp
        spool_ok_put_temp assms(1) spool_ok_entries split: option.splits if_splits)
qed

lemma enqueue_last:
  assumes "spool_ok d" and "go_get (entries d) (batch_name (bat_EventID b)) = None"
  shows "batches (last (snd (enqueue e b d)))
    = (if fst (enqueue e b d) = None then add_mset b (batches d) else batches d)"
proof -
  have ok: "spool_ok (Some (entries d))" "go_ok (entries d)" "list_all readable (entries d)"
    using assms(1) by (simp_all add: spool_ok_entries spool_ok_def)
  show ?thesis
    using ok rename_batch [OF ok(1) assms(2)]
    by (auto simp: enqueue_def Let_def batches_entries batches_put_temp
        split: option.splits)
qed

section \<open>The spool as an atomic store\<close>

lemma fetch_put_temp [simp]: "fetch_batch k (Some (go_put (temp_name j) c m)) = fetch_batch k (Some m)"
  by (simp add: fetch_batch_def map_simps)

lemma fetch_entries [simp]: "fetch_batch k (Some (entries d)) = fetch_batch k d"
  by (simp add: fetch_batch_def)

lemma fetch_rename [simp]:
  "fetch_batch k (Some (rename_file (temp_name j) (batch_name j) (go_put (temp_name j) (File (Doc b)) m)))
     = (if j = k then Some b else fetch_batch k (Some m))"
  by (simp add: fetch_batch_def get_rename map_simps)

lemma fetch_states:
  "d' \<in> set (snd (enqueue e b d)) \<Longrightarrow>
     fetch_batch k d' = fetch_batch k d \<or> bat_EventID b = k \<and> fetch_batch k d' = Some b"
  by (auto simp: enqueue_def Let_def split: option.splits if_splits)

lemma fetch_last:
  "fetch_batch k (last (snd (enqueue e b d)))
     = (if fst (enqueue e b d) = None \<and> bat_EventID b = k then Some b else fetch_batch k d)"
  by (auto simp: enqueue_def Let_def split: option.splits)

lemma enqueue_trace: "snd (enqueue e b d) \<noteq> []"
  by (auto simp: enqueue_def Let_def split: option.splits)

interpretation spool_file: atomic_store "fetch_batch k" enqueue "\<lambda>e b d. bat_EventID b = k" for k
proof unfold_locales
  show "snd (enqueue e b d) \<noteq> []" for e b d by (rule enqueue_trace)
  show "fetch_batch k d' = fetch_batch k d \<or> fetch_batch k d' = Some b"
    if "d' \<in> set (snd (enqueue e b d))" for d' e b d k
    using fetch_states [OF that] by blast
qed (simp_all add: fetch_last)

section \<open>Properties\<close>

lemma usage_fold_num:
  assumes "\<And>k. in_i64 (go_num m k)"
  shows "go_num (foldl (\<lambda>m b. merge_usage m (pending_usage (bat_Records b))) m bs) k
    = i64 (go_num m k + (\<Sum>b\<leftarrow>bs. bytes_for (bat_Records b) k))"
  using assms
proof (induction bs arbitrary: m)
  case Nil
  then show ?case by (simp add: wrap_simps)
next
  case (Cons b bs)
  have d: "distinct (map fst (pending_usage (bat_Records b)))"
    by (rule go_ok_distinct) (rule pending_usage_ok)
  note num = merge_usage_num [OF d Cons.prems]
  have "in_i64 (go_num (merge_usage m (pending_usage (bat_Records b))) k')" for k'
    by (simp add: num i64_range)
  from Cons.IH [OF this] show ?case
    by (simp add: num pending_usage_num wrap_simps algebra_simps)
qed


definition ex_batch :: "string \<Rightarrow> int \<Rightarrow> traffic_batch" where
  "ex_batch k v = \<lparr>bat_EventID = k, bat_NodeID = ''n'', bat_CollectedAt = 7, bat_Records =
     [\<lparr>rec_Name = [], rec_Value = v, rec_UserID = ''a'', rec_InboundID = ''de'', rec_Direction = ''uplink''\<rparr>]\<rparr>"

definition ex_env :: spool_env where
  "ex_env = \<lparr>se_mkdir = None, se_write = None, se_created = True, se_partial = ''unexpected end'', se_rename = None\<rparr>"

definition ex_dir :: spool_dir where
  "ex_dir = Some [(''0a.json'', File (Doc (ex_batch ''0a'' 5)))]"

lemma ex_dir_ok: "spool_ok ex_dir"
  by (simp add: spool_ok_def ex_dir_def entries_def go_ok_def)


text \<open>
  Usage waiting in the spool is counted exactly: for each user and inbound the pending
  usage is the 64-bit sum of the positive attributed counters over all spooled batches.
\<close>

lemma spool_pending_usage_total:
  assumes "spool_ok d"
  shows "\<exists>u. spool_pending_usage no_faults d = Inr u
    \<and> (\<forall>k. go_num u k = i64 (\<Sum>b \<in># batches d. bytes_for (bat_Records b) k))"
proof -
  from spool_list_batches [OF assms] obtain bs where
    bs: "spool_list no_faults d = Inr bs" "mset bs = batches d" by blast
  have "(\<Sum>b\<leftarrow>bs. bytes_for (bat_Records b) k) = (\<Sum>b \<in># batches d. bytes_for (bat_Records b) k)" for k
    by (simp flip: bs(2) sum_mset_sum_list)
  with bs show ?thesis
    by (simp add: spool_pending_usage_def usage_fold_num go_num_Nil)
qed

lemma spool_pending_usage_total_example:
  "\<exists>u. spool_pending_usage no_faults ex_dir = Inr u \<and> go_num u (UsageKey ''a'' ''de'') = 5"
proof -
  have "(\<Sum>b \<in># batches ex_dir. bytes_for (bat_Records b) (UsageKey ''a'' ''de'')) = 5"
    by (simp add: batches_def ex_dir_def entries_def has_suffix_def ex_batch_def bytes_for_def
        counts_usage_def record_key_def)
  then have "i64 (\<Sum>b \<in># batches ex_dir. bytes_for (bat_Records b) (UsageKey ''a'' ''de'')) = 5"
    by (simp add: i64_def)
  with spool_pending_usage_total [OF ex_dir_ok] show ?thesis by auto
qed

end
