(* ===== verification/Stats.thy ===== *)
theory Stats
  imports Builder
begin

text \<open>
  What Xray reports: the traffic counters of \<^verbatim>\<open>internal/xray/stats.go\<close> and the online IP lists
  of \<^verbatim>\<open>internal/xray/online.go\<close>, from the JSON document its API command prints to the records
  of the agent. \<open>unm\<close> stands for the JSON decoder, as in the builder. Field names are matched
  exactly, as Xray's protobuf encoder writes them.
\<close>

section \<open>Numbers\<close>

text \<open>
  \<^verbatim>\<open>int64(x)\<close> of a \<^verbatim>\<open>float64\<close>: truncation; out of range the result is implementation specific,
  on amd64 it is the least integer.
\<close>

definition trunc_rat :: "rat \<Rightarrow> int" where
  "trunc_rat q = (if q < 0 then - floor (- q) else floor q)"

definition float_to_int64 :: "rat \<Rightarrow> int64" where
  "float_to_int64 q = (if in_i64 (trunc_rat q) then trunc_rat q else - (2 ^ 63))"

definition to_int64 :: "any \<Rightarrow> string + int64" where
  "to_int64 v =
     (case v of
        AStr s \<Rightarrow> (case parse_int64 s of None \<Rightarrow> Inl (''strconv.ParseInt: parsing '' @ s) | Some n \<Rightarrow> Inr n)
      | ANum q \<Rightarrow> Inr (float_to_int64 q)
      | _ \<Rightarrow> Inl ''unsupported value type'')"

text \<open>
  \<^verbatim>\<open>anyInt64\<close> ignores the error of \<^verbatim>\<open>ParseInt\<close>, which returns 0 on a syntax error and the
  nearest bound on a range error.
\<close>

definition parse_int64_lax :: "string \<Rightarrow> int64" where
  "parse_int64_lax s =
     (let (neg, ds) = (if has_prefix ''-'' s then (True, tl s)
                       else if has_prefix ''+'' s then (False, tl s) else (False, s))
      in case parse_uint_digits ds of
           None \<Rightarrow> 0
         | Some n \<Rightarrow> max (- (2 ^ 63)) (min (2 ^ 63 - 1) (if neg then - n else n)))"

definition any_int64 :: "any option \<Rightarrow> int64" where
  "any_int64 v =
     (case v of
        Some (ANum q) \<Rightarrow> float_to_int64 q
      | Some (AStr s) \<Rightarrow> parse_int64_lax s
      | _ \<Rightarrow> 0)"

section \<open>Traffic counters\<close>

text \<open>Decoding into \<^verbatim>\<open>statsEnvelope\<close>: \<^verbatim>\<open>null\<close> and a missing field leave the zero value.\<close>

definition decode_string :: "any option \<Rightarrow> string + string" where
  "decode_string v =
     (case v of None \<Rightarrow> Inr [] | Some ANil \<Rightarrow> Inr [] | Some (AStr s) \<Rightarrow> Inr s
      | _ \<Rightarrow> Inl ''json: cannot unmarshal value into Go struct field of type string'')"

definition decode_stat :: "any \<Rightarrow> string + string \<times> any" where
  "decode_stat v =
     (case v of
        ANil \<Rightarrow> Inr ([], ANil)
      | AMap m \<Rightarrow>
          (case decode_string (go_get m ''name'') of
             Inl e \<Rightarrow> Inl e
           | Inr name \<Rightarrow> Inr (name, case go_get m ''value'' of None \<Rightarrow> ANil | Some x \<Rightarrow> x))
      | _ \<Rightarrow> Inl ''json: cannot unmarshal value into Go struct'')"

definition decode_envelope :: "any \<Rightarrow> string + (string \<times> any) list" where
  "decode_envelope v =
     (case v of
        ANil \<Rightarrow> Inr []
      | AMap m \<Rightarrow>
          (case go_get m ''stat'' of
             None \<Rightarrow> Inr [] | Some ANil \<Rightarrow> Inr []
           | Some (AArr xs) \<Rightarrow> collect (map decode_stat xs)
           | _ \<Rightarrow> Inl ''json: cannot unmarshal value into Go struct field of type []struct'')
      | _ \<Rightarrow> Inl ''json: cannot unmarshal value into Go value of type xray.statsEnvelope'')"

definition stat_record :: "string \<Rightarrow> int64 \<Rightarrow> traffic_record" where
  "stat_record name v =
     (case parse_accounting_name name of
        None \<Rightarrow> \<lparr>rec_Name = name, rec_Value = v, rec_UserID = [], rec_InboundID = [], rec_Direction = []\<rparr>
      | Some (u, i, d) \<Rightarrow>
          \<lparr>rec_Name = name, rec_Value = v, rec_UserID = u, rec_InboundID = i, rec_Direction = d\<rparr>)"

text \<open>The loop over the counters; a counter without a value is skipped.\<close>

fun stat_records :: "(string \<times> any) list \<Rightarrow> string + traffic_record list" where
  "stat_records [] = Inr []"
| "stat_records ((name, v) # ss) =
     (if v = ANil then stat_records ss
      else case to_int64 v of
          Inl e \<Rightarrow> Inl (''stat '' @ name @ '': '' @ e)
        | Inr n \<Rightarrow>
            (case stat_records ss of Inl e \<Rightarrow> Inl e | Inr rs \<Rightarrow> Inr (stat_record name n # rs)))"

definition parse_stats :: "unmarshal \<Rightarrow> string \<Rightarrow> string + traffic_record list" where
  "parse_stats unm b =
     (case unm b of
        Inl e \<Rightarrow> Inl e
      | Inr v \<Rightarrow> (case decode_envelope v of Inl e \<Rightarrow> Inl e | Inr ss \<Rightarrow> stat_records ss))"

text \<open>\<^verbatim>\<open>QueryStats\<close>: the arguments of the command, and its output or error.\<close>

definition query_stats ::
  "unmarshal \<Rightarrow> (string list \<Rightarrow> string + string) \<Rightarrow> string \<Rightarrow> bool \<Rightarrow> string + traffic_record list" where
  "query_stats unm exec api reset =
     (case exec ([''api'', ''statsquery'', ''--server='' @ api] @ (if reset then [''-reset=true''] else [])) of
        Inl e \<Rightarrow> Inl (''statsquery: '' @ e)
      | Inr out \<Rightarrow> parse_stats unm out)"

section \<open>Online sessions\<close>

text \<open>Type assertions to a map and to a string, with the zero value where they fail.\<close>

definition as_map :: "any option \<Rightarrow> obj" where
  "as_map v = (case v of Some (AMap m) \<Rightarrow> m | _ \<Rightarrow> [])"

definition as_string :: "any option \<Rightarrow> string" where
  "as_string v = (case v of Some (AStr s) \<Rightarrow> s | _ \<Rightarrow> [])"

definition as_list :: "any option \<Rightarrow> any list" where
  "as_list v = (case v of Some (AArr xs) \<Rightarrow> xs | _ \<Rightarrow> [])"

definition see :: "int64 \<Rightarrow> int64 \<Rightarrow> int64" where
  "see ts last_seen = (if last_seen < ts then ts else last_seen)"

text \<open>One element of the list of IPs.\<close>

definition add_ip :: "string list \<times> int64 \<Rightarrow> any \<Rightarrow> string list \<times> int64" where
  "add_ip acc iv =
     (let im = as_map (Some iv); ip = as_string (go_get im ''ip'')
      in if ip = [] then acc
         else (fst acc @ [ip],
           see (any_int64 (go_get im ''last_seen'')) (see (any_int64 (go_get im ''lastSeen'')) (snd acc))))"

definition add_ip_entry :: "string list \<times> int64 \<Rightarrow> string \<times> any \<Rightarrow> string list \<times> int64" where
  "add_ip_entry acc e = (fst acc @ [fst e], see (any_int64 (Some (snd e))) (snd acc))"

definition online_ips :: "obj \<Rightarrow> string list \<times> int64" where
  "online_ips u =
     (let acc = foldl add_ip ([], 0) (as_list (go_get u ''ips''))
      in if fst acc = [] then foldl add_ip_entry acc (as_map (go_get u ''ips'')) else acc)"

definition online_record :: "any \<Rightarrow> session_record option" where
  "online_record item =
     (let u = as_map (Some item)
      in case parse_accounting_email (as_string (go_get u ''email'')) of
          None \<Rightarrow> None
        | Some (uid, iid) \<Rightarrow>
            let (ips, last_seen) = online_ips u
            in Some \<lparr>ses_UserID = uid, ses_InboundID = iid, ses_IPs = sort ips, ses_LastSeen = last_seen,
                 ses_RecentConnections = 0, ses_Source = ''xray-online''\<rparr>)"

definition session_order :: "session_record \<Rightarrow> string \<times> string" where
  "session_order r = (ses_InboundID r, ses_UserID r)"

definition parse_online_sessions :: "unmarshal \<Rightarrow> string \<Rightarrow> string + session_record list" where
  "parse_online_sessions unm b =
     (case unmarshal_map unm b of
        Inl e \<Rightarrow> Inl e
      | Inr raw \<Rightarrow>
          Inr (sort_slice session_order
            (List.map_filter online_record (as_list (go_get (clone_map raw) ''users'')))))"

definition query_online_sessions ::
  "unmarshal \<Rightarrow> (string list \<Rightarrow> string + string) \<Rightarrow> string \<Rightarrow> string + session_record list" where
  "query_online_sessions unm exec api =
     (case exec [''api'', ''statsonlineiplist'', ''--server='' @ api, ''-all''] of
        Inl e \<Rightarrow> Inl (''statsonlineiplist: '' @ e)
      | Inr out \<Rightarrow> parse_online_sessions unm out)"

section \<open>Decimal round trip\<close>

lemma digit_val_char: "n < 10 \<Longrightarrow> digit_val (digit_char n) = Some (int n)"
proof -
  assume "n < 10"
  then have "n = 0 \<or> n = 1 \<or> n = 2 \<or> n = 3 \<or> n = 4 \<or> n = 5 \<or> n = 6 \<or> n = 7 \<or> n = 8 \<or> n = 9"
    by arith
  then show ?thesis by (elim disjE) (simp_all, code_simp+)
qed

lemma digits_val_append:
  "digits_val acc (xs @ ys) = (case digits_val acc xs of None \<Rightarrow> None | Some a \<Rightarrow> digits_val a ys)"
  by (induction xs arbitrary: acc) (auto split: option.split)

lemma digits_show_nat: "digits_val 0 (show_nat n) = Some (int n)"
proof (induction n rule: show_nat.induct)
  case (1 n)
  show ?case
  proof (cases "n < 10")
    case True
    then show ?thesis by (simp add: show_nat.simps [of n] digit_val_char)
  next
    case False
    have "int n = 10 * int (n div 10) + int (n mod 10)"
      by presburger
    with False 1 show ?thesis
      by (simp add: show_nat.simps [of n] digits_val_append digit_val_char)
  qed
qed

lemma show_nat_head: "\<exists>k < 10. \<exists>cs. show_nat n = digit_char k # cs"
proof (induction n rule: show_nat.induct)
  case (1 n)
  then show ?case by (cases "n < 10") (auto simp: show_nat.simps [of n])
qed

lemma digit_not_sign: "k < 10 \<Longrightarrow> digit_char k \<noteq> CHR ''-'' \<and> digit_char k \<noteq> CHR ''+''"
proof -
  have "digit_val (CHR ''-'') = None" "digit_val (CHR ''+'') = None" by code_simp+
  then show "k < 10 \<Longrightarrow> digit_char k \<noteq> CHR ''-'' \<and> digit_char k \<noteq> CHR ''+''"
    using digit_val_char [of k] by auto
qed

lemma parse_show_int: "in_i64 n \<Longrightarrow> parse_int64 (show_int n) = Some n"
proof -
  assume n: "in_i64 n"
  obtain k cs where k: "k < 10" "show_nat (nat n) = digit_char k # cs" using show_nat_head by blast
  have ne: "show_nat m \<noteq> []" for m using show_nat_head [of m] by auto
  show ?thesis
    using n k digit_not_sign [OF k(1)] digits_show_nat [of "nat n"] digits_show_nat [of "nat (- n)"] ne
    by (auto simp: parse_int64_def show_int_def parse_uint_digits_def has_prefix_def Let_def)
qed

section \<open>Properties\<close>

text \<open>The document in which Xray reports a counter of a user.\<close>

definition counter_name :: "string \<Rightarrow> string \<Rightarrow> string \<Rightarrow> string" where
  "counter_name uid iid dir = ''user>>>'' @ accounting_email uid iid @ ''>>>traffic>>>'' @ dir"

definition stat_json :: "string \<times> any \<Rightarrow> any" where
  "stat_json s = AMap [(''name'', AStr (fst s)), (''value'', snd s)]"

definition stats_doc :: "(string \<times> any) list \<Rightarrow> any" where
  "stats_doc ss = AMap [(''stat'', AArr (map stat_json ss))]"

lemma decode_stats_doc: "decode_envelope (stats_doc ss) = Inr ss"
proof -
  have "collect (map decode_stat (map stat_json ss)) = Inr (map (\<lambda>s. s) ss)"
    unfolding map_map by (rule collect_map_Inr_total) (simp add: decode_stat_def stat_json_def decode_string_def)
  then show ?thesis by (simp add: decode_envelope_def stats_doc_def)
qed

text \<open>A counter of a user, with its value in decimal, as protobuf writes 64-bit integers in JSON.\<close>

type_synonym counter = "string \<times> string \<times> string \<times> int64"

fun counter_stat :: "counter \<Rightarrow> string \<times> any" where
  "counter_stat (uid, iid, dir, n) = (counter_name uid iid dir, AStr (show_int n))"

fun counter_record :: "counter \<Rightarrow> traffic_record" where
  "counter_record (uid, iid, dir, n) =
     \<lparr>rec_Name = counter_name uid iid dir, rec_Value = n, rec_UserID = sanitize uid,
      rec_InboundID = sanitize iid, rec_Direction = dir\<rparr>"

fun counter_ok :: "counter \<Rightarrow> bool" where
  "counter_ok (uid, iid, dir, n) \<longleftrightarrow> uid \<noteq> [] \<and> iid \<noteq> [] \<and> CHR ''>'' \<notin> set dir \<and> in_i64 n"

lemma stat_record_counter:
  "counter_ok (uid, iid, dir, n) \<Longrightarrow> stat_record (counter_name uid iid dir) n = counter_record (uid, iid, dir, n)"
  by (simp add: stat_record_def counter_name_def parse_name_roundtrip del: append_assoc append_Cons)

lemma stat_records_counters:
  "list_all counter_ok cs \<Longrightarrow> stat_records (map counter_stat cs) = Inr (map counter_record cs)"
proof (induction cs)
  case (Cons c cs)
  obtain uid iid dir n where c: "c = (uid, iid, dir, n)" by (cases c) auto
  have ok: "counter_ok (uid, iid, dir, n)" using Cons.prems by (simp add: c)
  then have "to_int64 (AStr (show_int n)) = Inr n" by (simp add: to_int64_def parse_show_int)
  with Cons stat_record_counter [OF ok] show ?case by (simp add: c)
qed simp

text \<open>
  Traffic is attributed without loss. Whatever counters Xray reports for users of the
  agent's configuration, their 64-bit values written in decimal, parsing the report gives one
  record per counter, in order, with its exact value, direction, and the (sanitized) user and
  inbound whose accounting email the counter is named after.
\<close>

lemma parse_stats_counters:
  assumes "list_all counter_ok cs" and "unm b = Inr (stats_doc (map counter_stat cs))"
  shows "parse_stats unm b = Inr (map counter_record cs)"
  using assms by (simp add: parse_stats_def decode_stats_doc stat_records_counters)

section \<open>Online sessions are reported exactly\<close>

lemma parse_show_int_lax: "in_i64 n \<Longrightarrow> parse_int64_lax (show_int n) = n"
proof -
  assume n: "in_i64 n"
  obtain k cs where k: "k < 10" "show_nat (nat n) = digit_char k # cs" using show_nat_head by blast
  have ne: "show_nat m \<noteq> []" for m using show_nat_head [of m] by auto
  show ?thesis
    using n k digit_not_sign [OF k(1)] digits_show_nat [of "nat n"] digits_show_nat [of "nat (- n)"] ne
    by (auto simp: parse_int64_lax_def show_int_def parse_uint_digits_def has_prefix_def Let_def in_i64_def)
qed

text \<open>A user's online IPs, each with the time it was last seen.\<close>

type_synonym online = "string \<times> string \<times> (string \<times> int64) list"

fun ip_json :: "string \<times> int64 \<Rightarrow> any" where
  "ip_json (ip, t) = AMap [(''ip'', AStr ip), (''lastSeen'', AStr (show_int t))]"

fun online_json :: "online \<Rightarrow> any" where
  "online_json (uid, iid, ips) =
     AMap [(''email'', AStr (accounting_email uid iid)), (''ips'', AArr (map ip_json ips))]"

definition online_doc :: "online list \<Rightarrow> any" where
  "online_doc os = AMap [(''users'', AArr (map online_json os))]"

fun online_session :: "online \<Rightarrow> session_record" where
  "online_session (uid, iid, ips) =
     \<lparr>ses_UserID = sanitize uid, ses_InboundID = sanitize iid, ses_IPs = sort (map fst ips),
      ses_LastSeen = Max (insert 0 (snd ` set ips)), ses_RecentConnections = 0, ses_Source = ''xray-online''\<rparr>"

fun online_ok :: "online \<Rightarrow> bool" where
  "online_ok (uid, iid, ips) \<longleftrightarrow>
     uid \<noteq> [] \<and> iid \<noteq> [] \<and> list_all (\<lambda>(ip, t). ip \<noteq> [] \<and> in_i64 t) ips"

lemma see_max: "see a b = max a b"
  by (simp add: see_def max_def)

lemma fold_add_ip:
  assumes "list_all (\<lambda>(ip, t). ip \<noteq> [] \<and> in_i64 t) ips" and "0 \<le> m"
  shows "foldl add_ip (xs, m) (map ip_json ips) = (xs @ map fst ips, Max (insert m (snd ` set ips)))"
  using assms
proof (induction ips arbitrary: xs m)
  case (Cons x ips)
  obtain ip t where x: "x = (ip, t)" by (cases x)
  have "add_ip (xs, m) (ip_json (ip, t)) = (xs @ [ip], max t m)"
    using Cons.prems
    by (simp add: x add_ip_def Let_def as_map_def as_string_def any_int64_def parse_show_int_lax see_max max_def)
  moreover have "Max (insert (max t m) (snd ` set ips)) = Max (insert m (insert t (snd ` set ips)))"
    by (cases "snd ` set ips = {}") (simp_all add: max.assoc max.commute max.left_commute)
  ultimately show ?case using Cons by (simp add: x)
qed simp

lemma online_record_json:
  assumes "online_ok x"
  shows "online_record (online_json x) = Some (online_session x)"
proof -
  obtain uid iid ips where x: "x = (uid, iid, ips)" by (cases x) auto
  have "online_ips [(''email'', AStr (accounting_email uid iid)), (''ips'', AArr (map ip_json ips))]
      = (map fst ips, Max (insert 0 (snd ` set ips)))"
    using fold_add_ip [of ips 0 "[]"] assms
    by (simp add: x online_ips_def as_list_def as_map_def Let_def)
  with assms show ?thesis
    by (simp add: x online_record_def Let_def as_map_def as_string_def parse_email_roundtrip)
qed

text \<open>
  Online sessions are reported exactly: a report that lists the IPs of users under
  their accounting emails gives one session record per user, ordered by inbound and user, with
  the (sanitized) identity, all of its IPs in order, and the latest time any of them was seen.
\<close>

lemma parse_online_sessions_exact:
  assumes "list_all online_ok os" and "unm b = Inr (online_doc os)"
  shows "parse_online_sessions unm b = Inr (sort_slice session_order (map online_session os))"
proof -
  have "List.map_filter online_record (map online_json os) = map online_session os"
    using assms(1) by (induction os) (auto simp: List.map_filter_simps online_record_json)
  then show ?thesis
    using assms(2)
    by (simp add: parse_online_sessions_def unmarshal_map_def online_doc_def clone_map_def as_list_def)
qed

lemma parse_online_sessions_exact_witness:
  "parse_online_sessions (\<lambda>_. Inr (online_doc [(''25'', ''101'', [(''10.0.0.9'', 170), (''10.0.0.2'', 165)])])) []
     = Inr (sort_slice session_order (map online_session [(''25'', ''101'', [(''10.0.0.9'', 170), (''10.0.0.2'', 165)])]))"
  by (rule parse_online_sessions_exact) (simp_all add: in_i64_def)

end
