(* ===== verification/CorePolicy.thy ===== *)
theory CorePolicy
  imports Builder Files
begin

text \<open>
  The limiters: the policy file that the patched Xray core reads,
  \<^verbatim>\<open>internal/limits/policyfile.go\<close>, and the optional HTTP backend, \<^verbatim>\<open>internal/limits/limits.go\<close>.
\<close>

section \<open>The core policy document\<close>

record core_policy =
  cp_UploadBPS :: int64
  cp_DownloadBPS :: int64
  cp_ConnectionLimit :: int
  cp_IPLimit :: int
  cp_Blocked :: bool
  cp_TombstoneUntil :: int64
  cp_SessionGeneration :: int64

record core_policy_file =
  cpf_Version :: int
  cpf_GeneratedAt :: int64
  cpf_Mode :: string
  cpf_Users :: "(string, core_policy) gomap"

definition removed_user_tombstone :: gotime where
  "removed_user_tombstone = 5 * 60 * second_ns"

definition user_policy :: "managed_inbound \<Rightarrow> managed_user \<Rightarrow> core_policy" where
  "user_policy i u =
     \<lparr>cp_UploadBPS = lim_UploadBPS (usr_Limits u), cp_DownloadBPS = lim_DownloadBPS (usr_Limits u),
      cp_ConnectionLimit = lim_ConnectionLimit (usr_Limits u),
      cp_IPLimit = (if equal_fold (inb_IPLimitMode i) ''off'' then 0 else lim_IPLimit (usr_Limits u)),
      cp_Blocked = (\<not> usr_Enabled u), cp_TombstoneUntil = 0,
      cp_SessionGeneration = usr_SessionGeneration u\<rparr>"

definition user_key :: "managed_inbound \<times> managed_user \<Rightarrow> string" where
  "user_key iu = accounting_email (usr_ID (snd iu)) (inb_ID (fst iu))"

definition current_policies :: "desired_state \<Rightarrow> (string, core_policy) gomap" where
  "current_policies s = foldl (\<lambda>m iu. go_put (user_key iu) (user_policy (fst iu) (snd iu)) m) [] (all_users s)"

definition tombstone :: "gotime \<Rightarrow> core_policy \<Rightarrow> core_policy option" where
  "tombstone now p =
     (let till = (if cp_TombstoneUntil p = 0 then unix_sec (now + removed_user_tombstone)
                  else cp_TombstoneUntil p)
      in if till > unix_sec now
         then Some (p\<lparr>cp_TombstoneUntil := till, cp_Blocked := True, cp_UploadBPS := 0,
           cp_DownloadBPS := 0, cp_ConnectionLimit := 0, cp_IPLimit := 0\<rparr>)
         else None)"

text \<open>The loop over the users of the old document.\<close>

definition keep_removed ::
  "gotime \<Rightarrow> (string, core_policy) gomap \<Rightarrow> string \<times> core_policy \<Rightarrow> (string, core_policy) gomap" where
  "keep_removed now m e =
     (if go_get m (fst e) \<noteq> None then m
      else case tombstone now (snd e) of None \<Rightarrow> m | Some p \<Rightarrow> go_put (fst e) p m)"

definition policy_doc :: "desired_state \<Rightarrow> gotime \<Rightarrow> core_policy_file content option \<Rightarrow> core_policy_file" where
  "policy_doc s now old =
     \<lparr>cpf_Version = 1, cpf_GeneratedAt = unix_sec now,
      cpf_Mode = (if ds_Mode s = [] then ''active'' else ds_Mode s),
      cpf_Users =
        (case old of
           Some (Doc d) \<Rightarrow>
             if cpf_Version d = 1 then foldl (keep_removed now) (current_policies s) (cpf_Users d)
             else current_policies s
         | _ \<Rightarrow> current_policies s)\<rparr>"

text \<open>
  \<^verbatim>\<open>WriteCorePolicy\<close>: the error, and the states of the directory on the way. \<open>unreadable\<close> says
  that reading the old file fails for another reason than that it is absent.
\<close>

definition write_core_policy ::
  "core_policy_file content write_env \<Rightarrow> bool \<Rightarrow> string \<Rightarrow> desired_state \<Rightarrow> gotime
     \<Rightarrow> core_policy_file content files \<Rightarrow> string option \<times> core_policy_file content files list" where
  "write_core_policy e unreadable path s now fs =
     (if path = [] then (None, [fs])
      else atomic_write e path (Doc (policy_doc s now (if unreadable then None else go_get fs path))) fs)"

definition limited :: "user_limits \<Rightarrow> bool" where
  "limited l \<longleftrightarrow> lim_UploadBPS l > 0 \<or> lim_DownloadBPS l > 0 \<or> lim_ConnectionLimit l > 0 \<or> lim_IPLimit l > 0"

definition core_policy_emails :: "desired_state \<Rightarrow> string list" where
  "core_policy_emails s =
     sort (map user_key (filter (\<lambda>(i, u). \<not> usr_Enabled u \<or> limited (usr_Limits u)) (all_users s)))"

definition needs_core :: "gotime \<Rightarrow> core_policy \<Rightarrow> bool" where
  "needs_core now p \<longleftrightarrow>
     \<not> (cp_TombstoneUntil p > 0 \<and> cp_TombstoneUntil p \<le> unix_sec now)
       \<and> (cp_Blocked p \<or> cp_UploadBPS p > 0 \<or> cp_DownloadBPS p > 0 \<or> cp_ConnectionLimit p > 0 \<or> cp_IPLimit p > 0)"

definition strict_policy_emails :: "core_policy_file content option \<Rightarrow> gotime \<Rightarrow> string list" where
  "strict_policy_emails f now =
     (case f of
        Some (Doc d) \<Rightarrow>
          if cpf_Version d \<noteq> 1 then []
          else sort (map fst (filter (\<lambda>e. needs_core now (snd e)) (cpf_Users d)))
      | _ \<Rightarrow> [])"

section \<open>The HTTP backend\<close>

datatype backend = ObserveOnly | HTTPBackend string

definition new_backend :: "string \<Rightarrow> backend" where
  "new_backend url = (let b = trim_right ''/'' url in if b = [] then ObserveOnly else HTTPBackend b)"

text \<open>\<^verbatim>\<open>url.PathEscape\<close>: the bytes that stay in a path segment, and the escape of the others.\<close>

definition upper_hex :: "nat \<Rightarrow> char" where
  "upper_hex n = (if n < 10 then char_of (48 + n) else char_of (55 + n))"

definition path_safe :: "char \<Rightarrow> bool" where
  "path_safe c \<longleftrightarrow>
     list_ex (\<lambda>(lo, hi). of_char lo \<le> (of_char c :: nat) \<and> (of_char c :: nat) \<le> of_char hi)
       [(CHR ''0'', CHR ''9''), (CHR ''A'', CHR ''Z''), (CHR ''a'', CHR ''z'')]
     \<or> List.member ''-_.~$&+:=@'' c"

definition escape_byte :: "char \<Rightarrow> string" where
  "escape_byte c =
     (if path_safe c then [c]
      else [CHR ''%'', upper_hex (of_char c div 16), upper_hex (of_char c mod 16)])"

definition path_escape :: "string \<Rightarrow> string" where
  "path_escape s = concat (map escape_byte s)"

definition limits_path :: "string \<Rightarrow> string \<Rightarrow> string \<Rightarrow> string" where
  "limits_path node inb usr =
     ''/v1/limits/'' @ path_escape node @ ''/'' @ path_escape inb @ ''/'' @ path_escape usr"

record limit_request =
  req_Method :: string
  req_URL :: string
  req_Body :: "user_limits option"

text \<open>The transport: an error, or the status and body of the response.\<close>

type_synonym 'x transport = "limit_request \<Rightarrow> 'x \<Rightarrow> (string + int \<times> string) \<times> 'x"

definition backend_do ::
  "'x transport \<Rightarrow> string \<Rightarrow> string \<Rightarrow> string \<Rightarrow> string \<Rightarrow> string \<Rightarrow> user_limits option \<Rightarrow> 'x \<Rightarrow> string option \<times> 'x" where
  "backend_do tr base method node inb usr body x =
     (case tr \<lparr>req_Method = method, req_URL = base @ limits_path node inb usr, req_Body = body\<rparr> x of
        (Inl e, x') \<Rightarrow> (Some e, x')
      | (Inr (status, text), x') \<Rightarrow>
          (if status < 200 \<or> status \<ge> 300
           then Some (''limiter backend status='' @ show_int status @ '' body='' @ trim_space (take 2048 text))
           else None, x'))"

definition backend_unavailable :: string where
  "backend_unavailable = ''strict limiter backend not configured''"

fun apply_user :: "'x transport \<Rightarrow> backend \<Rightarrow> string \<Rightarrow> string \<Rightarrow> string \<Rightarrow> user_limits \<Rightarrow> 'x \<Rightarrow> string option \<times> 'x" where
  "apply_user tr ObserveOnly node inb usr l x =
     (if lim_UploadBPS l > 0 \<or> lim_DownloadBPS l > 0 \<or> lim_ConnectionLimit l > 0
      then Some backend_unavailable else None, x)"
| "apply_user tr (HTTPBackend base) node inb usr l x = backend_do tr base ''PUT'' node inb usr (Some l) x"

fun remove_user :: "'x transport \<Rightarrow> backend \<Rightarrow> string \<Rightarrow> string \<Rightarrow> string \<Rightarrow> 'x \<Rightarrow> string option \<times> 'x" where
  "remove_user tr ObserveOnly node inb usr x = (None, x)"
| "remove_user tr (HTTPBackend base) node inb usr x = backend_do tr base ''DELETE'' node inb usr None x"

section \<open>Lemmas on the document\<close>

lemma tombstone_eq:
  "tombstone now p =
     (if cp_TombstoneUntil p = 0 \<or> cp_TombstoneUntil p > unix_sec now
      then Some (p\<lparr>cp_TombstoneUntil := (if cp_TombstoneUntil p = 0 then unix_sec now + 300 else cp_TombstoneUntil p),
        cp_Blocked := True, cp_UploadBPS := 0, cp_DownloadBPS := 0, cp_ConnectionLimit := 0, cp_IPLimit := 0\<rparr>)
      else None)"
  using unix_sec_add [of now 300]
  by (auto simp: tombstone_def Let_def removed_user_tombstone_def second_ns_def)

lemma current_policies_get:
  "go_get (current_policies s) e =
     map_option (\<lambda>iu. user_policy (fst iu) (snd iu)) (find (\<lambda>iu. user_key iu = e) (rev (all_users s)))"
  unfolding current_policies_def by (simp add: gm.fill_get split: option.split)

lemma current_policies_ok: "go_ok (current_policies s)"
  unfolding current_policies_def by (rule gm.fill_ok) simp

lemma current_policies_None: "go_get (current_policies s) e = None \<longleftrightarrow> e \<notin> user_key ` set (all_users s)"
  by (auto simp: current_policies_get find_None_iff)

lemma keep_removed_ok: "go_ok m \<Longrightarrow> go_ok (keep_removed now m x)"
  by (simp add: keep_removed_def go_ok_put split: option.split)

lemma keep_removed_get:
  "go_get (keep_removed now m (k, p)) e =
     (if e = k \<and> go_get m k = None then tombstone now p else go_get m e)"
  by (auto simp: keep_removed_def map_simps split: option.split)

text \<open>Each lookup in the new document: the current user, else the tombstone of the old entry.\<close>

lemma keep_all_get:
  assumes "distinct (map fst us)"
  shows "go_get (foldl (keep_removed now) m us) e =
    (case go_get m e of Some p \<Rightarrow> Some p | None \<Rightarrow> Option.bind (go_get us e) (tombstone now))"
  using assms
proof (induction us arbitrary: m)
  case Nil
  then show ?case by (simp split: option.split)
next
  case (Cons x us)
  obtain k p where x: "x = (k, p)" by (cases x)
  have fresh: "go_get us k = None" using Cons.prems by (simp add: x map_of_eq_None_iff)
  show ?case
    using Cons.IH [of "keep_removed now m (k, p)"] Cons.prems fresh
    by (auto simp: x keep_removed_get split: option.split)
qed

definition old_users :: "core_policy_file content option \<Rightarrow> (string, core_policy) gomap" where
  "old_users f = (case f of Some (Doc d) \<Rightarrow> if cpf_Version d = 1 then cpf_Users d else [] | _ \<Rightarrow> [])"

lemma policy_doc_users: "cpf_Users (policy_doc s now old) = foldl (keep_removed now) (current_policies s) (old_users old)"
  by (simp add: policy_doc_def old_users_def split: option.split content.split)

lemma policy_doc_ok: "go_ok (cpf_Users (policy_doc s now old))"
  unfolding policy_doc_users by (rule foldl_invariant) (simp_all add: current_policies_ok keep_removed_ok)

lemma policy_doc_get:
  assumes "go_ok (old_users old)"
  shows "go_get (cpf_Users (policy_doc s now old)) e =
    (case find (\<lambda>iu. user_key iu = e) (rev (all_users s)) of
       Some iu \<Rightarrow> Some (user_policy (fst iu) (snd iu))
     | None \<Rightarrow> Option.bind (go_get (old_users old) e) (tombstone now))"
  by (simp add: policy_doc_users keep_all_get [OF go_ok_distinct [OF assms]] current_policies_get
      split: option.split)

section \<open>Lemmas on paths\<close>

lemma upper_hex_code: "n < 16 \<Longrightarrow> of_char (upper_hex n) = (if n < 10 then 48 + n else 55 + n)"
  by (simp add: upper_hex_def)

lemma upper_hex_inj: "m < 16 \<Longrightarrow> n < 16 \<Longrightarrow> upper_hex m = upper_hex n \<longleftrightarrow> m = n"
proof
  assume m: "m < 16" and n: "n < 16" and "upper_hex m = upper_hex n"
  then have "(of_char (upper_hex m) :: nat) = of_char (upper_hex n)" by simp
  then show "m = n" using m n by (auto simp: upper_hex_code split: if_splits)
qed simp

lemma upper_hex_not_slash: "n < 16 \<Longrightarrow> upper_hex n \<noteq> CHR ''/''"
proof
  assume n: "n < 16" and "upper_hex n = CHR ''/''"
  then have "(of_char (upper_hex n) :: nat) = of_char (CHR ''/'')" by simp
  then show False using n by (auto simp: upper_hex_code split: if_splits)
qed

lemma not_path_safe: "\<not> path_safe (CHR ''/'')" "\<not> path_safe (CHR ''%'')"
  by code_simp+

lemma of_char_div: "(of_char (c :: char) :: nat) div 16 < 16"
proof -
  have "(of_char c :: nat) < 256" by (metis of_char_mod_256 mod_less_divisor zero_less_numeral)
  then show ?thesis by (simp add: less_mult_imp_div_less)
qed

lemma escape_byte_no_slash: "CHR ''/'' \<notin> set (escape_byte c)"
  using not_path_safe upper_hex_not_slash [OF of_char_div, of c] upper_hex_not_slash [of "of_char c mod 16"]
  by (auto simp: escape_byte_def)

lemma path_escape_no_slash: "CHR ''/'' \<notin> set (path_escape s)"
  using escape_byte_no_slash by (auto simp: path_escape_def)

lemma escape_byte_prefix: "escape_byte c @ xs = escape_byte d @ ys \<Longrightarrow> c = d \<and> xs = ys"
proof -
  assume eq: "escape_byte c @ xs = escape_byte d @ ys"
  have "c = d" if "\<not> path_safe c" "\<not> path_safe d"
  proof -
    have "(of_char c :: nat) div 16 = of_char d div 16" and "(of_char c :: nat) mod 16 = of_char d mod 16"
      using eq that by (simp_all add: escape_byte_def upper_hex_inj of_char_div)
    then have "(of_char c :: nat) = of_char d" by (metis div_mult_mod_eq)
    then show ?thesis by simp
  qed
  with eq not_path_safe show ?thesis
    by (auto simp: escape_byte_def split: if_splits)
qed

lemma escape_byte_nonempty [simp]: "escape_byte c \<noteq> []"
  by (simp add: escape_byte_def)

lemma path_escape_inj: "path_escape s = path_escape t \<Longrightarrow> s = t"
proof (induction s arbitrary: t)
  case Nil
  then show ?case by (cases t) (simp_all add: path_escape_def)
next
  case (Cons c s)
  then obtain d t' where t: "t = d # t'" by (cases t) (simp_all add: path_escape_def)
  have "escape_byte c @ path_escape s = escape_byte d @ path_escape t'"
    using Cons.prems by (simp add: t path_escape_def)
  from escape_byte_prefix [OF this] Cons.IH t show ?case by simp
qed

lemma split_at_first:
  assumes "a \<notin> set xs" and "a \<notin> set xs'" and "xs @ a # ys = xs' @ a # ys'"
  shows "xs = xs' \<and> ys = ys'"
  using assms
proof (induction xs arbitrary: xs')
  case Nil
  then show ?case by (cases xs') auto
next
  case (Cons x xs)
  then show ?case by (cases xs') auto
qed

section \<open>Properties\<close>

text \<open>
  Requests to the limiter backend never mix up identities: two calls address the same
  path only for the same node, inbound and user, whatever bytes their IDs hold.
\<close>

lemma limits_path_injective:
  "limits_path n i u = limits_path n' i' u' \<longleftrightarrow> n = n' \<and> i = i' \<and> u = u'"
proof
  assume "limits_path n i u = limits_path n' i' u'"
  then have eq: "path_escape n @ CHR ''/'' # (path_escape i @ CHR ''/'' # path_escape u)
      = path_escape n' @ CHR ''/'' # (path_escape i' @ CHR ''/'' # path_escape u')"
    by (simp add: limits_path_def)
  note 1 = split_at_first [OF path_escape_no_slash path_escape_no_slash eq]
  note 2 = split_at_first [OF path_escape_no_slash path_escape_no_slash conjunct2 [OF 1]]
  from 1 2 show "n = n' \<and> i = i' \<and> u = u'" using path_escape_inj by blast
qed simp

text \<open>
  Claim C25. A running core never reads a partial policy file. In every state the directory
  passes through while the policy is written, and so after a crash at any of them, the file is
  either the old one or the complete new document; with an error it is the old one, without an
  error the new one.
\<close>

theorem write_core_policy_atomic:
  assumes "path \<noteq> []" and "fresh_env path e fs"
  shows "(\<forall>fs' \<in> set (snd (write_core_policy e False path s now fs)).
        go_get fs' path = go_get fs path \<or> go_get fs' path = Some (Doc (policy_doc s now (go_get fs path))))
    \<and> go_get (last (snd (write_core_policy e False path s now fs))) path =
        (if fst (write_core_policy e False path s now fs) = None
         then Some (Doc (policy_doc s now (go_get fs path))) else go_get fs path)"
  using stored.during [OF assms(2)] stored.write_read [OF assms(2)] assms(1)
  by (simp add: write_core_policy_def)

definition ex_write_env :: "core_policy_file content write_env" where
  "ex_write_env = \<lparr>we_temp = ''tmp'', we_partial = Junk ''unexpected end'', we_fault = (\<lambda>_. None)\<rparr>"

theorem write_core_policy_atomic_witness:
  "go_get (last (snd (write_core_policy ex_write_env False ''limits.json'' zero_state 0 []))) ''limits.json''
     = Some (Doc (policy_doc zero_state 0 None))"
proof -
  have fresh: "fresh_env ''limits.json'' ex_write_env []"
    by (simp add: fresh_env_def ex_write_env_def)
  have "fst (write_core_policy ex_write_env False ''limits.json'' zero_state 0 []) = None"
    by (simp add: write_core_policy_def atomic_write_ok ex_write_env_def)
  with write_core_policy_atomic [OF _ fresh, of zero_state 0] show ?thesis by simp
qed

text \<open>Writing the policy again and again.\<close>

definition rewrite_policy ::
  "(desired_state \<times> gotime) list \<Rightarrow> core_policy_file content option \<Rightarrow> core_policy_file content option" where
  "rewrite_policy ws f = foldl (\<lambda>f (s, now). Some (Doc (policy_doc s now f))) f ws"

definition blocked_until :: "int64 \<Rightarrow> core_policy \<Rightarrow> core_policy" where
  "blocked_until t p = p\<lparr>cp_TombstoneUntil := t, cp_Blocked := True, cp_UploadBPS := 0,
     cp_DownloadBPS := 0, cp_ConnectionLimit := 0, cp_IPLimit := 0\<rparr>"

lemma removed_get:
  assumes "go_ok (old_users f)" and "e \<notin> user_key ` set (all_users s)"
  shows "go_get (old_users (Some (Doc (policy_doc s now f)))) e = Option.bind (go_get (old_users f) e) (tombstone now)"
proof -
  have "find (\<lambda>iu. user_key iu = e) (rev (all_users s)) = None"
    using assms(2) by (auto simp: find_None_iff)
  then show ?thesis
    using policy_doc_get [OF assms(1), of s now e] by (simp add: old_users_def policy_doc_def)
qed

lemma old_users_doc_ok: "go_ok (old_users (Some (Doc (policy_doc s now f))))"
  using policy_doc_ok [of s now f] by (simp add: old_users_def policy_doc_def)

lemma tombstone_again:
  assumes "0 < t"
  shows "tombstone now (blocked_until t p) = (if unix_sec now < t then Some (blocked_until t p) else None)"
  using assms by (simp add: tombstone_eq blocked_until_def)

lemma tombstone_stays:
  assumes "0 < t" and "go_ok (old_users f)"
    and "list_all (\<lambda>(s, now). e \<notin> user_key ` set (all_users s)) ws"
    and "go_get (old_users f) e = (if b then Some (blocked_until t p) else None)"
  shows "go_get (old_users (rewrite_policy ws f)) e =
    (if b \<and> list_all (\<lambda>(s, now). unix_sec now < t) ws then Some (blocked_until t p) else None)"
  using assms(2-)
proof (induction ws arbitrary: f b)
  case Nil
  then show ?case by (simp add: rewrite_policy_def)
next
  case (Cons w ws)
  obtain s now where w: "w = (s, now)" by (cases w)
  let ?f = "Some (Doc (policy_doc s now f))"
  have "go_get (old_users ?f) e = (if b \<and> unix_sec now < t then Some (blocked_until t p) else None)"
    using Cons.prems removed_get [OF Cons.prems(1), of e s now] tombstone_again [OF assms(1)]
    by (simp add: w)
  from Cons.IH [OF old_users_doc_ok _ this] Cons.prems(2) show ?case
    by (simp add: w rewrite_policy_def)
qed

text \<open>
  Claim C16. The lifetime of a tombstone. An identity with a live entry that disappears from the
  desired state is blocked, with all limits cleared and its session generation kept, from the
  first policy written without it until 300 seconds after; later writes neither extend nor
  shorten this, the first write at or after the deadline drops the entry, and it stays dropped.
\<close>

theorem removed_user_tombstone_lifetime:
  assumes "go_ok (old_users f)" and "go_get (old_users f) e = Some p" and "cp_TombstoneUntil p = 0"
    and "0 \<le> unix_sec now" and "list_all (\<lambda>(s, t). e \<notin> user_key ` set (all_users s)) ((s, now) # ws)"
  shows "go_get (old_users (rewrite_policy ((s, now) # ws) f)) e =
    (if list_all (\<lambda>(s, t). unix_sec t < unix_sec now + 300) ws
     then Some (blocked_until (unix_sec now + 300) p) else None)"
proof -
  have "go_get (old_users (Some (Doc (policy_doc s now f)))) e
      = (if True then Some (blocked_until (unix_sec now + 300) p) else None)"
    using removed_get [OF assms(1), of e s now] assms(2,3,5) by (simp add: tombstone_eq blocked_until_def)
  from tombstone_stays [OF _ old_users_doc_ok _ this, of ws] assms(4,5) show ?thesis
    by (simp add: rewrite_policy_def)
qed

definition ex_live :: core_policy where
  "ex_live = \<lparr>cp_UploadBPS = 9, cp_DownloadBPS = 0, cp_ConnectionLimit = 0, cp_IPLimit = 0,
     cp_Blocked = False, cp_TombstoneUntil = 0, cp_SessionGeneration = 7\<rparr>"

definition ex_policy_file :: "core_policy_file content option" where
  "ex_policy_file = Some (Doc \<lparr>cpf_Version = 1, cpf_GeneratedAt = 0, cpf_Mode = ''active'',
     cpf_Users = [(''u:25|i:101'', ex_live)]\<rparr>)"

theorem removed_user_tombstone_lifetime_witness:
  "go_get (old_users (rewrite_policy [(zero_state, unix_time 1000), (zero_state, unix_time 1299)] ex_policy_file)) ''u:25|i:101''
     = Some (blocked_until 1300 ex_live)
   \<and> go_get (old_users (rewrite_policy [(zero_state, unix_time 1000), (zero_state, unix_time 1300)] ex_policy_file)) ''u:25|i:101''
     = None"
proof -
  have old: "old_users ex_policy_file = [(''u:25|i:101'', ex_live)]"
    by (simp add: ex_policy_file_def old_users_def)
  have none: "all_users zero_state = []" by (simp add: all_users_def zero_state_def)
  show ?thesis
    using removed_user_tombstone_lifetime [of ex_policy_file "''u:25|i:101''" ex_live "unix_time 1000" zero_state "[(zero_state, unix_time 1299)]"]
      removed_user_tombstone_lifetime [of ex_policy_file "''u:25|i:101''" ex_live "unix_time 1000" zero_state "[(zero_state, unix_time 1300)]"]
    by (simp add: old none go_ok_def ex_live_def)
qed

text \<open>
  Who needs the patched core. In the document just written these are, sorted and each
  once: the current identities that are disabled or have a speed, connection or IP limit (an IP
  limit not counting where the inbound switches it off), and the removed identities whose
  tombstone has not expired.
\<close>

lemma strict_policy_emails_exact:
  assumes "go_ok (old_users old)" and "0 \<le> unix_sec now"
  shows "sorted (strict_policy_emails (Some (Doc (policy_doc s now old))) now)
    \<and> distinct (strict_policy_emails (Some (Doc (policy_doc s now old))) now)
    \<and> (\<forall>e. e \<in> set (strict_policy_emails (Some (Doc (policy_doc s now old))) now) \<longleftrightarrow>
        (case find (\<lambda>iu. user_key iu = e) (rev (all_users s)) of
           Some (i, u) \<Rightarrow> \<not> usr_Enabled u \<or> lim_UploadBPS (usr_Limits u) > 0 \<or> lim_DownloadBPS (usr_Limits u) > 0
             \<or> lim_ConnectionLimit (usr_Limits u) > 0
             \<or> lim_IPLimit (usr_Limits u) > 0 \<and> \<not> equal_fold (inb_IPLimitMode i) ''off''
         | None \<Rightarrow> Option.bind (go_get (old_users old) e) (tombstone now) \<noteq> None))"
proof -
  let ?us = "cpf_Users (policy_doc s now old)"
  have list: "strict_policy_emails (Some (Doc (policy_doc s now old))) now
      = sort (map fst (filter (\<lambda>e. needs_core now (snd e)) ?us))"
    by (simp add: strict_policy_emails_def policy_doc_def)
  have "distinct (map fst (filter (\<lambda>e. needs_core now (snd e)) ?us))"
    by (rule go_ok_distinct) (rule go_ok_filter, rule policy_doc_ok)
  moreover have "e \<in> set (map fst (filter (\<lambda>e. needs_core now (snd e)) ?us)) \<longleftrightarrow>
      (\<exists>p. go_get ?us e = Some p \<and> needs_core now p)" for e
    using go_get_in_set [OF policy_doc_ok, of s now old] by (force simp del: map_of_eq_Some_iff)
  moreover have "needs_core now (user_policy i u) \<longleftrightarrow> \<not> usr_Enabled u \<or> lim_UploadBPS (usr_Limits u) > 0
      \<or> lim_DownloadBPS (usr_Limits u) > 0 \<or> lim_ConnectionLimit (usr_Limits u) > 0
      \<or> lim_IPLimit (usr_Limits u) > 0 \<and> \<not> equal_fold (inb_IPLimitMode i) ''off''" for i u
    by (auto simp: needs_core_def user_policy_def)
  moreover have "needs_core now p'" if "tombstone now p = Some p'" for p p'
    using that assms(2) by (auto simp: tombstone_eq needs_core_def split: if_splits)
  ultimately show ?thesis
    unfolding list policy_doc_get [OF assms(1)]
    by (auto split: option.splits bind_splits)
qed

lemma strict_policy_emails_exact_example:
  "''u:25|i:101'' \<in> set (strict_policy_emails (Some (Doc (policy_doc zero_state (unix_time 1000) ex_policy_file))) (unix_time 1000))"
proof -
  have old: "old_users ex_policy_file = [(''u:25|i:101'', ex_live)]"
    by (simp add: ex_policy_file_def old_users_def)
  have none: "all_users zero_state = []" by (simp add: all_users_def zero_state_def)
  show ?thesis
    using strict_policy_emails_exact [of ex_policy_file "unix_time 1000" zero_state]
    by (simp add: old none go_ok_def ex_live_def tombstone_eq)
qed

end
