(* ===== verification/Process.thy ===== *)
theory Process
  imports Files GoStrings
begin

text \<open>
  The Xray process manager, \<^verbatim>\<open>internal/xray/process.go\<close>: validating, storing and applying
  configurations, starting and stopping the process, and the rollback to the last-good
  configuration. The manager holds its lock during each operation, so operations are functions
  from a manager to a manager.

  Everything the operating system and the Xray binary decide is the parameter \<open>e\<close>, which answers
  the question asked at each tick of the manager's clock: whether the process died meanwhile,
  whether it can be started, what a configuration test reports, how a write goes. SHA-256 is the
  parameter \<open>sha\<close>.
\<close>

section \<open>State\<close>

text \<open>\<^verbatim>\<open>m.cmd\<close>: the configuration the process was started on, and whether it still runs.\<close>

record command =
  cm_config :: "string option"
  cm_alive :: bool

record manager =
  mg_Config :: string
  mg_LimitsFile :: string
  mg_files :: "string files"
  mg_cmd :: "command option"
  mg_clock :: nat

record os_env =
  os_dies :: "nat \<Rightarrow> bool"
  os_start :: "nat \<Rightarrow> string option"
  os_test :: "nat \<Rightarrow> string \<Rightarrow> string option"
  os_write :: "nat \<Rightarrow> string write_env"
  os_candidate :: "nat \<Rightarrow> string option"
  os_marker :: "nat \<Rightarrow> bool"
  os_api :: "nat \<Rightarrow> string option"

definition backup_path :: "manager \<Rightarrow> string" where
  "backup_path m = mg_Config m @ ''.last-good''"

definition marker_path :: "manager \<Rightarrow> string" where
  "marker_path m = mg_LimitsFile m @ ''.core-ready''"

definition tick :: "manager \<Rightarrow> manager" where
  "tick m = m\<lparr>mg_clock := Suc (mg_clock m)\<rparr>"

section \<open>Files\<close>

definition write_file :: "os_env \<Rightarrow> string \<Rightarrow> string \<Rightarrow> manager \<Rightarrow> string option \<times> manager" where
  "write_file e path content m =
     (case atomic_write (os_write e (mg_clock m)) path content (mg_files m) of
        (err, trace) \<Rightarrow> (err, (tick m)\<lparr>mg_files := last trace\<rparr>))"

definition write_config :: "os_env \<Rightarrow> string \<Rightarrow> manager \<Rightarrow> string option \<times> manager" where
  "write_config e content m = write_file e (mg_Config m) content m"

definition write_backup :: "os_env \<Rightarrow> string \<Rightarrow> manager \<Rightarrow> string option \<times> manager" where
  "write_backup e content m = write_file e (backup_path m) content m"

text \<open>
  The test of a candidate by \<^verbatim>\<open>xray run -test\<close>: \<open>os_test\<close> is its error and output, \<open>os_candidate\<close> a failure to write it to its temporary file (which
  is always removed again).
\<close>

definition validate :: "os_env \<Rightarrow> string \<Rightarrow> manager \<Rightarrow> string option \<times> manager" where
  "validate e content m =
     ((case os_test e (mg_clock m) content of
         None \<Rightarrow> None
       | Some out \<Rightarrow> Some (''xray config validation failed: '' @ out)), tick m)"

definition validate_content :: "os_env \<Rightarrow> string \<Rightarrow> manager \<Rightarrow> string option \<times> manager" where
  "validate_content e content m =
     (case os_candidate e (mg_clock m) of
        Some err \<Rightarrow> (Some err, tick m)
      | None \<Rightarrow> validate e content m)"

section \<open>The process\<close>

text \<open>\<^verbatim>\<open>isRunningLocked\<close>: a dead process stays dead.\<close>

definition is_running :: "os_env \<Rightarrow> manager \<Rightarrow> bool \<times> manager" where
  "is_running e m =
     (case mg_cmd m of
        None \<Rightarrow> (False, m)
      | Some c \<Rightarrow>
          let alive = cm_alive c \<and> \<not> os_dies e (mg_clock m)
          in (alive, (tick m)\<lparr>mg_cmd := Some (c\<lparr>cm_alive := alive\<rparr>)\<rparr>))"

definition start_locked :: "os_env \<Rightarrow> manager \<Rightarrow> string option \<times> manager" where
  "start_locked e m0 =
     (let m = (if mg_LimitsFile m0 \<noteq> [] then m0\<lparr>mg_files := go_delete (marker_path m0) (mg_files m0)\<rparr> else m0)
      in case os_start e (mg_clock m) of
          Some err \<Rightarrow> (Some err, tick m)
        | None \<Rightarrow>
            (case is_running e ((tick m)\<lparr>mg_cmd := Some
                \<lparr>cm_config = go_get (mg_files m) (mg_Config m), cm_alive = True\<rparr>\<rparr>) of
               (True, m') \<Rightarrow> (None, m')
             | (False, m') \<Rightarrow> (Some ''xray exited during startup grace period'', m')))"

text \<open>The polls of \<^verbatim>\<open>stopLocked\<close> after SIGTERM: at most one every 100 ms for 5 seconds.\<close>

fun stop_polls :: "os_env \<Rightarrow> nat \<Rightarrow> manager \<Rightarrow> manager" where
  "stop_polls e 0 m = m\<lparr>mg_cmd := None\<rparr>"
| "stop_polls e (Suc n) m =
     (case is_running e m of
        (False, m') \<Rightarrow> m'\<lparr>mg_cmd := None\<rparr>
      | (True, m') \<Rightarrow> stop_polls e n m')"

definition stop_locked :: "os_env \<Rightarrow> manager \<Rightarrow> manager" where
  "stop_locked e m =
     (case is_running e m of
        (False, m') \<Rightarrow> m'\<lparr>mg_cmd := None\<rparr>
      | (True, m') \<Rightarrow> stop_polls e 50 m')"

definition restart_locked :: "os_env \<Rightarrow> manager \<Rightarrow> string option \<times> manager" where
  "restart_locked e m = start_locked e (stop_locked e m)"

definition start_xray :: "os_env \<Rightarrow> manager \<Rightarrow> string option \<times> manager" where
  "start_xray e m =
     (case is_running e m of (True, m') \<Rightarrow> (None, m') | (False, m') \<Rightarrow> start_locked e m')"

section \<open>Configurations\<close>

definition rollback_locked :: "os_env \<Rightarrow> string \<Rightarrow> manager \<Rightarrow> string \<times> manager" where
  "rollback_locked e cause m =
     (case go_get (mg_files m) (backup_path m) of
        None \<Rightarrow> (cause, m)
      | Some backup \<Rightarrow>
          if backup = [] then (cause, m)
          else (case write_config e backup m of
              (Some err, m') \<Rightarrow> (''new config failed ('' @ cause @ ''); rollback write failed: '' @ err, m')
            | (None, m') \<Rightarrow>
                (case restart_locked e m' of
                   (Some err, m'') \<Rightarrow> (''new config failed ('' @ cause @ ''); rollback start failed: '' @ err, m'')
                 | (None, m'') \<Rightarrow> (''new config failed and was rolled back to last-good: '' @ cause, m''))))"

definition same_config :: "(string \<Rightarrow> string) \<Rightarrow> string \<Rightarrow> manager \<Rightarrow> bool" where
  "same_config sha content m =
     (case go_get (mg_files m) (mg_Config m) of None \<Rightarrow> False | Some old \<Rightarrow> sha old = sha content)"

definition store_config :: "(string \<Rightarrow> string) \<Rightarrow> os_env \<Rightarrow> string \<Rightarrow> manager \<Rightarrow> (string + bool) \<times> manager" where
  "store_config sha e content m =
     (if same_config sha content m then (Inr False, m)
      else case validate_content e content m of
          (Some err, m1) \<Rightarrow> (Inl err, m1)
        | (None, m1) \<Rightarrow>
            (case write_config e content m1 of
               (Some err, m2) \<Rightarrow> (Inl err, m2)
             | (None, m2) \<Rightarrow> (Inr True, snd (write_backup e content m2))))"

text \<open>\<^verbatim>\<open>old, _ := os.ReadFile(m.Config); if len(old) > 0 ...\<close>\<close>

definition back_up_old :: "(string \<Rightarrow> bool) \<Rightarrow> os_env \<Rightarrow> manager \<Rightarrow> manager" where
  "back_up_old wanted e m =
     (case go_get (mg_files m) (mg_Config m) of
        None \<Rightarrow> m
      | Some old \<Rightarrow> if old \<noteq> [] \<and> wanted old then snd (write_backup e old m) else m)"

text \<open>From the write of the new configuration to the end, the same in \<^verbatim>\<open>Apply\<close> and \<^verbatim>\<open>ForceApply\<close>.\<close>

definition switch_config :: "os_env \<Rightarrow> string \<Rightarrow> manager \<Rightarrow> string option \<times> manager" where
  "switch_config e content m =
     (case write_config e content m of
        (Some err, m1) \<Rightarrow> (Some err, m1)
      | (None, m1) \<Rightarrow>
          (case restart_locked e m1 of
             (Some cause, m2) \<Rightarrow> (case rollback_locked e cause m2 of (err, m3) \<Rightarrow> (Some err, m3))
           | (None, m2) \<Rightarrow> (None, snd (write_backup e content m2))))"

definition apply_config :: "(string \<Rightarrow> string) \<Rightarrow> os_env \<Rightarrow> string \<Rightarrow> manager \<Rightarrow> (string + bool) \<times> manager" where
  "apply_config sha e content m =
     (if same_config sha content m then (Inr False, m)
      else case validate_content e content m of
          (Some err, m1) \<Rightarrow> (Inl err, m1)
        | (None, m1) \<Rightarrow>
            (case switch_config e content (back_up_old (\<lambda>_. True) e m1) of
               (Some err, m2) \<Rightarrow> (Inl err, m2)
             | (None, m2) \<Rightarrow> (Inr True, m2)))"

definition force_apply :: "(string \<Rightarrow> string) \<Rightarrow> os_env \<Rightarrow> string \<Rightarrow> manager \<Rightarrow> string option \<times> manager" where
  "force_apply sha e content m =
     (case validate_content e content m of
        (Some err, m1) \<Rightarrow> (Some err, m1)
      | (None, m1) \<Rightarrow> switch_config e content (back_up_old (\<lambda>old. sha old \<noteq> sha content) e m1))"

definition recover :: "os_env \<Rightarrow> manager \<Rightarrow> string option \<times> manager" where
  "recover e m =
     (case restart_locked e m of
        (None, m1) \<Rightarrow> (None, m1)
      | (Some _, m1) \<Rightarrow>
          (case go_get (mg_files m1) (backup_path m1) of
             None \<Rightarrow> (Some ''xray recovery failed and no last-good config is available'', m1)
           | Some backup \<Rightarrow>
               if backup = [] then (Some ''xray recovery failed and no last-good config is available'', m1)
               else (case write_config e backup m1 of
                   (Some err, m2) \<Rightarrow> (Some err, m2)
                 | (None, m2) \<Rightarrow> restart_locked e m2)))"

section \<open>Probes\<close>

text \<open>The marker is written by the core itself, at a time of its own (\<open>os_marker\<close>).\<close>

definition core_patch_ready :: "os_env \<Rightarrow> manager \<Rightarrow> bool \<times> manager" where
  "core_patch_ready e m =
     (if mg_LimitsFile m = [] then (False, m)
      else (go_get (mg_files m) (marker_path m) \<noteq> None \<or> os_marker e (mg_clock m), tick m))"

definition api_healthy :: "os_env \<Rightarrow> manager \<Rightarrow> bool \<times> manager" where
  "api_healthy e m =
     (case is_running e m of
        (False, m') \<Rightarrow> (False, m')
      | (True, m') \<Rightarrow>
          ((case os_api e (mg_clock m') of None \<Rightarrow> False | Some out \<Rightarrow> out \<noteq> []), tick m'))"

text \<open>The version line (of ASCII text, where runes are bytes).\<close>

definition concise_version_line :: "string \<Rightarrow> string" where
  "concise_version_line out =
     (let line = takeWhile (\<lambda>c. c \<noteq> CHR 0x0A) (trim_space out);
          line = (case str_fields line of
              f0 # f1 # _ \<Rightarrow> if equal_fold f0 ''xray'' then f0 @ '' '' @ f1 else line
            | _ \<Rightarrow> line)
      in take 64 line)"

text \<open>\<open>res\<close> is what running \<^verbatim>\<open>xray version\<close> yields: an error, or the output.\<close>

definition xray_version :: "string + string \<Rightarrow> string" where
  "xray_version res = (case res of Inl _ \<Rightarrow> [] | Inr out \<Rightarrow> concise_version_line out)"

section \<open>The environment of the process\<close>

definition command_env :: "manager \<Rightarrow> string list \<Rightarrow> string list" where
  "command_env m environ =
     environ @ (if mg_LimitsFile m \<noteq> [] then [''XNODE_LIMITS_FILE='' @ mg_LimitsFile m] else [])"

text \<open>
  What a process started with this environment reads in a variable: \<^verbatim>\<open>os/exec\<close> keeps the last of several
  entries, and an unset variable reads as the empty string.
\<close>

definition getenv :: "string list \<Rightarrow> string \<Rightarrow> string" where
  "getenv env key =
     (case find (has_prefix (key @ ''='')) (rev env) of None \<Rightarrow> [] | Some kv \<Rightarrow> drop (Suc (length key)) kv)"

lemma getenv_command_env:
  "mg_LimitsFile m \<noteq> [] \<Longrightarrow> getenv (command_env m environ) ''XNODE_LIMITS_FILE'' = mg_LimitsFile m"
  by (simp add: getenv_def command_env_def)

section \<open>What each operation leaves alone\<close>

text \<open>
  The names of the files differ: temporary names are none of the manager's files, and the marker
  is not one of the configurations.
\<close>

definition names_apart :: "os_env \<Rightarrow> manager \<Rightarrow> bool" where
  "names_apart e m \<longleftrightarrow>
     (\<forall>n. we_temp (os_write e n) \<notin> {mg_Config m, backup_path m, marker_path m})
       \<and> marker_path m \<noteq> mg_Config m \<and> marker_path m \<noteq> backup_path m"

definition writes_ok :: "os_env \<Rightarrow> bool" where
  "writes_ok e \<longleftrightarrow> (\<forall>n st. we_fault (os_write e n) st = None)"

abbreviation cfg :: "manager \<Rightarrow> string option" where
  "cfg m \<equiv> go_get (mg_files m) (mg_Config m)"

abbreviation bak :: "manager \<Rightarrow> string option" where
  "bak m \<equiv> go_get (mg_files m) (backup_path m)"

definition same_paths :: "manager \<Rightarrow> manager \<Rightarrow> bool" where
  "same_paths m m' \<longleftrightarrow> mg_Config m' = mg_Config m \<and> mg_LimitsFile m' = mg_LimitsFile m"

named_theorems paths "the paths of a manager never change"

lemma same_pathsD:
  "same_paths m m' \<Longrightarrow> mg_Config m' = mg_Config m"
  "same_paths m m' \<Longrightarrow> backup_path m' = backup_path m"
  "same_paths m m' \<Longrightarrow> marker_path m' = marker_path m"
  "same_paths m m' \<Longrightarrow> names_apart e m' = names_apart e m"
  by (simp_all add: same_paths_def backup_path_def marker_path_def names_apart_def)

lemma same_paths_trans [trans]: "same_paths m m' \<Longrightarrow> same_paths m' m'' \<Longrightarrow> same_paths m m''"
  by (simp add: same_paths_def)

lemma config_backup [simp]: "mg_Config m \<noteq> backup_path m" "backup_path m \<noteq> mg_Config m"
  by (simp_all add: backup_path_def)

lemma tick_simps [simp]:
  "mg_files (tick m) = mg_files m" "mg_cmd (tick m) = mg_cmd m" "same_paths m (tick m)"
  by (simp_all add: tick_def same_paths_def)

lemma write_file_paths [paths]: "same_paths m (snd (write_file e p c m))"
  by (simp add: write_file_def same_paths_def tick_def case_prod_unfold)

lemma write_file_cmd: "mg_cmd (snd (write_file e p c m)) = mg_cmd m"
  by (simp add: write_file_def case_prod_unfold)

lemma write_file_get:
  assumes "we_temp (os_write e (mg_clock m)) \<noteq> p" and "k \<noteq> we_temp (os_write e (mg_clock m))"
  shows "go_get (mg_files (snd (write_file e p c m))) k
    = (if fst (write_file e p c m) = None \<and> k = p then Some c else go_get (mg_files m) k)"
  using atomic_write_final [OF assms, of c "mg_files m"]
  by (simp add: write_file_def case_prod_unfold)

lemma write_file_ok: "writes_ok e \<Longrightarrow> fst (write_file e p c m) = None"
  by (simp add: write_file_def case_prod_unfold atomic_write_ok writes_ok_def)

lemma is_running_frame [simp]:
  "mg_files (snd (is_running e m)) = mg_files m"
  "same_paths m (snd (is_running e m))"
  by (auto simp: is_running_def same_paths_def Let_def tick_def split: option.split)

lemma is_running_True: "is_running e m = (True, m') \<Longrightarrow>
    \<exists>c. mg_cmd m = Some c \<and> cm_alive c \<and> mg_cmd m' = Some c"
  by (auto simp: is_running_def Let_def split: option.splits)

lemma stop_polls_frame: "mg_files (stop_polls e n m) = mg_files m \<and> same_paths m (stop_polls e n m)
    \<and> mg_cmd (stop_polls e n m) = None \<and> mg_clock (stop_polls e n m) \<le> mg_clock m + n"
proof (induction n arbitrary: m)
  case (Suc n)
  let ?m = "snd (is_running e m)"
  have "mg_clock ?m \<le> Suc (mg_clock m)"
    by (simp add: is_running_def Let_def tick_def split: option.split)
  with Suc.IH [of ?m] is_running_frame [where e = e and m = m] show ?case
    by (auto simp: case_prod_unfold same_paths_def split: bool.split)
qed (simp add: same_paths_def)

lemma stop_locked_frame [simp]:
  "mg_files (stop_locked e m) = mg_files m"
  "same_paths m (stop_locked e m)"
  "mg_cmd (stop_locked e m) = None"
  using stop_polls_frame [of e 50 "snd (is_running e m)"] is_running_frame [where e = e and m = m]
  by (auto simp: stop_locked_def case_prod_unfold same_paths_def split: bool.split)

lemma start_locked_frame:
  assumes "k \<noteq> marker_path m"
  shows "go_get (mg_files (snd (start_locked e m))) k = go_get (mg_files m) k"
    and "same_paths m (snd (start_locked e m))"
proof -
  let ?m = "if mg_LimitsFile m \<noteq> [] then m\<lparr>mg_files := go_delete (marker_path m) (mg_files m)\<rparr> else m"
  let ?c = "\<lparr>cm_config = go_get (mg_files ?m) (mg_Config ?m), cm_alive = True\<rparr>"
  have "mg_files (snd (start_locked e m)) = mg_files ?m \<and> same_paths m (snd (start_locked e m))"
    using is_running_frame [where e = e and m = "(tick ?m)\<lparr>mg_cmd := Some ?c\<rparr>"]
    by (auto simp: start_locked_def Let_def case_prod_unfold same_paths_def tick_def
        split: option.split bool.split)
  then show "go_get (mg_files (snd (start_locked e m))) k = go_get (mg_files m) k"
    and "same_paths m (snd (start_locked e m))"
    using assms by (simp_all add: map_simps)
qed

lemma start_locked_runs:
  assumes "start_locked e m = (None, m')" and "marker_path m \<noteq> mg_Config m"
  shows "mg_cmd m' = Some \<lparr>cm_config = cfg m, cm_alive = True\<rparr>"
proof -
  let ?m = "if mg_LimitsFile m \<noteq> [] then m\<lparr>mg_files := go_delete (marker_path m) (mg_files m)\<rparr> else m"
  have "go_get (mg_files ?m) (mg_Config ?m) = cfg m"
    using assms(2) by (simp add: map_simps)
  then show ?thesis
    using assms(1)
    by (auto simp: start_locked_def Let_def split: option.splits prod.splits bool.splits dest!: is_running_True)
qed

text \<open>A restart leaves the configurations alone; when it succeeds, Xray runs the one on disk.\<close>

lemma restart_frame [paths]: "same_paths m (snd (restart_locked e m))"
  using start_locked_frame(2) [of "marker_path (stop_locked e m) @ ''x''" "stop_locked e m" e]
    stop_locked_frame(2) [of m e]
  by (simp add: restart_locked_def same_paths_def)

lemma restart_files:
  assumes "names_apart e m"
  shows "cfg (snd (restart_locked e m)) = cfg m" and "bak (snd (restart_locked e m)) = bak m"
proof -
  have p: "mg_Config (snd (restart_locked e m)) = mg_Config m" "backup_path (snd (restart_locked e m)) = backup_path m"
    using same_pathsD [OF restart_frame [of m e]] by simp_all
  have q: "marker_path (stop_locked e m) = marker_path m"
    using same_pathsD [OF stop_locked_frame(2)] by simp
  have get: "go_get (mg_files (snd (restart_locked e m))) k = go_get (mg_files m) k" if "k \<noteq> marker_path m" for k
    using start_locked_frame(1) [of k "stop_locked e m" e] that by (simp add: restart_locked_def q)
  show "cfg (snd (restart_locked e m)) = cfg m"
    unfolding p by (rule get) (use assms in \<open>auto simp: names_apart_def\<close>)
  show "bak (snd (restart_locked e m)) = bak m"
    unfolding p by (rule get) (use assms in \<open>auto simp: names_apart_def\<close>)
qed

lemma restart_runs:
  assumes "restart_locked e m = (None, m')" and "names_apart e m"
  shows "mg_cmd m' = Some \<lparr>cm_config = cfg m, cm_alive = True\<rparr>"
proof -
  have q: "marker_path (stop_locked e m) = marker_path m" "mg_Config (stop_locked e m) = mg_Config m"
    using same_pathsD [OF stop_locked_frame(2)] by simp_all
  show ?thesis
    using start_locked_runs [OF assms(1) [unfolded restart_locked_def]] assms(2)
    by (simp add: q names_apart_def)
qed

section \<open>What writing and switching do\<close>

lemma write_config_effect:
  assumes "names_apart e m"
  shows "cfg (snd (write_config e c m)) = (if fst (write_config e c m) = None then Some c else cfg m)"
    and "bak (snd (write_config e c m)) = bak m"
    and "same_paths m (snd (write_config e c m))"
    and "mg_cmd (snd (write_config e c m)) = mg_cmd m"
    and "writes_ok e \<Longrightarrow> fst (write_config e c m) = None"
proof -
  let ?w = "write_file e (mg_Config m) c m"
  have p: "mg_Config (snd ?w) = mg_Config m" "backup_path (snd ?w) = backup_path m"
    using same_pathsD [OF write_file_paths] by simp_all
  have t: "we_temp (os_write e (mg_clock m)) \<noteq> mg_Config m" "we_temp (os_write e (mg_clock m)) \<noteq> backup_path m"
    using assms by (auto simp: names_apart_def)
  show "cfg (snd (write_config e c m)) = (if fst (write_config e c m) = None then Some c else cfg m)"
    and "bak (snd (write_config e c m)) = bak m"
    using t by (simp_all add: write_config_def p write_file_get)
qed (simp_all add: write_config_def write_file_paths write_file_cmd write_file_ok)

lemma write_backup_effect:
  assumes "names_apart e m"
  shows "cfg (snd (write_backup e c m)) = cfg m"
    and "bak (snd (write_backup e c m)) = (if fst (write_backup e c m) = None then Some c else bak m)"
    and "same_paths m (snd (write_backup e c m))"
    and "mg_cmd (snd (write_backup e c m)) = mg_cmd m"
    and "writes_ok e \<Longrightarrow> fst (write_backup e c m) = None"
proof -
  let ?w = "write_file e (backup_path m) c m"
  have p: "mg_Config (snd ?w) = mg_Config m" "backup_path (snd ?w) = backup_path m"
    using same_pathsD [OF write_file_paths] by simp_all
  have t: "we_temp (os_write e (mg_clock m)) \<noteq> mg_Config m" "we_temp (os_write e (mg_clock m)) \<noteq> backup_path m"
    using assms by (auto simp: names_apart_def)
  show "cfg (snd (write_backup e c m)) = cfg m"
    and "bak (snd (write_backup e c m)) = (if fst (write_backup e c m) = None then Some c else bak m)"
    using t by (simp_all add: write_backup_def p write_file_get)
qed (simp_all add: write_backup_def write_file_paths write_file_cmd write_file_ok)

lemma validate_frame [simp]:
  "mg_files (snd (validate_content e c m)) = mg_files m"
  "mg_cmd (snd (validate_content e c m)) = mg_cmd m"
  "same_paths m (snd (validate_content e c m))"
  by (auto simp: validate_content_def validate_def split: option.split)

lemma back_up_old_effect:
  assumes "names_apart e m"
  shows "cfg (back_up_old w e m) = cfg m"
    and "same_paths m (back_up_old w e m)"
    and "mg_cmd (back_up_old w e m) = mg_cmd m"
    and "writes_ok e \<Longrightarrow> bak (back_up_old w e m) =
      (case cfg m of None \<Rightarrow> bak m | Some old \<Rightarrow> if old \<noteq> [] \<and> w old then Some old else bak m)"
  using write_backup_effect [OF assms]
  by (auto simp: back_up_old_def same_paths_def split: option.split)

text \<open>A rollback writes the backup back if there is one; it never touches the backup itself.\<close>

lemma rollback_effect:
  assumes "names_apart e m" and "rollback_locked e cause m = (err, m')"
  shows "bak m' = bak m" and "same_paths m m'"
    and "writes_ok e \<Longrightarrow> cfg m' = (case bak m of None \<Rightarrow> cfg m | Some b \<Rightarrow> if b = [] then cfg m else Some b)"
proof -
  have "bak m' = bak m \<and> same_paths m m' \<and>
    (writes_ok e \<longrightarrow> cfg m' = (case bak m of None \<Rightarrow> cfg m | Some b \<Rightarrow> if b = [] then cfg m else Some b))"
  proof (cases "bak m = None \<or> bak m = Some []")
    case True
    then show ?thesis using assms(2) by (auto simp: rollback_locked_def same_paths_def)
  next
    case False
    then obtain b where b: "bak m = Some b" "b \<noteq> []" by auto
    let ?m1 = "snd (write_config e b m)" and ?m2 = "snd (restart_locked e (snd (write_config e b m)))"
    note w = write_config_effect [OF assms(1), of b]
    have n1: "names_apart e ?m1" using same_pathsD(4) [OF w(3)] assms(1) by simp
    have "m' = (if fst (write_config e b m) = None then ?m2 else ?m1)"
      using assms(2) b by (auto simp: rollback_locked_def split: option.splits prod.splits)
    then show ?thesis
      using w restart_files [OF n1] restart_frame [where e = e and m = ?m1] b
      by (auto simp: same_paths_def)
  qed
  then show "bak m' = bak m" and "same_paths m m'"
    and "writes_ok e \<Longrightarrow> cfg m' = (case bak m of None \<Rightarrow> cfg m | Some b \<Rightarrow> if b = [] then cfg m else Some b)"
    by blast+
qed

lemma switch_success:
  assumes "names_apart e m" and "switch_config e c m = (None, m')"
  shows "cfg m' = Some c" and "mg_cmd m' = Some \<lparr>cm_config = Some c, cm_alive = True\<rparr>"
    and "writes_ok e \<Longrightarrow> bak m' = Some c" and "same_paths m m'"
proof -
  let ?m1 = "snd (write_config e c m)" and ?m2 = "snd (restart_locked e (snd (write_config e c m)))"
  note w = write_config_effect [OF assms(1), of c]
  have n1: "names_apart e ?m1" using same_pathsD(4) [OF w(3)] assms(1) by simp
  note r = restart_frame [where e = e and m = ?m1] restart_files [OF n1]
  have n2: "names_apart e ?m2" using same_pathsD(4) [OF r(1)] n1 by simp
  have ok: "fst (write_config e c m) = None" "restart_locked e ?m1 = (None, ?m2)" "m' = snd (write_backup e c ?m2)"
    using assms(2) by (auto simp: switch_config_def split: option.splits prod.splits)
  note b = write_backup_effect [OF n2, of c]
  show "cfg m' = Some c" and "writes_ok e \<Longrightarrow> bak m' = Some c" and "same_paths m m'"
    using ok w b r by (auto simp: same_paths_def)
  show "mg_cmd m' = Some \<lparr>cm_config = Some c, cm_alive = True\<rparr>"
    using restart_runs [OF ok(2) n1] ok w b by simp
qed

lemma switch_failure:
  assumes "names_apart e m" and "writes_ok e" and "switch_config e c m = (Some err, m')"
  shows "bak m' = bak m" and "cfg m' = (case bak m of None \<Rightarrow> Some c | Some b \<Rightarrow> if b = [] then Some c else Some b)"
    and "same_paths m m'"
proof -
  let ?m1 = "snd (write_config e c m)" and ?m2 = "snd (restart_locked e (snd (write_config e c m)))"
  note w = write_config_effect [OF assms(1), of c]
  have n1: "names_apart e ?m1" using same_pathsD(4) [OF w(3)] assms(1) by simp
  note r = restart_frame [where e = e and m = ?m1] restart_files [OF n1]
  have n2: "names_apart e ?m2" using same_pathsD(4) [OF r(1)] n1 by simp
  obtain cause err' where "rollback_locked e cause ?m2 = (err', m')"
    using assms(3) w(5) [OF assms(2)] by (auto simp: switch_config_def split: option.splits prod.splits)
  note b = rollback_effect [OF n2 this]
  show "bak m' = bak m" and "cfg m' = (case bak m of None \<Rightarrow> Some c | Some b \<Rightarrow> if b = [] then Some c else Some b)"
    and "same_paths m m'"
    using b r w assms(2) by (auto simp: same_paths_def split: option.split)
qed

section \<open>Properties\<close>

lemma prepared:
  assumes "names_apart e m"
  shows "names_apart e (back_up_old w e (snd (validate_content e c m)))"
    and "same_paths m (back_up_old w e (snd (validate_content e c m)))"
    and "cfg (back_up_old w e (snd (validate_content e c m))) = cfg m"
    and "writes_ok e \<Longrightarrow> bak (back_up_old w e (snd (validate_content e c m))) =
      (case cfg m of None \<Rightarrow> bak m | Some old \<Rightarrow> if old \<noteq> [] \<and> w old then Some old else bak m)"
proof -
  let ?v = "snd (validate_content e c m)"
  have p: "mg_Config ?v = mg_Config m" "backup_path ?v = backup_path m"
    using same_pathsD [OF validate_frame(3) [where e = e and c = c and m = m]] by simp_all
  have v: "names_apart e ?v" "cfg ?v = cfg m" "bak ?v = bak m"
    using same_pathsD(4) [OF validate_frame(3) [where e = e and c = c and m = m]] assms by (simp_all add: p)
  note b = back_up_old_effect [OF v(1), of w]
  show "same_paths m (back_up_old w e ?v)"
    using validate_frame(3) b(2) by (rule same_paths_trans)
  from same_pathsD(4) [OF this] assms show "names_apart e (back_up_old w e ?v)" by simp
  show "cfg (back_up_old w e ?v) = cfg m" using b(1) v by simp
  show "writes_ok e \<Longrightarrow> bak (back_up_old w e ?v) =
      (case cfg m of None \<Rightarrow> bak m | Some old \<Rightarrow> if old \<noteq> [] \<and> w old then Some old else bak m)"
    using b(4) by (simp add: p split: option.splits)
qed

lemma apply_config_cases:
  assumes "apply_config sha e c m = (Inl err, m')"
  shows "\<not> same_config sha c m"
    and "m' = snd (validate_content e c m) \<or>
      switch_config e c (back_up_old (\<lambda>_. True) e (snd (validate_content e c m))) = (Some err, m')"
  using assms by (auto simp: apply_config_def split: option.splits prod.splits if_splits)

text \<open>
  Claim C13. A configuration that \<^verbatim>\<open>Apply\<close> or \<^verbatim>\<open>ForceApply\<close> reports as applied is in force: it is
  the configuration on disk, Xray runs, and it was started on exactly that configuration.
\<close>

theorem applied_config_in_force:
  assumes "names_apart e m"
    and "apply_config sha e c m = (Inr True, m') \<or> force_apply sha e c m = (None, m')"
  shows "cfg m' = Some c \<and> mg_cmd m' = Some \<lparr>cm_config = Some c, cm_alive = True\<rparr>"
proof -
  from assms(2) obtain w where
    "switch_config e c (back_up_old w e (snd (validate_content e c m))) = (None, m')"
    by (auto simp: apply_config_def force_apply_def split: option.splits prod.splits if_splits)
  from switch_success [OF prepared(1) [OF assms(1)] this] show ?thesis by simp
qed

definition ex_os :: os_env where
  "ex_os = \<lparr>os_dies = (\<lambda>_. False), os_start = (\<lambda>_. None), os_test = (\<lambda>_ _. None),
     os_write = (\<lambda>_. \<lparr>we_temp = ''t'', we_partial = [], we_fault = (\<lambda>_. None)\<rparr>),
     os_candidate = (\<lambda>_. None), os_marker = (\<lambda>_. False), os_api = (\<lambda>_. None)\<rparr>"

definition ex_manager :: "string files \<Rightarrow> manager" where
  "ex_manager fs = \<lparr>mg_Config = ''x'', mg_LimitsFile = ''l'', mg_files = fs, mg_cmd = None, mg_clock = 0\<rparr>"

lemma ex_names_apart: "names_apart (ex_os\<lparr>os_start := f\<rparr>) (ex_manager fs)"
  by (simp add: names_apart_def ex_os_def ex_manager_def backup_path_def marker_path_def)

lemma ex_writes_ok: "writes_ok (ex_os\<lparr>os_start := f\<rparr>)"
  by (simp add: writes_ok_def ex_os_def)

theorem applied_config_in_force_witness:
  "cfg (snd (apply_config (\<lambda>s. s) (ex_os\<lparr>os_start := \<lambda>_. None\<rparr>) ''c1'' (ex_manager []))) = Some ''c1''"
proof -
  obtain r m' where run: "apply_config (\<lambda>s. s) (ex_os\<lparr>os_start := \<lambda>_. None\<rparr>) ''c1'' (ex_manager []) = (r, m')"
    by (rule prod.exhaust)
  moreover have "fst (apply_config (\<lambda>s. s) (ex_os\<lparr>os_start := \<lambda>_. None\<rparr>) ''c1'' (ex_manager [])) = Inr True"
    by code_simp
  ultimately have "apply_config (\<lambda>s. s) (ex_os\<lparr>os_start := \<lambda>_. None\<rparr>) ''c1'' (ex_manager []) = (Inr True, m')"
    by simp
  from applied_config_in_force [OF ex_names_apart disjI1 [OF this]] show ?thesis by (simp add: run)
qed

text \<open>
  Claim C23. A failed \<^verbatim>\<open>Apply\<close> puts the old configuration back. When a configuration was on disk
  and the writes go through, then whatever made \<^verbatim>\<open>Apply\<close> fail (the test, the start of Xray on the
  new configuration, or its restart on the old one), the configuration on disk afterwards is the
  old one.
\<close>

theorem apply_failure_restores:
  assumes "names_apart e m" and "writes_ok e" and "cfg m = Some old" and "old \<noteq> []"
    and "apply_config sha e c m = (Inl err, m')"
  shows "cfg m' = Some old"
  using apply_config_cases(2) [OF assms(5)]
proof
  assume "m' = snd (validate_content e c m)"
  then show ?thesis using assms(3) same_pathsD(1) [OF validate_frame(3) [where e = e and c = c and m = m]] by simp
next
  assume "switch_config e c (back_up_old (\<lambda>_. True) e (snd (validate_content e c m))) = (Some err, m')"
  from switch_failure(2) [OF prepared(1) [OF assms(1)] assms(2) this] show ?thesis
    using prepared(4) [OF assms(1,2), of "\<lambda>_. True" c] assms(3,4) by simp
qed

text \<open>Xray does not start from the second attempt on.\<close>

definition ex_broken :: "nat \<Rightarrow> string option" where
  "ex_broken n = (if n < 2 then None else Some ''exec format error'')"

theorem apply_failure_restores_witness:
  "cfg (snd (apply_config (\<lambda>s. s) (ex_os\<lparr>os_start := ex_broken\<rparr>) ''c2'' (ex_manager [(''x'', ''c1'')]))) = Some ''c1''"
proof -
  let ?m = "ex_manager [(''x'', ''c1'')]"
  obtain r m' where run: "apply_config (\<lambda>s. s) (ex_os\<lparr>os_start := ex_broken\<rparr>) ''c2'' ?m = (r, m')"
    by (rule prod.exhaust)
  moreover have "isl (fst (apply_config (\<lambda>s. s) (ex_os\<lparr>os_start := ex_broken\<rparr>) ''c2'' ?m))"
    by code_simp
  ultimately obtain err where fail: "apply_config (\<lambda>s. s) (ex_os\<lparr>os_start := ex_broken\<rparr>) ''c2'' ?m = (Inl err, m')"
    by (cases r) simp_all
  have "cfg ?m = Some ''c1''" by (simp add: ex_manager_def)
  from apply_failure_restores [OF ex_names_apart ex_writes_ok this _ fail] show ?thesis by (simp add: fail)
qed

text \<open>
  Claim C26. What a first configuration that cannot be started leaves behind. With no
  configuration and no backup before, a failed \<^verbatim>\<open>Apply\<close> that got past the test leaves the bad
  configuration on disk; applying it again reports "unchanged" and no error; and the next
  configuration, when it fails too, is "rolled back to last-good", which is the bad one, now
  also the backup, although Xray never started on it.
\<close>

theorem first_bad_config_becomes_last_good:
  assumes "names_apart e m" and "writes_ok e" and "cfg m = None" and "bak m = None"
    and "apply_config sha e c m = (Inl err, m')" and "cfg m' \<noteq> None"
    and "c \<noteq> []" and "apply_config sha e c2 m' = (Inl err2, m'')" and "fst (validate_content e c2 m') = None"
  shows "cfg m' = Some c \<and> bak m' = None \<and> apply_config sha e c m' = (Inr False, m')
    \<and> cfg m'' = Some c \<and> bak m'' = Some c"
proof -
  let ?b = "\<lambda>c m. back_up_old (\<lambda>_. True) e (snd (validate_content e c m))"
  have sw: "switch_config e c (?b c m) = (Some err, m')"
    using apply_config_cases(2) [OF assms(5)] assms(3,6) same_pathsD(1) [OF validate_frame(3) [where e = e and c = c and m = m]]
    by auto
  note s = switch_failure [OF prepared(1) [OF assms(1)] assms(2) sw]
  have bak: "bak (?b c m) = None" using prepared(4) [OF assms(1,2), of "\<lambda>_. True" c] assms(3,4) by simp
  have c: "cfg m' = Some c" "bak m' = None" using s bak by simp_all
  have n: "names_apart e m'"
    using same_pathsD(4) [OF s(3)] prepared(1) [OF assms(1)] by simp
  have sw2: "switch_config e c2 (?b c2 m') = (Some err2, m'')"
    using assms(8,9) by (auto simp: apply_config_def split: option.splits prod.splits if_splits)
  note s2 = switch_failure [OF prepared(1) [OF n] assms(2) sw2]
  have "bak (?b c2 m') = Some c" using prepared(4) [OF n assms(2), of "\<lambda>_. True" c2] c assms(7) by simp
  then have "cfg m'' = Some c" "bak m'' = Some c" using s2 assms(7) by simp_all
  with c show ?thesis by (simp add: apply_config_def same_config_def)
qed

theorem first_bad_config_becomes_last_good_witness:
  "bak (snd (apply_config (\<lambda>s. s) (ex_os\<lparr>os_start := \<lambda>_. Some ''exec format error''\<rparr>) ''c2''
     (snd (apply_config (\<lambda>s. s) (ex_os\<lparr>os_start := \<lambda>_. Some ''exec format error''\<rparr>) ''c1'' (ex_manager []))))) = Some ''c1''"
proof -
  let ?e = "ex_os\<lparr>os_start := \<lambda>_. Some ''exec format error''\<rparr>"
  obtain r m' where run: "apply_config (\<lambda>s. s) ?e ''c1'' (ex_manager []) = (r, m')" by (rule prod.exhaust)
  obtain r2 m'' where run2: "apply_config (\<lambda>s. s) ?e ''c2'' m' = (r2, m'')" by (rule prod.exhaust)
  have "isl (fst (apply_config (\<lambda>s. s) ?e ''c1'' (ex_manager [])))"
    and "cfg (snd (apply_config (\<lambda>s. s) ?e ''c1'' (ex_manager []))) \<noteq> None"
    and "isl (fst (apply_config (\<lambda>s. s) ?e ''c2'' (snd (apply_config (\<lambda>s. s) ?e ''c1'' (ex_manager [])))))"
    and "fst (validate_content ?e ''c2'' (snd (apply_config (\<lambda>s. s) ?e ''c1'' (ex_manager [])))) = None"
    subgoal by code_simp
    subgoal by code_simp
    subgoal by code_simp
    subgoal by code_simp
    done
  with run run2 have r: "isl r" "isl r2" "cfg m' \<noteq> None" "fst (validate_content ?e ''c2'' m') = None"
    by simp_all
  then obtain err err2 where "r = Inl err" "r2 = Inl err2" by (cases r; cases r2) simp_all
  with run run2 have fail: "apply_config (\<lambda>s. s) ?e ''c1'' (ex_manager []) = (Inl err, m')"
    "apply_config (\<lambda>s. s) ?e ''c2'' m' = (Inl err2, m'')" by simp_all
  have "cfg (ex_manager []) = None" "bak (ex_manager []) = None" by (simp_all add: ex_manager_def)
  from first_bad_config_becomes_last_good [OF ex_names_apart ex_writes_ok this fail(1) r(3) _ fail(2) r(4)]
  show ?thesis by (simp add: fail)
qed

text \<open>
  A recovery that succeeds leaves Xray running on the configuration that was on disk or
  on the last-good one, and that configuration is the one on disk afterwards.
\<close>

lemma recover_runs_known_config:
  assumes "names_apart e m" and "recover e m = (None, m')"
  shows "\<exists>c. (c = cfg m \<or> c = bak m) \<and> cfg m' = c \<and> mg_cmd m' = Some \<lparr>cm_config = c, cm_alive = True\<rparr>"
proof -
  let ?m1 = "snd (restart_locked e m)"
  have n1: "names_apart e ?m1" using same_pathsD(4) [OF restart_frame [where e = e and m = m]] assms(1) by simp
  note f = restart_files [OF assms(1)]
  show ?thesis
  proof (cases "fst (restart_locked e m)")
    case None
    then have "restart_locked e m = (None, m')"
      using assms(2) by (auto simp: recover_def split: option.splits prod.splits)
    from restart_runs [OF this assms(1)] f this show ?thesis by auto
  next
    case (Some err)
    then obtain b where b: "bak ?m1 = Some b"
      and ok: "fst (write_config e b ?m1) = None" "restart_locked e (snd (write_config e b ?m1)) = (None, m')"
      using assms(2) by (auto simp: recover_def split: option.splits prod.splits if_splits)
    note w = write_config_effect [OF n1, of b]
    have n2: "names_apart e (snd (write_config e b ?m1))" using same_pathsD(4) [OF w(3)] n1 by simp
    from restart_runs [OF ok(2) n2] restart_files(1) [OF n2] ok w(1) f(2) b
    show ?thesis by (intro exI [of _ "Some b"]) simp
  qed
qed

lemma recover_runs_known_config_example:
  "mg_cmd (snd (recover (ex_os\<lparr>os_start := \<lambda>_. None\<rparr>) (ex_manager [(''x'', ''c1'')])))
     = Some \<lparr>cm_config = Some ''c1'', cm_alive = True\<rparr>"
proof -
  let ?e = "ex_os\<lparr>os_start := \<lambda>_. None\<rparr>" and ?m = "ex_manager [(''x'', ''c1'')]"
  obtain r m' where run: "recover ?e ?m = (r, m')" by (rule prod.exhaust)
  moreover have "fst (recover ?e ?m) = None" and c: "cfg (snd (recover ?e ?m)) = Some ''c1''" by code_simp+
  ultimately have "recover ?e ?m = (None, m')" by simp
  from recover_runs_known_config [OF ex_names_apart this] c run show ?thesis by auto
qed


text \<open>
  The version the agent reports is one line of at most 64 characters, whatever the
  binary prints.
\<close>

lemma concise_version_line_short:
  "length (concise_version_line out) \<le> 64 \<and> CHR 0x0A \<notin> set (concise_version_line out)"
proof -
  let ?line = "takeWhile (\<lambda>c. c \<noteq> CHR 0x0A) (trim_space out)"
  have "CHR 0x0A \<notin> set ?line" by (auto dest: set_takeWhileD)
  moreover have "CHR 0x0A \<notin> set f" if "f \<in> set (str_fields ?line)" for f
    using str_fields_no_space [OF that] by (auto simp: space_bytes_def)
  ultimately show ?thesis
    by (auto simp: concise_version_line_def Let_def dest!: in_set_takeD split: list.splits if_splits)
qed

end
