(* ===== verification/Session.thy ===== *)
theory Session
  imports Stats
begin

text \<open>
  The session tracker, \<^verbatim>\<open>internal/session/tracker.go\<close>: parsing Xray's access log, consuming it
  incrementally, and the IPs and connections of the last moments. The time stamp of a log line
  depends on the local time zone: \<open>ptime\<close> is \<^verbatim>\<open>time.ParseInLocation\<close> with the layout of the log,
  and \<open>ip_ok\<close> is whether \<^verbatim>\<open>net.ParseIP\<close> accepts an address.
\<close>

section \<open>Parsing a line\<close>

record event =
  ev_UserID :: string
  ev_InboundID :: string
  ev_IP :: string
  ev_At :: gotime

type_synonym time_parser = "string \<Rightarrow> gotime option"

definition parse_log_time :: "time_parser \<Rightarrow> string \<Rightarrow> gotime \<Rightarrow> gotime" where
  "parse_log_time ptime head fallback =
     (let head = trim_space head
      in if 19 \<le> length head
         then (case ptime (take 19 head) of Some ts \<Rightarrow> ts | None \<Rightarrow> fallback)
         else fallback)"

text \<open>The host of \<^verbatim>\<open>net.SplitHostPort\<close>, \<open>None\<close> where it returns an error.\<close>

definition split_host :: "string \<Rightarrow> string option" where
  "split_host s =
     (case last_index '':'' s of
        None \<Rightarrow> None
      | Some i \<Rightarrow>
          if hd s = CHR ''['' then
            (case index_of '']'' s of
               None \<Rightarrow> None
             | Some j \<Rightarrow>
                 if j + 1 \<noteq> i then None
                 else if CHR ''['' \<in> set (drop 1 s) \<or> CHR '']'' \<in> set (drop (j + 1) s) then None
                 else Some (take (j - 1) (drop 1 s)))
          else if CHR '':'' \<in> set (take i s) \<or> CHR ''['' \<in> set s \<or> CHR '']'' \<in> set s then None
          else Some (take i s))"

definition source_ip :: "(string \<Rightarrow> bool) \<Rightarrow> string \<Rightarrow> string" where
  "source_ip ip_ok source =
     (let source = trim_prefix ''udp:'' (trim_prefix ''tcp:'' source)
      in case split_host source of
          Some host \<Rightarrow> trim_bytes ''[]'' host
        | None \<Rightarrow> if ip_ok (trim_bytes ''[]'' source) then trim_bytes ''[]'' source else [])"

definition line_ends :: "char list" where
  "line_ends = [CHR '' '', CHR 0x09, CHR 0x0D, CHR 0x0A]"

definition parse_access_line ::
  "time_parser \<Rightarrow> (string \<Rightarrow> bool) \<Rightarrow> string \<Rightarrow> gotime \<Rightarrow> event option" where
  "parse_access_line ptime ip_ok line now =
     (case index_of ''from '' line of
        None \<Rightarrow> None
      | Some from_at \<Rightarrow>
          let rest = drop (from_at + 5) line
          in case index_of '' accepted '' rest of
              None \<Rightarrow> None
            | Some accepted_at \<Rightarrow>
                (case last_index '' email: '' rest of
                   None \<Rightarrow> None
                 | Some email_at \<Rightarrow>
                     let source = trim_space (take accepted_at rest);
                         email = trim_space (drop (email_at + 8) rest);
                         email = (case index_any line_ends email of None \<Rightarrow> email | Some i \<Rightarrow> take i email)
                     in case parse_accounting_email email of
                         None \<Rightarrow> None
                       | Some (uid, iid) \<Rightarrow>
                           let ip = source_ip ip_ok source
                           in if ip = [] then None
                              else Some \<lparr>ev_UserID = uid, ev_InboundID = iid, ev_IP = ip,
                                ev_At = parse_log_time ptime (take from_at line) now\<rparr>))"

section \<open>The tracker\<close>

record track =
  tk_ips :: "(string, gotime) gomap"
  tk_seen :: "gotime list"
  tk_last :: gotime

type_synonym items = "(string \<times> string, track) gomap"

text \<open>\<open>tr_info\<close> is the identity of the log file (device and inode) at the last call.\<close>

record tracker =
  tr_items :: items
  tr_offset :: nat
  tr_info :: "nat option"

definition new_tracker :: tracker where
  "new_tracker = \<lparr>tr_items = [], tr_offset = 0, tr_info = None\<rparr>"

definition new_track :: track where
  "new_track = \<lparr>tk_ips = [], tk_seen = [], tk_last = zero_time\<rparr>"

definition event_key :: "event \<Rightarrow> string \<times> string" where
  "event_key ev = (ev_UserID ev, ev_InboundID ev)"

definition track_of :: "items \<Rightarrow> string \<times> string \<Rightarrow> track" where
  "track_of m k = (case go_get m k of None \<Rightarrow> new_track | Some e \<Rightarrow> e)"

definition add_event :: "event \<Rightarrow> items \<Rightarrow> items" where
  "add_event ev m =
     (let e = track_of m (event_key ev)
      in go_put (event_key ev)
           \<lparr>tk_ips = go_put (ev_IP ev) (ev_At ev) (tk_ips e), tk_seen = tk_seen e @ [ev_At ev],
            tk_last = (if ev_At ev > tk_last e then ev_At ev else tk_last e)\<rparr> m)"

section \<open>Consuming the log\<close>

definition newline :: char where "newline = CHR 0x0A"

text \<open>\<^verbatim>\<open>ReadString('\n')\<close>: up to and with the next newline, or all that is left.\<close>

definition read_string :: "string \<Rightarrow> string \<times> string" where
  "read_string s =
     (case dropWhile (\<lambda>c. c \<noteq> newline) s of
        [] \<Rightarrow> (s, [])
      | c # rest \<Rightarrow> (takeWhile (\<lambda>c. c \<noteq> newline) s @ [c], rest))"

text \<open>The complete lines of what is read, each with its newline.\<close>

function complete_lines :: "string \<Rightarrow> string list" where
  "complete_lines s =
     (case dropWhile (\<lambda>c. c \<noteq> newline) s of
        [] \<Rightarrow> []
      | c # rest \<Rightarrow> (takeWhile (\<lambda>c. c \<noteq> newline) s @ [c]) # complete_lines rest)"
  by pat_completeness auto

termination
proof (relation "measure length")
  fix s c rest assume "dropWhile (\<lambda>c. c \<noteq> newline) s = c # rest"
  then have "length (c # rest) \<le> length s" by (metis length_dropWhile_le)
  then show "(rest, s) \<in> measure length" by simp
qed simp

declare complete_lines.simps [simp del]

definition lines_length :: "string list \<Rightarrow> nat" where
  "lines_length ls = sum_list (map length ls)"

definition consume_lines ::
  "time_parser \<Rightarrow> (string \<Rightarrow> bool) \<Rightarrow> gotime \<Rightarrow> string list \<Rightarrow> items \<Rightarrow> items" where
  "consume_lines ptime ip_ok now ls m =
     foldl (\<lambda>m line. case parse_access_line ptime ip_ok line now of None \<Rightarrow> m | Some ev \<Rightarrow> add_event ev m) m ls"

definition max_initial_tail :: nat where
  "max_initial_tail = 8 * 2 ^ 20"

text \<open>
  The log at one call: its identity and size when it is examined, the bytes that can be read,
  and the error that ends the reading where it is not the end of the file.
\<close>

record log_file =
  lf_id :: nat
  lf_size :: nat
  lf_data :: string
  lf_error :: "string option"

datatype open_result = NoFile | OpenError string | Opened log_file

definition consume_file ::
  "time_parser \<Rightarrow> (string \<Rightarrow> bool) \<Rightarrow> open_result \<Rightarrow> gotime \<Rightarrow> tracker \<Rightarrow> string option \<times> tracker" where
  "consume_file ptime ip_ok f now t =
     (case f of
        NoFile \<Rightarrow> (None, t)
      | OpenError e \<Rightarrow> (Some e, t)
      | Opened lf \<Rightarrow>
          let rotated = (case tr_info t of None \<Rightarrow> False | Some k \<Rightarrow> k \<noteq> lf_id lf);
              offset = (if rotated \<or> lf_size lf < tr_offset t then 0 else tr_offset t);
              initial_tail = (offset = 0 \<and> max_initial_tail < lf_size lf);
              start = (if initial_tail then lf_size lf - max_initial_tail else offset);
              data = drop start (lf_data lf);
              (partial, rest) = (if initial_tail then read_string data else ([], data));
              ls = complete_lines rest;
              t' = t\<lparr>tr_items := consume_lines ptime ip_ok now ls (tr_items t), tr_offset := offset,
                tr_info := Some (lf_id lf)\<rparr>
          in case lf_error lf of
              Some e \<Rightarrow> (Some e, t')
            | None \<Rightarrow> (None, t'\<lparr>tr_offset := start + length partial + lines_length ls\<rparr>))"

section \<open>Reporting\<close>

definition purge :: "gotime \<Rightarrow> track \<Rightarrow> track" where
  "purge cutoff e = e\<lparr>tk_ips := filter (\<lambda>x. \<not> snd x < cutoff) (tk_ips e),
     tk_seen := filter (\<lambda>ts. \<not> ts < cutoff) (tk_seen e)\<rparr>"

definition live_items :: "gotime \<Rightarrow> items \<Rightarrow> items" where
  "live_items cutoff m =
     filter (\<lambda>x. \<not> (tk_ips (snd x) = [] \<and> tk_seen (snd x) = [])) (map (\<lambda>(k, e). (k, purge cutoff e)) m)"

definition track_record :: "(string \<times> string) \<times> track \<Rightarrow> session_record" where
  "track_record x =
     \<lparr>ses_UserID = fst (fst x), ses_InboundID = snd (fst x), ses_IPs = sort (map fst (tk_ips (snd x))),
      ses_LastSeen = unix_sec (tk_last (snd x)), ses_RecentConnections = int (length (tk_seen (snd x))),
      ses_Source = []\<rparr>"

definition records :: "gotime \<Rightarrow> gotime \<Rightarrow> items \<Rightarrow> session_record list \<times> items" where
  "records now window m =
     (let live = live_items (now - window) m in (sort_slice session_order (map track_record live), live))"

definition counts :: "session_record list \<Rightarrow> nat \<times> nat" where
  "counts rs =
     (length (go_index ses_UserID (\<lambda>_. ()) (filter (\<lambda>r. ses_IPs r \<noteq> []) rs)),
      sum_list (map (\<lambda>r. length (ses_IPs r)) rs))"

section \<open>The log is consumed line by line\<close>

lemma complete_lines_none: "newline \<notin> set s \<Longrightarrow> complete_lines s = []"
proof -
  assume "newline \<notin> set s"
  then have "dropWhile (\<lambda>c. c \<noteq> newline) s = []" by (auto simp: dropWhile_eq_Nil_conv)
  then show ?thesis by (simp only: complete_lines.simps [of s] list.case)
qed

lemma complete_lines_line: "newline \<notin> set l \<Longrightarrow> complete_lines (l @ newline # s) = (l @ [newline]) # complete_lines s"
proof -
  assume l: "newline \<notin> set l"
  then have "dropWhile (\<lambda>c. c \<noteq> newline) (l @ newline # s) = newline # s"
    and "takeWhile (\<lambda>c. c \<noteq> newline) (l @ newline # s) = l"
    by (auto simp: dropWhile_append takeWhile_append dropWhile_eq_Nil_conv takeWhile_eq_all_conv)
  then show ?thesis by (simp add: complete_lines.simps [of "l @ newline # s"])
qed

lemma first_line: "newline \<in> set s \<Longrightarrow> \<exists>l r. s = l @ newline # r \<and> newline \<notin> set l"
  by (rule split_list_first)

text \<open>Reading on from where the complete lines of a prefix end misses and repeats nothing.\<close>

lemma complete_lines_append:
  "complete_lines (a @ b) = complete_lines a @ complete_lines (drop (lines_length (complete_lines a)) (a @ b))"
proof (induction "length a" arbitrary: a rule: less_induct)
  case less
  show ?case
  proof (cases "newline \<in> set a")
    case False
    then show ?thesis by (simp add: complete_lines_none lines_length_def)
  next
    case True
    from first_line [OF this] obtain l r where a: "a = l @ newline # r" "newline \<notin> set l" by blast
    have "complete_lines (r @ b) = complete_lines r @ complete_lines (drop (lines_length (complete_lines r)) (r @ b))"
      by (rule less) (simp add: a)
    then show ?thesis
      using a(2) by (simp add: a(1) complete_lines_line lines_length_def)
  qed
qed

lemma lines_length_bound: "lines_length (complete_lines s) \<le> length s"
proof (induction "length s" arbitrary: s rule: less_induct)
  case less
  show ?case
  proof (cases "newline \<in> set s")
    case False
    then show ?thesis by (simp add: complete_lines_none lines_length_def)
  next
    case True
    from first_line [OF this] obtain l r where s: "s = l @ newline # r" "newline \<notin> set l" by blast
    have "lines_length (complete_lines r) \<le> length r" by (rule less) (simp add: s)
    then show ?thesis using s(2) by (simp add: s(1) complete_lines_line lines_length_def)
  qed
qed

lemma lines_length_append: "lines_length (xs @ ys) = lines_length xs + lines_length ys"
  by (simp add: lines_length_def)

lemma lines_length_pos:
  assumes "complete_lines s \<noteq> []"
  shows "0 < lines_length (complete_lines s)"
proof (cases "newline \<in> set s")
  case True
  from first_line [OF this] obtain l r where s: "s = l @ newline # r" "newline \<notin> set l" by blast
  show ?thesis using s(2) by (simp add: s(1) complete_lines_line lines_length_def)
qed (use assms in \<open>simp add: complete_lines_none\<close>)

definition snapshot :: "nat \<Rightarrow> string \<Rightarrow> open_result" where
  "snapshot k data = Opened \<lparr>lf_id = k, lf_size = length data, lf_data = data, lf_error = None\<rparr>"

text \<open>The state of a tracker that consumed the complete lines of \<open>d\<close>.\<close>

definition consumed ::
  "time_parser \<Rightarrow> (string \<Rightarrow> bool) \<Rightarrow> gotime \<Rightarrow> nat \<Rightarrow> string \<Rightarrow> tracker \<Rightarrow> bool" where
  "consumed ptime ip_ok now k d t \<longleftrightarrow>
     tr_items t = consume_lines ptime ip_ok now (complete_lines d) []
       \<and> tr_offset t = lines_length (complete_lines d) \<and> (tr_info t = Some k \<or> tr_info t = None)"

lemma consume_no_tail:
  assumes "tr_info t = Some k \<or> tr_info t = None" and "tr_offset t \<le> length data"
    and "0 < tr_offset t \<or> length data \<le> max_initial_tail"
  shows "consume_file ptime ip_ok (snapshot k data) now t = (None,
    \<lparr>tr_items = consume_lines ptime ip_ok now (complete_lines (drop (tr_offset t) data)) (tr_items t),
     tr_offset = tr_offset t + lines_length (complete_lines (drop (tr_offset t) data)), tr_info = Some k\<rparr>)"
  using assms by (auto simp: consume_file_def snapshot_def Let_def)

lemma consume_step:
  assumes c: "consumed ptime ip_ok now k d t"
    and small: "0 < tr_offset t \<or> length (d @ d') \<le> max_initial_tail"
  shows "consumed ptime ip_ok now k (d @ d') (snd (consume_file ptime ip_ok (snapshot k (d @ d')) now t))"
proof -
  define L where "L = complete_lines (drop (lines_length (complete_lines d)) (d @ d'))"
  have split: "complete_lines (d @ d') = complete_lines d @ L"
    unfolding L_def by (rule complete_lines_append)
  have bound: "tr_offset t \<le> length (d @ d')"
    using lines_length_bound [of d] c by (simp add: consumed_def)
  have info: "tr_info t = Some k \<or> tr_info t = None" using c by (simp add: consumed_def)
  have "complete_lines (drop (tr_offset t) (d @ d')) = L"
    using c by (simp add: consumed_def L_def)
  then show ?thesis
    using c unfolding consume_no_tail [OF info bound small]
    by (simp add: consumed_def split consume_lines_def lines_length_append)
qed

text \<open>A log that grows by chunks, with a call of \<^verbatim>\<open>ConsumeFile\<close> after each.\<close>

fun consume_growing ::
  "time_parser \<Rightarrow> (string \<Rightarrow> bool) \<Rightarrow> gotime \<Rightarrow> nat \<Rightarrow> string \<Rightarrow> string list \<Rightarrow> tracker \<Rightarrow> tracker" where
  "consume_growing ptime ip_ok now k d [] t = t"
| "consume_growing ptime ip_ok now k d (c # cs) t =
     consume_growing ptime ip_ok now k (d @ c) cs (snd (consume_file ptime ip_ok (snapshot k (d @ c)) now t))"

lemma consumed_offset_mono:
  "consumed ptime ip_ok now k d t \<Longrightarrow> consumed ptime ip_ok now k (d @ d') t' \<Longrightarrow> tr_offset t \<le> tr_offset t'"
  by (subst (asm) (2) consumed_def, subst (asm) complete_lines_append) (simp add: consumed_def lines_length_append)

lemma consume_growing_consumed:
  assumes "consumed ptime ip_ok now k d t" and "0 < tr_offset t"
  shows "consumed ptime ip_ok now k (d @ concat cs) (consume_growing ptime ip_ok now k d cs t)"
  using assms
proof (induction cs arbitrary: d t)
  case (Cons c cs)
  let ?t = "snd (consume_file ptime ip_ok (snapshot k (d @ c)) now t)"
  note step = consume_step [OF Cons.prems(1) disjI1 [OF Cons.prems(2)], of c]
  have "0 < tr_offset ?t" using consumed_offset_mono [OF Cons.prems(1) step] Cons.prems(2) by simp
  from Cons.IH [OF step this] show ?case by simp
qed simp

section \<open>The history of events\<close>

definition seen_times :: "event list \<Rightarrow> string \<times> string \<Rightarrow> gotime list" where
  "seen_times evs k = map ev_At (filter (\<lambda>ev. event_key ev = k) evs)"

definition last_at :: "event list \<Rightarrow> string \<times> string \<Rightarrow> string \<Rightarrow> gotime option" where
  "last_at evs k ip = map_option ev_At (find (\<lambda>ev. event_key ev = k \<and> ev_IP ev = ip) (rev evs))"

definition hist_last :: "event list \<Rightarrow> string \<times> string \<Rightarrow> gotime" where
  "hist_last evs k = foldl max zero_time (seen_times evs k)"

definition recent_ips :: "event list \<Rightarrow> gotime \<Rightarrow> string \<times> string \<Rightarrow> string list" where
  "recent_ips evs c k =
     sort (remdups (map ev_IP (filter (\<lambda>ev. event_key ev = k \<and>
       (case last_at evs k (ev_IP ev) of None \<Rightarrow> False | Some ts \<Rightarrow> c \<le> ts)) evs)))"

definition hist_record :: "event list \<Rightarrow> gotime \<Rightarrow> string \<times> string \<Rightarrow> session_record" where
  "hist_record evs c k =
     \<lparr>ses_UserID = fst k, ses_InboundID = snd k, ses_IPs = recent_ips evs c k,
      ses_LastSeen = unix_sec (hist_last evs k),
      ses_RecentConnections = int (length (filter (\<lambda>ts. c \<le> ts) (seen_times evs k))), ses_Source = []\<rparr>"

text \<open>
  The items a tracker can have after the events \<open>evs\<close>, with reports taken in between at cutoffs
  up to \<open>c\<close>.
\<close>

inductive tracked :: "event list \<Rightarrow> gotime \<Rightarrow> items \<Rightarrow> bool" where
  fresh: "tracked [] c []"
| added: "tracked evs c m \<Longrightarrow> tracked (evs @ [ev]) c (add_event ev m)"
| reported: "tracked evs c m \<Longrightarrow> c \<le> now - window \<Longrightarrow> tracked evs (now - window) (snd (records now window m))"

text \<open>The invariant: a track agrees with the history as far as the cutoff.\<close>

definition agrees :: "event list \<Rightarrow> gotime \<Rightarrow> string \<times> string \<Rightarrow> track \<Rightarrow> bool" where
  "agrees evs c k e \<longleftrightarrow>
     go_ok (tk_ips e)
   \<and> (\<forall>ip ts. c \<le> ts \<longrightarrow> (go_get (tk_ips e) ip = Some ts \<longleftrightarrow> last_at evs k ip = Some ts))
   \<and> filter (\<lambda>ts. c \<le> ts) (tk_seen e) = filter (\<lambda>ts. c \<le> ts) (seen_times evs k)
   \<and> zero_time \<le> tk_last e \<and> tk_last e \<le> hist_last evs k
   \<and> (tk_last e = hist_last evs k \<or> (\<forall>ts \<in> set (seen_times evs k). ts < c))"

lemma seen_times_snoc: "seen_times (evs @ [ev]) k = seen_times evs k @ (if event_key ev = k then [ev_At ev] else [])"
  by (simp add: seen_times_def)

lemma last_at_snoc:
  "last_at (evs @ [ev]) k ip = (if event_key ev = k \<and> ev_IP ev = ip then Some (ev_At ev) else last_at evs k ip)"
  by (simp add: last_at_def)

lemma hist_last_snoc:
  "hist_last (evs @ [ev]) k = (if event_key ev = k then max (hist_last evs k) (ev_At ev) else hist_last evs k)"
  by (simp add: hist_last_def seen_times_snoc)

lemma foldl_max: "foldl max (a :: gotime) xs = a \<or> foldl max a xs \<in> set xs"
  by (induction xs rule: rev_induct) (auto simp: max_def)

lemma hist_last_in: "hist_last evs k = zero_time \<or> hist_last evs k \<in> set (seen_times evs k)"
  unfolding hist_last_def by (rule foldl_max)

lemma agrees_new: "agrees [] c k new_track"
  by (simp add: agrees_def new_track_def last_at_def seen_times_def hist_last_def)

lemma agrees_add_other: "event_key ev \<noteq> k \<Longrightarrow> agrees evs c k e \<Longrightarrow> agrees (evs @ [ev]) c k e"
  by (simp add: agrees_def seen_times_snoc last_at_snoc hist_last_snoc)

lemma agrees_add:
  assumes "agrees evs c (event_key ev) e"
  shows "agrees (evs @ [ev]) c (event_key ev)
    \<lparr>tk_ips = go_put (ev_IP ev) (ev_At ev) (tk_ips e), tk_seen = tk_seen e @ [ev_At ev],
     tk_last = (if ev_At ev > tk_last e then ev_At ev else tk_last e)\<rparr>"
proof -
  let ?k = "event_key ev"
  have last: "tk_last e = hist_last evs ?k \<or> hist_last evs ?k < c \<and> (\<forall>ts \<in> set (seen_times evs ?k). ts < c)"
    using assms hist_last_in [of evs ?k] by (auto simp: agrees_def)
  then have "max (tk_last e) (ev_At ev) = max (hist_last evs ?k) (ev_At ev)
      \<or> (\<forall>ts \<in> set (seen_times evs ?k @ [ev_At ev]). ts < c)"
    using assms by (auto simp: agrees_def max_def)
  moreover have "(if ev_At ev > tk_last e then ev_At ev else tk_last e) = max (tk_last e) (ev_At ev)"
    by (simp add: max_def)
  ultimately show ?thesis
    using assms
    by (auto simp: agrees_def seen_times_snoc last_at_snoc hist_last_snoc go_ok_put map_simps)
qed

lemma track_of_add:
  "track_of (add_event ev m) k = (if k = event_key ev
     then \<lparr>tk_ips = go_put (ev_IP ev) (ev_At ev) (tk_ips (track_of m k)), tk_seen = tk_seen (track_of m k) @ [ev_At ev],
       tk_last = (if ev_At ev > tk_last (track_of m k) then ev_At ev else tk_last (track_of m k))\<rparr>
     else track_of m k)"
  by (simp add: add_event_def Let_def track_of_def map_simps)

lemma go_get_filter:
  "go_ok m \<Longrightarrow> go_get (filter P m) k = (case go_get m k of None \<Rightarrow> None | Some v \<Rightarrow> if P (k, v) then Some v else None)"
proof -
  assume ok: "go_ok m"
  have iff: "go_get (filter P m) k = Some v \<longleftrightarrow> go_get m k = Some v \<and> P (k, v)" for v
    unfolding go_get_in_set [OF go_ok_filter [OF ok]] go_get_in_set [OF ok] by auto
  show ?thesis
  proof (cases "go_get m k")
    case None
    with iff have "go_get (filter P m) k = None" by (metis option.distinct(1) not_None_eq)
    with None show ?thesis by simp
  next
    case (Some v)
    with iff have "go_get (filter P m) k = (if P (k, v) then Some v else None)"
      by (metis not_None_eq option.inject)
    with Some show ?thesis by simp
  qed
qed

lemma purge_get:
  "go_ok (tk_ips e) \<Longrightarrow> go_get (tk_ips (purge c e)) ip = Some ts \<longleftrightarrow> go_get (tk_ips e) ip = Some ts \<and> c \<le> ts"
  by (auto simp: purge_def go_get_filter split: option.splits if_splits)

text \<open>A track purged at a later cutoff agrees there, and so does the empty track that replaces it.\<close>

lemma filter_later: "(c :: gotime) \<le> c' \<Longrightarrow> filter (\<lambda>ts. c' \<le> ts) (filter (\<lambda>ts. c \<le> ts) xs) = filter (\<lambda>ts. c' \<le> ts) xs"
  by (induction xs) auto

lemma seen_later:
  assumes "agrees evs c k e" and "c \<le> c'"
  shows "filter (\<lambda>ts. c' \<le> ts) (tk_seen e) = filter (\<lambda>ts. c' \<le> ts) (seen_times evs k)"
  using assms filter_later [OF assms(2), of "tk_seen e"] filter_later [OF assms(2), of "seen_times evs k"]
  by (simp add: agrees_def)

lemma purge_seen:
  assumes "agrees evs c k e" and "c \<le> c'"
  shows "tk_seen (purge c' e) = filter (\<lambda>ts. c' \<le> ts) (seen_times evs k)"
  using seen_later [OF assms] by (simp add: purge_def not_less)

lemma agrees_purge:
  assumes "agrees evs c k e" and "c \<le> c'"
  shows "agrees evs c' k (purge c' e)"
proof -
  have "\<forall>ip ts. c' \<le> ts \<longrightarrow> (go_get (tk_ips (purge c' e)) ip = Some ts \<longleftrightarrow> last_at evs k ip = Some ts)"
    using assms by (auto simp: purge_get agrees_def)
  moreover have "filter (\<lambda>ts. c' \<le> ts) (tk_seen (purge c' e)) = filter (\<lambda>ts. c' \<le> ts) (seen_times evs k)"
    by (simp add: purge_seen [OF assms])
  moreover have "go_ok (tk_ips (purge c' e))"
    using assms(1) by (simp add: purge_def agrees_def go_ok_filter)
  moreover have "tk_last (purge c' e) = tk_last e" by (simp add: purge_def)
  ultimately show ?thesis
    using assms by (force simp: agrees_def)
qed

lemma last_at_time: "last_at evs k ip = Some ts \<Longrightarrow> ts \<in> set (seen_times evs k)"
  by (auto simp: last_at_def seen_times_def dest: find_Some_in)

text \<open>A purged track is empty exactly when no event of the key is recent.\<close>

lemma purge_empty:
  assumes "agrees evs c k e" and "c \<le> c'"
  shows "tk_ips (purge c' e) = [] \<and> tk_seen (purge c' e) = [] \<longleftrightarrow> (\<forall>ts \<in> set (seen_times evs k). ts < c')"
proof -
  have ok: "go_ok (tk_ips e)" using assms(1) by (simp add: agrees_def)
  have "tk_ips (purge c' e) = []" if none: "\<forall>ts \<in> set (seen_times evs k). ts < c'"
  proof (rule ccontr)
    assume "tk_ips (purge c' e) \<noteq> []"
    then obtain ip ts where "go_get (tk_ips (purge c' e)) ip = Some ts"
      by (cases "tk_ips (purge c' e)") force+
    then have "last_at evs k ip = Some ts" and "c' \<le> ts"
      using assms by (auto simp: purge_get [OF ok] agrees_def)
    with last_at_time [of evs k ip ts] none show False by auto
  qed
  then show ?thesis
    by (auto simp: purge_seen [OF assms] filter_empty_conv not_le)
qed

lemma purge_new [simp]: "tk_ips (purge c new_track) = []" "tk_seen (purge c new_track) = []"
  by (simp_all add: purge_def new_track_def)

lemma agrees_dropped:
  assumes "agrees evs c k e" and "c \<le> c'" and "\<forall>ts \<in> set (seen_times evs k). ts < c'"
  shows "agrees evs c' k new_track"
proof -
  have "last_at evs k ip \<noteq> Some ts" if "c' \<le> ts" for ip ts
    using last_at_time [of evs k ip ts] assms(3) that by force
  moreover have "zero_time \<le> hist_last evs k" using assms(1) by (simp add: agrees_def)
  ultimately show ?thesis
    using assms(3) by (auto simp: agrees_def new_track_def filter_empty_conv not_le)
qed

lemma live_get:
  assumes "go_ok m"
  shows "go_get (live_items c m) k =
    (case go_get m k of None \<Rightarrow> None
     | Some e \<Rightarrow> if tk_ips (purge c e) = [] \<and> tk_seen (purge c e) = [] then None else Some (purge c e))"
    and "go_ok (live_items c m)"
proof -
  let ?p = "map (\<lambda>(k, e). (k, purge c e)) m"
  have keys: "map fst ?p = map fst m" by (simp add: case_prod_unfold o_def)
  have ok: "go_ok ?p" unfolding go_ok_def keys using assms by (simp only: go_ok_def)
  then show "go_ok (live_items c m)" unfolding live_items_def by (rule go_ok_filter)
  have "go_get ?p k = map_option (purge c) (go_get m k)" by (simp add: map_of_map)
  then show "go_get (live_items c m) k =
    (case go_get m k of None \<Rightarrow> None
     | Some e \<Rightarrow> if tk_ips (purge c e) = [] \<and> tk_seen (purge c e) = [] then None else Some (purge c e))"
    by (simp add: live_items_def go_get_filter [OF ok] split: option.split)
qed

lemma tracked_agrees: "tracked evs c m \<Longrightarrow> go_ok m \<and> (\<forall>k. agrees evs c k (track_of m k))"
proof (induction rule: tracked.induct)
  case (fresh c)
  then show ?case by (simp add: track_of_def agrees_new)
next
  case (added evs c m ev)
  then have "go_ok (add_event ev m)" by (simp add: add_event_def Let_def go_ok_put)
  moreover have "agrees (evs @ [ev]) c k (track_of (add_event ev m) k)" for k
  proof (cases "k = event_key ev")
    case True
    have "agrees evs c (event_key ev) (track_of m (event_key ev))" using added.IH by blast
    from agrees_add [OF this] show ?thesis by (simp only: track_of_add True if_True simp_thms)
  next
    case False
    have "agrees evs c k (track_of m k)" using added.IH by blast
    from agrees_add_other [OF _ this] False show ?thesis by (simp add: track_of_add)
  qed
  ultimately show ?case by blast
next
  case (reported evs c m now window)
  let ?c = "now - window"
  have m: "go_ok m" using reported.IH by blast
  have "agrees evs ?c k (track_of (live_items ?c m) k)" for k
  proof -
    have a: "agrees evs c k (track_of m k)" using reported.IH by blast
    show ?thesis
      using agrees_purge [OF a reported.hyps(2)] purge_empty [OF a reported.hyps(2)]
        agrees_dropped [OF a reported.hyps(2)] agrees_purge [OF a reported.hyps(2)]
      by (auto simp: track_of_def live_get [OF m] split: option.splits if_splits)
  qed
  with live_get(2) [OF m] show ?case by (simp add: records_def Let_def)
qed

section \<open>Properties\<close>

lemma live_keys:
  assumes "tracked evs c m" and "c \<le> c'"
  shows "go_get (live_items c' m) k = None \<longleftrightarrow> (\<forall>ts \<in> set (seen_times evs k). ts < c')"
    and "go_get (live_items c' m) k = Some e \<Longrightarrow> e = purge c' (track_of m k) \<and> agrees evs c k (track_of m k)"
proof -
  have m: "go_ok m" and a: "agrees evs c k (track_of m k)" using tracked_agrees [OF assms(1)] by blast+
  show "go_get (live_items c' m) k = None \<longleftrightarrow> (\<forall>ts \<in> set (seen_times evs k). ts < c')"
    using purge_empty [OF a assms(2)] by (auto simp: live_get [OF m] track_of_def split: option.splits)
  show "go_get (live_items c' m) k = Some e \<Longrightarrow> e = purge c' (track_of m k) \<and> agrees evs c k (track_of m k)"
    using a by (auto simp: live_get [OF m] track_of_def split: option.splits if_splits)
qed

lemma sorted_ips:
  assumes "agrees evs c k e" and "c \<le> c'"
  shows "sort (map fst (tk_ips (purge c' e))) = recent_ips evs c' k"
proof -
  let ?rs = "map ev_IP (filter (\<lambda>ev. event_key ev = k \<and>
       (case last_at evs k (ev_IP ev) of None \<Rightarrow> False | Some ts \<Rightarrow> c' \<le> ts)) evs)"
  have ok: "go_ok (tk_ips (purge c' e))" using agrees_purge [OF assms] by (simp add: agrees_def)
  have l: "ip \<in> fst ` set (tk_ips (purge c' e)) \<longleftrightarrow> (\<exists>ts. c' \<le> ts \<and> last_at evs k ip = Some ts)" for ip
  proof -
    have "ip \<in> fst ` set (tk_ips (purge c' e)) \<longleftrightarrow> (\<exists>ts. go_get (tk_ips (purge c' e)) ip = Some ts)"
      by (metis domIff dom_map_of_conv_image_fst not_None_eq)
    moreover have "go_get (tk_ips (purge c' e)) ip = Some ts \<longleftrightarrow> c' \<le> ts \<and> last_at evs k ip = Some ts" for ts
      using assms purge_get [of e c' ip ts] unfolding agrees_def by (meson order_trans)
    ultimately show ?thesis by simp
  qed
  have r: "ip \<in> set ?rs \<longleftrightarrow> (\<exists>ts. c' \<le> ts \<and> last_at evs k ip = Some ts)" for ip
  proof
    assume "\<exists>ts. c' \<le> ts \<and> last_at evs k ip = Some ts"
    then obtain ts where ts: "c' \<le> ts" "last_at evs k ip = Some ts" by blast
    then obtain ev where "find (\<lambda>ev. event_key ev = k \<and> ev_IP ev = ip) (rev evs) = Some ev"
      by (auto simp: last_at_def)
    from find_Some_in [OF this] ts show "ip \<in> set ?rs" by auto
  qed (auto split: option.splits)
  have set: "set (map fst (tk_ips (purge c' e))) = set ?rs"
  proof (rule set_eqI)
    show "ip \<in> set (map fst (tk_ips (purge c' e))) \<longleftrightarrow> ip \<in> set ?rs" for ip
      unfolding r unfolding set_map by (rule l)
  qed
  have "distinct (map fst (tk_ips (purge c' e)))" by (rule go_ok_distinct [OF ok])
  then have "sort (map fst (tk_ips (purge c' e))) = sort (remdups (map fst (tk_ips (purge c' e))))"
    by (simp add: distinct_remdups_id)
  also have "\<dots> = sort (remdups ?rs)"
    using set by (simp only: sorted_list_of_set_sort_remdups [symmetric])
  finally show ?thesis by (simp only: recent_ips_def)
qed

lemma track_record_hist:
  assumes "tracked evs c m" and "c \<le> c'" and e: "go_get (live_items c' m) k = Some e"
  shows "track_record (k, e) = hist_record evs c' k"
proof -
  have e': "e = purge c' (track_of m k)" and a: "agrees evs c k (track_of m k)"
    using live_keys(2) [OF assms(1,2) e] by simp_all
  have "\<not> (\<forall>ts \<in> set (seen_times evs k). ts < c')" using live_keys(1) [OF assms(1,2), of k] e by simp
  then have "tk_last e = hist_last evs k"
    using a assms(2) by (force simp: e' purge_def agrees_def)
  then show ?thesis
    using sorted_ips [OF a assms(2)] purge_seen [OF a assms(2)]
    by (simp add: track_record_def hist_record_def e')
qed

text \<open>
  Claim C24. The access log is consumed exactly once. When the log of a running Xray grows by
  arbitrary chunks, which may end in the middle of a line, and the tracker looks at it after each
  chunk, it ends up with the events of every complete line of the whole log, each once and in
  order, and with its offset just behind the last complete line. (The first chunk holds a
  complete line and is within the bound on the initial tail.)
\<close>

theorem log_consumed_once:
  assumes "complete_lines c \<noteq> []" and "length c \<le> max_initial_tail"
  shows "tr_items (consume_growing ptime ip_ok now k [] (c # cs) new_tracker)
      = consume_lines ptime ip_ok now (complete_lines (concat (c # cs))) []
    \<and> tr_offset (consume_growing ptime ip_ok now k [] (c # cs) new_tracker)
      = lines_length (complete_lines (concat (c # cs)))"
proof -
  let ?t = "snd (consume_file ptime ip_ok (snapshot k ([] @ c)) now new_tracker)"
  have "consumed ptime ip_ok now k [] new_tracker"
    by (simp add: consumed_def new_tracker_def complete_lines_none consume_lines_def lines_length_def)
  from consume_step [OF this, of c] assms(2) have t: "consumed ptime ip_ok now k c ?t" by simp
  then have "0 < tr_offset ?t" using lines_length_pos [OF assms(1)] by (simp add: consumed_def)
  from consume_growing_consumed [OF t this, of cs] show ?thesis by (simp add: consumed_def)
qed

theorem log_consumed_once_witness:
  "tr_offset (consume_growing (\<lambda>_. None) (\<lambda>_. True) 0 1 []
     [[CHR ''a'', newline, CHR ''b''], [CHR ''c'', newline]] new_tracker) = 5"
  using log_consumed_once [of "[CHR ''a'', newline, CHR ''b'']" "\<lambda>_. None" "\<lambda>_. True" 0 1 "[[CHR ''c'', newline]]"]
    complete_lines_line [of "''a''" "''b''"] complete_lines_line [of "''a''" "''bc'' @ [newline]"]
    complete_lines_line [of "''bc''" "[]"] complete_lines_none [of "[]"]
  by (simp add: newline_def lines_length_def max_initial_tail_def)

text \<open>
  Claim C15. A report is a function of the history. However events and earlier reports were
  interleaved (as long as the cutoff never goes back), a report with cutoff \<open>now - window\<close> has
  exactly one record for each user and inbound with an event since the cutoff: the IPs whose
  latest event is since the cutoff, the number of events since the cutoff, and the latest time
  the user was ever seen; ordered by inbound and user.
\<close>

theorem records_refine_history:
  assumes "tracked evs c m" and "c \<le> now - window"
  shows "set (fst (records now window m))
      = hist_record evs (now - window) ` event_key ` {ev \<in> set evs. now - window \<le> ev_At ev}
    \<and> sorted (map session_order (fst (records now window m)))
    \<and> distinct (map session_order (fst (records now window m)))"
proof -
  let ?c = "now - window"
  let ?live = "live_items ?c m"
  have ok: "go_ok ?live" using live_get(2) tracked_agrees [OF assms(1)] by blast
  have rec: "map track_record ?live = map (hist_record evs ?c) (map fst ?live)"
    using track_record_hist [OF assms] go_get_in_set [OF ok] by auto
  have keys: "fst ` set ?live = event_key ` {ev \<in> set evs. ?c \<le> ev_At ev}"
  proof -
    have "k \<in> fst ` set ?live \<longleftrightarrow> \<not> (\<forall>ts \<in> set (seen_times evs k). ts < ?c)" for k
      using live_keys(1) [OF assms, of k] by (metis map_of_eq_None_iff)
    then show ?thesis by (force simp: seen_times_def not_less)
  qed
  have "map session_order (map track_record ?live) = map prod.swap (map fst ?live)"
    unfolding rec by (simp add: session_order_def hist_record_def prod.swap_def)
  moreover have "distinct (map prod.swap (map fst ?live))"
    using go_ok_distinct [OF ok] inj_on_subset [OF inj_swap subset_UNIV]
    unfolding distinct_map [of prod.swap] by blast
  ultimately have "distinct (map session_order (map track_record ?live))" by (simp only:)
  moreover have "mset (map session_order (fst (records now window m))) = mset (map session_order (map track_record ?live))"
    unfolding records_def Let_def sort_slice_def fst_conv by (simp only: mset_map mset_sort)
  ultimately have "distinct (map session_order (fst (records now window m)))"
    using mset_eq_imp_distinct_iff by blast
  moreover have "set (fst (records now window m)) = hist_record evs ?c ` (fst ` set ?live)"
    unfolding records_def Let_def fst_conv set_sort_slice rec by (simp add: image_image)
  ultimately show ?thesis
    by (simp add: keys) (simp add: records_def Let_def sorted_sort_slice)
qed

definition ex_event :: "string \<Rightarrow> int \<Rightarrow> event" where
  "ex_event ip t = \<lparr>ev_UserID = ''25'', ev_InboundID = ''101'', ev_IP = ip, ev_At = unix_time t\<rparr>"

theorem records_refine_history_witness:
  "set (fst (records (unix_time 150) (unix_time 60) (add_event (ex_event ''10.0.0.2'' 100) (add_event (ex_event ''10.0.0.1'' 50) []))))
     = {\<lparr>ses_UserID = ''25'', ses_InboundID = ''101'', ses_IPs = [''10.0.0.2''], ses_LastSeen = 100,
         ses_RecentConnections = 1, ses_Source = []\<rparr>}"
proof -
  let ?evs = "[ex_event ''10.0.0.1'' 50, ex_event ''10.0.0.2'' 100]"
  have "tracked ([] @ [ex_event ''10.0.0.1'' 50] @ [ex_event ''10.0.0.2'' 100]) 0
      (add_event (ex_event ''10.0.0.2'' 100) (add_event (ex_event ''10.0.0.1'' 50) []))"
    unfolding append_assoc [symmetric] by (intro tracked.intros)
  then have t: "tracked ?evs 0 (add_event (ex_event ''10.0.0.2'' 100) (add_event (ex_event ''10.0.0.1'' 50) []))"
    by simp
  have keys: "event_key ` {ev \<in> set ?evs. unix_time 150 - unix_time 60 \<le> ev_At ev} = {(''25'', ''101'')}"
  proof -
    have "{ev \<in> set ?evs. unix_time 150 - unix_time 60 \<le> ev_At ev} = {ex_event ''10.0.0.2'' 100}"
      by (auto simp: ex_event_def unix_time_def second_ns_def)
    then show ?thesis by (simp add: ex_event_def event_key_def)
  qed
  have "hist_record ?evs (unix_time 150 - unix_time 60) (''25'', ''101'')
     = \<lparr>ses_UserID = ''25'', ses_InboundID = ''101'', ses_IPs = [''10.0.0.2''], ses_LastSeen = 100,
         ses_RecentConnections = 1, ses_Source = []\<rparr>"
    by code_simp
  with records_refine_history [OF t, of "unix_time 150" "unix_time 60"] keys show ?thesis
    by (simp add: unix_time_def second_ns_def)
qed

end
