(* ===== verification/Panel.thy ===== *)
theory Panel
  imports Model GoStrings
begin

text \<open>
  The client of the panel, \<^verbatim>\<open>internal/panel/client.go\<close>. The panel is outside the repository: it is
  a state of an unknown type \<open>'p\<close> that a request changes, with a response or an error of the
  transport. The bodies of requests are kept as the values they encode.
\<close>

datatype payload = PHeartbeat heartbeat | PTraffic traffic_batch | PSessions session_report

record panel_request =
  prq_Method :: string
  prq_URL :: string
  prq_Authorization :: string
  prq_ContentType :: "string option"
  prq_Body :: "payload option"

text \<open>
  \<open>pe_marshal\<close> is the error of \<^verbatim>\<open>json.Marshal\<close>, \<open>pe_send\<close> what \<^verbatim>\<open>NewRequest\<close> and \<^verbatim>\<open>http.Client.Do\<close>
  make of a request (an error, or status and body), \<open>pe_decode\<close> the decoder of the response.
\<close>

record 'p panel_env =
  pe_marshal :: "payload \<Rightarrow> string option"
  pe_send :: "panel_request \<Rightarrow> 'p \<Rightarrow> (string + int \<times> string) \<times> 'p"
  pe_decode :: "string \<Rightarrow> string + desired_state"

record panel_client =
  pc_baseURL :: string
  pc_token :: string

definition new_client :: "string \<Rightarrow> string \<Rightarrow> panel_client" where
  "new_client base token = \<lparr>pc_baseURL = trim_right ''/'' base, pc_token = token\<rparr>"

definition panel_request_of :: "panel_client \<Rightarrow> string \<Rightarrow> string \<Rightarrow> payload option \<Rightarrow> panel_request" where
  "panel_request_of c method path body =
     \<lparr>prq_Method = method, prq_URL = pc_baseURL c @ path, prq_Authorization = ''Bearer '' @ pc_token c,
      prq_ContentType = map_option (\<lambda>_. ''application/json'') body, prq_Body = body\<rparr>"

definition success :: "int \<Rightarrow> bool" where
  "success status \<longleftrightarrow> \<not> (status < 200 \<or> status \<ge> 300)"

text \<open>\<^verbatim>\<open>do\<close> up to the decoding of the response.\<close>

definition panel_do ::
  "'p panel_env \<Rightarrow> panel_client \<Rightarrow> string \<Rightarrow> string \<Rightarrow> payload option \<Rightarrow> 'p \<Rightarrow> (string + string) \<times> 'p" where
  "panel_do e c method path body p =
     (case Option.bind body (pe_marshal e) of
        Some err \<Rightarrow> (Inl err, p)
      | None \<Rightarrow>
          (case pe_send e (panel_request_of c method path body) p of
             (Inl err, p') \<Rightarrow> (Inl err, p')
           | (Inr (status, text), p') \<Rightarrow>
               (if success status then Inr text
                else Inl (''panel '' @ method @ '' '' @ path @ '': status='' @ show_int status
                       @ '' body='' @ take 4096 text), p')))"

definition node_path :: "string \<Rightarrow> string \<Rightarrow> string" where
  "node_path node what = ''/api/v1/nodes/'' @ node @ what"

definition fetch_desired_state ::
  "'p panel_env \<Rightarrow> panel_client \<Rightarrow> string \<Rightarrow> 'p \<Rightarrow> (string + desired_state) \<times> 'p" where
  "fetch_desired_state e c node p =
     (case panel_do e c ''GET'' (node_path node ''/desired-state'') None p of
        (Inl err, p') \<Rightarrow> (Inl err, p')
      | (Inr text, p') \<Rightarrow> (pe_decode e text, p'))"

text \<open>A \<^verbatim>\<open>POST\<close> without a result.\<close>

definition post :: "'p panel_env \<Rightarrow> panel_client \<Rightarrow> string \<Rightarrow> payload \<Rightarrow> 'p \<Rightarrow> string option \<times> 'p" where
  "post e c path body p =
     (case panel_do e c ''POST'' path (Some body) p of (Inl err, p') \<Rightarrow> (Some err, p') | (Inr _, p') \<Rightarrow> (None, p'))"

definition post_heartbeat :: "'p panel_env \<Rightarrow> panel_client \<Rightarrow> heartbeat \<Rightarrow> 'p \<Rightarrow> string option \<times> 'p" where
  "post_heartbeat e c hb = post e c (node_path (hb_NodeID hb) ''/heartbeat'') (PHeartbeat hb)"

definition post_batch :: "'p panel_env \<Rightarrow> panel_client \<Rightarrow> traffic_batch \<Rightarrow> 'p \<Rightarrow> string option \<times> 'p" where
  "post_batch e c b = post e c (node_path (bat_NodeID b) ''/traffic'') (PTraffic b)"

definition post_traffic ::
  "'p panel_env \<Rightarrow> panel_client \<Rightarrow> string \<Rightarrow> traffic_record list \<Rightarrow> 'p \<Rightarrow> string option \<times> 'p" where
  "post_traffic e c node rs =
     post_batch e c \<lparr>bat_EventID = [], bat_NodeID = node, bat_CollectedAt = 0, bat_Records = rs\<rparr>"

definition post_sessions :: "'p panel_env \<Rightarrow> panel_client \<Rightarrow> session_report \<Rightarrow> 'p \<Rightarrow> string option \<times> 'p" where
  "post_sessions e c r = post e c (node_path (rep_NodeID r) ''/sessions'') (PSessions r)"

section \<open>What the panel has accepted\<close>

text \<open>
  The contract of the panel (\<^verbatim>\<open>docs/PANEL_API.md\<close>): a batch it answers with a success status is
  accepted, for good; nothing but the batch of a request is accepted by it. A batch can be accepted
  although the response is lost or is an error.
\<close>

definition keeps_batches :: "'p panel_env \<Rightarrow> ('p \<Rightarrow> traffic_batch set) \<Rightarrow> bool" where
  "keeps_batches e accepted \<longleftrightarrow>
     (\<forall>rq p x p'. pe_send e rq p = (x, p') \<longrightarrow>
        accepted p \<subseteq> accepted p'
      \<and> accepted p' \<subseteq> accepted p \<union> {b. prq_Body rq = Some (PTraffic b)}
      \<and> (case x of Inl _ \<Rightarrow> True | Inr (status, _) \<Rightarrow>
           (\<forall>b. success status \<longrightarrow> prq_Method rq = ''POST'' \<longrightarrow> prq_Body rq = Some (PTraffic b) \<longrightarrow> b \<in> accepted p')))"

lemma post_accepted:
  assumes "keeps_batches e accepted"
  shows "accepted p \<subseteq> accepted (snd (post e c path body p))"
    and "accepted (snd (post e c path body p)) \<subseteq> accepted p \<union> {b. body = PTraffic b}"
    and "fst (post e c path (PTraffic b) p) = None \<Longrightarrow> b \<in> accepted (snd (post e c path (PTraffic b) p))"
  using assms
  by (fastforce simp: post_def panel_do_def keeps_batches_def panel_request_of_def
      split: option.splits prod.splits sum.splits)+

lemma fetch_accepted:
  "keeps_batches e accepted \<Longrightarrow> accepted (snd (fetch_desired_state e c node p)) = accepted p"
  by (fastforce simp: fetch_desired_state_def panel_do_def keeps_batches_def panel_request_of_def
      split: option.splits prod.splits sum.splits)

end
