(* ===== verification/Billing.thy ===== *)
theory Billing
  imports Traffic Panel Stats
begin

text \<open>
  Accounting of traffic, \<^verbatim>\<open>retryTraffic\<close> and \<^verbatim>\<open>collectTraffic\<close> of \<^verbatim>\<open>internal/agent/agent.go\<close>: counters
  are read from Xray and reset, spooled, posted to the panel and deleted from the spool once the
  panel has confirmed them. The machine can stop between any two calls, so both operations yield
  the states they pass through. The books are the spool and the panel.
\<close>

record 'p books =
  bk_spool :: spool_dir
  bk_panel :: 'p

section \<open>Operations\<close>

text \<open>The loop over the listed batches; \<open>del\<close> is the fault of deleting a batch, if any.\<close>

fun retry_loop ::
  "'p panel_env \<Rightarrow> panel_client \<Rightarrow> (string \<Rightarrow> string option) \<Rightarrow> traffic_batch list \<Rightarrow> 'p books \<Rightarrow> 'p books list" where
  "retry_loop e c del [] s = [s]"
| "retry_loop e c del (b # bs) s =
     (case post_batch e c b (bk_panel s) of
        (Some err, p) \<Rightarrow> [s, s\<lparr>bk_panel := p\<rparr>]
      | (None, p) \<Rightarrow>
          (case spool_delete (del (bat_EventID b)) (bat_EventID b) (bk_spool s) of
             (Some err, d) \<Rightarrow> [s, s\<lparr>bk_panel := p\<rparr>]
           | (None, d) \<Rightarrow> s # s\<lparr>bk_panel := p\<rparr> # retry_loop e c del bs \<lparr>bk_spool = d, bk_panel = p\<rparr>))"

definition retry_traffic ::
  "'p panel_env \<Rightarrow> panel_client \<Rightarrow> read_env \<Rightarrow> (string \<Rightarrow> string option) \<Rightarrow> 'p books \<Rightarrow> 'p books list" where
  "retry_traffic e c r del s =
     (case spool_list r (bk_spool s) of Inl err \<Rightarrow> [s] | Inr bs \<Rightarrow> retry_loop e c del bs s)"

text \<open>
  One collection: whether Xray runs, what the query of the counters returns, the event id drawn
  and the clock, and the faults of the spool.
\<close>

record collection =
  co_running :: bool
  co_stats :: "string + traffic_record list"
  co_event :: string
  co_at :: int64
  co_env :: spool_env
  co_delete :: "string option"

definition collected_batch :: "string \<Rightarrow> collection \<Rightarrow> traffic_record list \<Rightarrow> traffic_batch" where
  "collected_batch node q rs =
     \<lparr>bat_EventID = co_event q, bat_NodeID = node, bat_CollectedAt = co_at q, bat_Records = rs\<rparr>"

text \<open>After the batch is in the spool: post it, and delete it if the panel confirms.\<close>

definition report_batch ::
  "'p panel_env \<Rightarrow> panel_client \<Rightarrow> string option \<Rightarrow> traffic_batch \<Rightarrow> 'p books \<Rightarrow> string option \<times> 'p books list" where
  "report_batch e c fault b s =
     (case post_batch e c b (bk_panel s) of
        (Some _, p) \<Rightarrow> (None, [s\<lparr>bk_panel := p\<rparr>])
      | (None, p) \<Rightarrow>
          (case spool_delete fault (bat_EventID b) (bk_spool s) of
             (err, d) \<Rightarrow> (err, [s\<lparr>bk_panel := p\<rparr>, \<lparr>bk_spool = d, bk_panel = p\<rparr>])))"

definition collect_traffic ::
  "'p panel_env \<Rightarrow> panel_client \<Rightarrow> string \<Rightarrow> collection \<Rightarrow> 'p books \<Rightarrow> string option \<times> 'p books list" where
  "collect_traffic e c node q s =
     (if \<not> co_running q then (None, [s])
      else case co_stats q of
          Inl err \<Rightarrow> (Some err, [s])
        | Inr [] \<Rightarrow> (None, [s])
        | Inr (r # rs) \<Rightarrow>
            let b = collected_batch node q (r # rs)
            in case enqueue (co_env q) b (bk_spool s) of
                (Some err, ds) \<Rightarrow>
                  (Some (''spool traffic after counter reset: '' @ err), map (\<lambda>d. s\<lparr>bk_spool := d\<rparr>) ds)
              | (None, ds) \<Rightarrow>
                  (case report_batch e c (co_delete q) b (s\<lparr>bk_spool := last ds\<rparr>) of
                     (err, tr) \<Rightarrow> (err, map (\<lambda>d. s\<lparr>bk_spool := d\<rparr>) ds @ tr)))"

section \<open>Histories\<close>

text \<open>Every batch file bears the name of its batch.\<close>

definition named :: "string \<times> entry \<Rightarrow> bool" where
  "named x \<longleftrightarrow> list_all (\<lambda>b. fst x = batch_name (bat_EventID b)) (batch_of x)"

definition books_ok :: "'p books \<Rightarrow> bool" where
  "books_ok s \<longleftrightarrow> spool_ok (bk_spool s) \<and> list_all named (entries (bk_spool s))"

definition spooled :: "'p books \<Rightarrow> traffic_batch set" where
  "spooled s = set_mset (batches (bk_spool s))"

text \<open>The batches that were in the spool at some moment.\<close>

definition durable :: "'p books list \<Rightarrow> traffic_batch set" where
  "durable tr = \<Union> (spooled ` set tr)"

text \<open>
  What can happen to the books from an empty spool on, with the batches that were ever spooled:
  retries and collections, each cut off by a crash after any of its states or run to its end,
  and requests of other kinds. A collection draws an event id that no file of the spool has.
\<close>

inductive billed :: "'p panel_env \<Rightarrow> panel_client \<Rightarrow> string \<Rightarrow> 'p \<Rightarrow> traffic_batch set \<Rightarrow> 'p books \<Rightarrow> bool"
  for e c node p0 where
  start: "billed e c node p0 {} \<lparr>bk_spool = None, bk_panel = p0\<rparr>"
| retried: "billed e c node p0 D s \<Longrightarrow> tr = retry_traffic e c r del s \<Longrightarrow> n < length tr
    \<Longrightarrow> billed e c node p0 (D \<union> durable (take (Suc n) tr)) (tr ! n)"
| collected: "billed e c node p0 D s \<Longrightarrow> go_get (entries (bk_spool s)) (batch_name (co_event q)) = None
    \<Longrightarrow> tr = snd (collect_traffic e c node q s) \<Longrightarrow> n < length tr
    \<Longrightarrow> billed e c node p0 (D \<union> durable (take (Suc n) tr)) (tr ! n)"
| other: "billed e c node p0 D s \<Longrightarrow> pe_send e rq (bk_panel s) = (x, p)
    \<Longrightarrow> (\<And>b. prq_Body rq \<noteq> Some (PTraffic b)) \<Longrightarrow> billed e c node p0 D (s\<lparr>bk_panel := p\<rparr>)"

text \<open>The invariant, of a state or of a trace from a state on.\<close>

definition balanced :: "('p \<Rightarrow> traffic_batch set) \<Rightarrow> 'p \<Rightarrow> traffic_batch set \<Rightarrow> 'p books \<Rightarrow> bool" where
  "balanced accepted p0 D s \<longleftrightarrow>
     books_ok s \<and> D \<subseteq> spooled s \<union> accepted (bk_panel s) \<and> spooled s \<subseteq> D
   \<and> accepted (bk_panel s) \<subseteq> accepted p0 \<union> D"

fun balanced_trace :: "('p \<Rightarrow> traffic_batch set) \<Rightarrow> 'p \<Rightarrow> traffic_batch set \<Rightarrow> 'p books list \<Rightarrow> bool" where
  "balanced_trace accepted p0 D [] \<longleftrightarrow> True"
| "balanced_trace accepted p0 D (s # tr) \<longleftrightarrow>
     balanced accepted p0 (D \<union> spooled s) s \<and> balanced_trace accepted p0 (D \<union> spooled s) tr"

lemma balanced_spooled: "balanced accepted p0 D s \<Longrightarrow> D \<union> spooled s = D"
  by (auto simp: balanced_def)

lemma balanced_nth:
  "balanced_trace accepted p0 D tr \<Longrightarrow> n < length tr
    \<Longrightarrow> balanced accepted p0 (D \<union> durable (take (Suc n) tr)) (tr ! n)"
proof (induction tr arbitrary: D n)
  case (Cons s tr)
  then show ?case
  proof (cases n)
    case (Suc k)
    with Cons.IH [of "D \<union> spooled s" k] Cons.prems show ?thesis
      by (simp add: durable_def Un_assoc)
  qed (simp add: durable_def)
qed simp

lemma balanced_append:
  "balanced_trace accepted p0 D (tr @ tr') \<longleftrightarrow>
     balanced_trace accepted p0 D tr \<and> balanced_trace accepted p0 (D \<union> durable tr) tr'"
  by (induction tr arbitrary: D) (auto simp: durable_def Un_assoc)

section \<open>The spool keeps its names\<close>

lemma batches_nth:
  assumes "books_ok s" and "b \<in> spooled s"
  shows "go_get (entries (bk_spool s)) (batch_name (bat_EventID b)) = Some (File (Doc b))"
proof -
  from assms(2) obtain x where x: "x \<in> set (entries (bk_spool s))" "b \<in> set (batch_of x)"
    by (auto simp: spooled_def batches_def)
  with assms(1) have "fst x = batch_name (bat_EventID b)"
    by (auto simp: books_ok_def named_def list_all_iff)
  moreover have "snd x = File (Doc b)"
    using x(2) by (cases x rule: batch_of.cases) (auto split: if_splits)
  ultimately show ?thesis
    using x(1) assms(1) by (cases x) (simp add: books_ok_def spool_ok_def go_get_in_set)
qed

lemma spooled_iff:
  "books_ok s \<Longrightarrow> b \<in> spooled s \<longleftrightarrow> fetch_batch (bat_EventID b) (bk_spool s) = Some b"
proof
  assume "books_ok s" and "b \<in> spooled s"
  from batches_nth [OF this] show "fetch_batch (bat_EventID b) (bk_spool s) = Some b"
    by (simp add: fetch_batch_def)
next
  assume "books_ok s" and "fetch_batch (bat_EventID b) (bk_spool s) = Some b"
  then have "(batch_name (bat_EventID b), File (Doc b)) \<in> set (entries (bk_spool s))"
    by (auto simp: fetch_batch_def books_ok_def spool_ok_def go_get_in_set split: option.splits entry.splits content.splits)
  then show "b \<in> spooled s"
    by (force simp: spooled_def batches_def)
qed

text \<open>Deleting a batch that is spooled takes this batch away, and only this one.\<close>

lemma spool_delete_batch:
  assumes "books_ok s" and "b \<in> spooled s"
    and "spool_delete fault (bat_EventID b) (bk_spool s) = (None, d)"
  shows "batches d = batches (bk_spool s) - {#b#}" and "books_ok \<lparr>bk_spool = d, bk_panel = p\<rparr>"
proof -
  let ?k = "batch_name (bat_EventID b)"
  note get = batches_nth [OF assms(1,2)]
  then obtain m where m: "bk_spool s = Some m" by (cases "bk_spool s") (simp_all add: entries_def)
  have d: "d = Some (go_delete ?k m)"
    using assms(3) get by (auto simp: spool_delete_def m split: option.splits if_splits)
  have ok: "go_ok m" "list_all readable m" "list_all named m"
    using assms(1) by (simp_all add: books_ok_def spool_ok_def m)
  have "go_put ?k (File (Doc b)) m = m"
    using get ok(1) by (intro go_map_ext) (auto simp: m go_ok_put map_simps)
  then have "batches (Some m) = {#b#} + batches (Some (go_delete ?k m))"
    using batches_put [OF ok(1), of ?k "File (Doc b)"] by simp
  then show "batches d = batches (bk_spool s) - {#b#}" by (simp add: d m)
  show "books_ok \<lparr>bk_spool = d, bk_panel = p\<rparr>"
    using ok by (simp add: books_ok_def d spool_ok_Some go_ok_delete list_all_delete)
qed

lemma named_temp [simp]: "named (temp_name k, v)"
  by (cases "(temp_name k, v)" rule: batch_of.cases) (auto simp: named_def)

lemma named_batch [simp]: "named (batch_name (bat_EventID b), File (Doc b))"
  by (simp add: named_def)

lemma enqueue_named:
  assumes "list_all named (entries d)" and "d' \<in> set (snd (enqueue q b d))"
  shows "list_all named (entries d')"
  using assms
  by (auto simp: enqueue_def Let_def list_all_put list_all_delete rename_file_def map_simps
      split: option.splits if_splits)

lemma spool_list_any:
  assumes "spool_ok d" and "spool_list r d = Inr bs"
  shows "mset bs = batches d \<and> sorted (map batch_order bs)"
proof -
  have same: "read_batch r x = Inr b \<Longrightarrow> read_batch no_faults x = Inr b" for x b
    by (cases x rule: is_batch_file.cases)
      (auto simp: no_faults_def split: option.splits content.splits)
  have "collect (map (read_batch r) fs) = Inr bs' \<Longrightarrow> collect (map (read_batch no_faults) fs) = Inr bs'" for fs bs'
    unfolding collect_map_Inr by (erule list_all2_mono) (rule same)
  then have "spool_list no_faults d = Inr bs"
    using assms(2) by (auto simp: spool_list_def no_faults_def split: option.splits sum.splits)
  with spool_list_batches [OF assms(1)] show ?thesis by auto
qed

section \<open>Every operation keeps the books balanced\<close>

lemma balanced_all:
  "(\<And>s. s \<in> set tr \<Longrightarrow> balanced accepted p0 D s) \<Longrightarrow> balanced_trace accepted p0 D tr \<and> D \<union> durable tr = D"
proof (induction tr)
  case (Cons s tr)
  then have "balanced accepted p0 D s" by simp
  with Cons balanced_spooled [OF this] show ?case by (auto simp: durable_def)
qed (simp add: durable_def)

lemma post_balanced:
  assumes "keeps_batches e accepted" and "balanced accepted p0 D s" and "b \<in> D"
    and "post_batch e c b (bk_panel s) = (x, p)"
  shows "balanced accepted p0 D (s\<lparr>bk_panel := p\<rparr>)"
    and "x = None \<Longrightarrow> b \<in> accepted p"
proof -
  note a = post_accepted [OF assms(1), where c = c and p = "bk_panel s"
      and path = "node_path (bat_NodeID b) ''/traffic''"]
  have p: "p = snd (post_batch e c b (bk_panel s))" and x: "x = fst (post_batch e c b (bk_panel s))"
    using assms(4) by simp_all
  show "balanced accepted p0 D (s\<lparr>bk_panel := p\<rparr>)"
    using assms(2,3) a(1,2) [where body = "PTraffic b"]
    by (auto simp: p balanced_def books_ok_def spooled_def post_batch_def)
  show "x = None \<Longrightarrow> b \<in> accepted p"
    using a(3) by (simp add: p x post_batch_def)
qed

lemma delete_balanced:
  assumes "balanced accepted p0 D s" and "b \<in> spooled s" and "b \<in> accepted (bk_panel s)"
    and "spool_delete fault (bat_EventID b) (bk_spool s) = (None, d)"
  shows "balanced accepted p0 D \<lparr>bk_spool = d, bk_panel = bk_panel s\<rparr>"
proof -
  have ok: "books_ok s" using assms(1) by (simp add: balanced_def)
  note d = spool_delete_batch [OF ok assms(2,4)]
  have "x \<in># batches d \<longleftrightarrow> x \<in># batches (bk_spool s)" if "x \<noteq> b" for x
    using that by (simp add: d(1) in_diff_count)
  moreover have "set_mset (batches d) \<subseteq> set_mset (batches (bk_spool s))"
    by (simp add: d(1) set_mset_mono)
  ultimately show ?thesis
    using assms(1,3) d(2) by (fastforce simp: balanced_def spooled_def)
qed

lemma retry_loop_balanced:
  assumes "keeps_batches e accepted" and "balanced accepted p0 D s" and "mset bs \<subseteq># batches (bk_spool s)"
  shows "balanced_trace accepted p0 D (retry_loop e c del bs s)"
  using assms(2,3)
proof (induction bs arbitrary: s)
  case Nil
  then show ?case by (simp add: balanced_spooled)
next
  case (Cons b bs)
  from Cons.prems(2) have b: "b \<in> spooled s" and bs: "mset bs \<subseteq># batches (bk_spool s) - {#b#}"
    by (simp_all add: spooled_def insert_subset_eq_iff)
  with Cons.prems(1) have bD: "b \<in> D" by (auto simp: balanced_def)
  obtain x p where post: "post_batch e c b (bk_panel s) = (x, p)" by (rule prod.exhaust)
  note bal = post_balanced [OF assms(1) Cons.prems(1) bD post]
  let ?s = "s\<lparr>bk_panel := p\<rparr>"
  note un = balanced_spooled [OF Cons.prems(1)] balanced_spooled [OF bal(1)]
  show ?case
  proof (cases "x = None \<and> fst (spool_delete (del (bat_EventID b)) (bat_EventID b) (bk_spool s)) = None")
    case True
    then obtain d where d: "spool_delete (del (bat_EventID b)) (bat_EventID b) (bk_spool ?s) = (None, d)"
      by (cases "spool_delete (del (bat_EventID b)) (bat_EventID b) (bk_spool s)") auto
    have "b \<in> spooled ?s" "b \<in> accepted (bk_panel ?s)" using b bal(2) True by (simp_all add: spooled_def)
    from delete_balanced [OF bal(1) this d]
    have del: "balanced accepted p0 D \<lparr>bk_spool = d, bk_panel = p\<rparr>" by simp
    have ok: "books_ok ?s" using bal(1) by (simp add: balanced_def)
    have "mset bs \<subseteq># batches d" using bs spool_delete_batch(1) [OF ok _ d] b by (simp add: spooled_def)
    with Cons.IH [OF del] Cons.prems(1) bal(1) un True d post show ?thesis by simp
  next
    case False
    with Cons.prems(1) bal(1) un post show ?thesis
      by (auto split: option.split prod.split)
  qed
qed

lemma retry_traffic_balanced:
  assumes "keeps_batches e accepted" and "balanced accepted p0 D s"
  shows "balanced_trace accepted p0 D (retry_traffic e c r del s)"
proof (cases "spool_list r (bk_spool s)")
  case (Inl err)
  with assms(2) show ?thesis by (simp add: retry_traffic_def balanced_spooled)
next
  case (Inr bs)
  have "spool_ok (bk_spool s)" using assms(2) by (simp add: balanced_def books_ok_def)
  from spool_list_any [OF this Inr] retry_loop_balanced [OF assms, of bs] Inr show ?thesis
    by (simp add: retry_traffic_def)
qed

text \<open>While a batch is enqueued, the spool is as before until the last state.\<close>

lemma enqueue_before:
  assumes "spool_ok d" and "d' \<in> set (butlast (snd (enqueue q b d)))"
  shows "batches d' = batches d"
  using assms
  by (auto simp: enqueue_def Let_def batches_entries batches_put_temp spool_ok_def
      split: option.splits if_splits)

lemma enqueue_balanced:
  assumes "balanced accepted p0 D s" and "go_get (entries (bk_spool s)) (batch_name (bat_EventID b)) = None"
    and "enqueue q b (bk_spool s) = (x, ds)"
  shows "balanced_trace accepted p0 D (map (\<lambda>d. s\<lparr>bk_spool := d\<rparr>) ds)"
    and "x = None \<Longrightarrow> balanced accepted p0 (insert b D) (s\<lparr>bk_spool := last ds\<rparr>)"
    and "x = None \<Longrightarrow> b \<in> spooled (s\<lparr>bk_spool := last ds\<rparr>)"
    and "x = None \<Longrightarrow> D \<union> durable (map (\<lambda>d. s\<lparr>bk_spool := d\<rparr>) ds) = insert b D"
proof -
  let ?f = "\<lambda>d. s\<lparr>bk_spool := d\<rparr>"
  have ok: "spool_ok (bk_spool s)" "list_all named (entries (bk_spool s))"
    using assms(1) by (simp_all add: balanced_def books_ok_def)
  have ds: "ds = snd (enqueue q b (bk_spool s))" "x = fst (enqueue q b (bk_spool s))" "ds \<noteq> []"
    using assms(3) enqueue_trace [of q b "bk_spool s"] by simp_all
  have books: "books_ok (?f d)" if "d \<in> set ds" for d
    using enqueue_states [OF ok(1) assms(2), of d q] enqueue_named [OF ok(2), of d q] that
    by (simp add: books_ok_def ds(1))
  have last: "batches (last ds) = (if x = None then add_mset b (batches (bk_spool s)) else batches (bk_spool s))"
    using enqueue_last [OF ok(1) assms(2), of q] by (simp add: ds)
  have same: "balanced accepted p0 D (?f d)" if "d \<in> set (butlast ds)" for d
    using enqueue_before [OF ok(1), of d q b] that assms(1) books [OF in_set_butlastD [OF that]]
    by (simp add: ds(1) balanced_def spooled_def)
  have butlast: "balanced_trace accepted p0 D (map ?f (butlast ds)) \<and> D \<union> durable (map ?f (butlast ds)) = D"
    by (rule balanced_all) (use same in auto)
  have D: "D \<union> spooled (?f (last ds)) = (if x = None then insert b D else D)"
    using last assms(1) by (auto simp: spooled_def balanced_def)
  have bal: "balanced accepted p0 (if x = None then insert b D else D) (?f (last ds))"
    using assms(1) last books [OF last_in_set [OF ds(3)]] by (auto simp: balanced_def spooled_def)
  have split: "map ?f ds = map ?f (butlast ds) @ [?f (last ds)]"
    by (subst append_butlast_last_id [OF ds(3), symmetric]) (simp del: append_butlast_last_id)
  show "balanced_trace accepted p0 D (map ?f ds)"
    unfolding split balanced_append using butlast bal D by simp
  show "x = None \<Longrightarrow> balanced accepted p0 (insert b D) (?f (last ds))" using bal by simp
  show "x = None \<Longrightarrow> b \<in> spooled (?f (last ds))" using last by (simp add: spooled_def)
  show "D \<union> durable (map ?f ds) = insert b D" if "x = None"
    unfolding split using butlast D that by (auto simp: durable_def)
qed

lemma report_balanced:
  assumes "keeps_batches e accepted" and "balanced accepted p0 D s" and "b \<in> spooled s"
  shows "balanced_trace accepted p0 D (snd (report_batch e c fault b s))"
proof -
  have bD: "b \<in> D" using assms(2,3) by (auto simp: balanced_def)
  obtain x p where post: "post_batch e c b (bk_panel s) = (x, p)" by (rule prod.exhaust)
  note bal = post_balanced [OF assms(1,2) bD post]
  note un = balanced_spooled [OF bal(1)]
  let ?s = "s\<lparr>bk_panel := p\<rparr>"
  obtain y d where d: "spool_delete fault (bat_EventID b) (bk_spool s) = (y, d)" by (rule prod.exhaust)
  have "balanced accepted p0 D \<lparr>bk_spool = d, bk_panel = p\<rparr>" if "x = None"
  proof (cases y)
    case None
    with delete_balanced [OF bal(1), of b fault d] assms(3) bal(2) that d show ?thesis
      by (simp add: spooled_def)
  next
    case (Some err)
    with d have "d = bk_spool s" by (auto simp: spool_delete_def split: option.splits if_splits)
    with bal(1) show ?thesis by (simp add: balanced_def books_ok_def spooled_def)
  qed
  with bal(1) un balanced_spooled [of accepted p0 D] show ?thesis
    by (cases x) (simp_all add: report_batch_def post d)
qed

lemma collect_traffic_balanced:
  assumes "keeps_batches e accepted" and "balanced accepted p0 D s"
    and "go_get (entries (bk_spool s)) (batch_name (co_event q)) = None"
  shows "balanced_trace accepted p0 D (snd (collect_traffic e c node q s))"
proof -
  have idle: "balanced accepted p0 (D \<union> spooled s) s"
    unfolding balanced_spooled [OF assms(2)] by (rule assms(2))
  show ?thesis
  proof (cases "co_running q")
    case True
    then show ?thesis
    proof (cases "co_stats q")
      case (Inr rs)
      show ?thesis
      proof (cases rs)
        case (Cons r rs')
        let ?b = "collected_batch node q rs"
        have fresh: "go_get (entries (bk_spool s)) (batch_name (bat_EventID ?b)) = None"
          using assms(3) by (simp add: collected_batch_def)
        obtain x ds where enq: "enqueue (co_env q) ?b (bk_spool s) = (x, ds)" by (rule prod.exhaust)
        note bal = enqueue_balanced [OF assms(2) fresh enq]
        show ?thesis
        proof (cases x)
          case None
          with bal report_balanced [OF assms(1) bal(2,3)] show ?thesis
            by (simp add: collect_traffic_def True Inr Cons enq [unfolded Cons] Let_def case_prod_unfold
                balanced_append)
        next
          case (Some err)
          with bal(1) show ?thesis
            by (simp add: collect_traffic_def True Inr Cons enq [unfolded Cons] Let_def)
        qed
      qed (simp add: collect_traffic_def idle Inr True)
    qed (simp add: collect_traffic_def idle True)
  qed (simp add: collect_traffic_def idle)
qed

lemma billed_balanced:
  assumes "keeps_batches e accepted" and "billed e c node p0 D s"
  shows "balanced accepted p0 D s"
  using assms(2)
proof (induction rule: billed.induct)
  case start
  then show ?case
    by (simp add: balanced_def books_ok_def spool_ok_def spooled_def batches_def entries_def)
next
  case (retried D s tr r del n)
  from balanced_nth [OF retry_traffic_balanced [OF assms(1) retried.IH]] retried.hyps show ?case by simp
next
  case (collected D s q tr n)
  from balanced_nth [OF collect_traffic_balanced [OF assms(1) collected.IH collected.hyps(2)]] collected.hyps
  show ?case by simp
next
  case (other D s rq x p)
  have "accepted p = accepted (bk_panel s)"
  proof -
    have "accepted (bk_panel s) \<subseteq> accepted p
        \<and> accepted p \<subseteq> accepted (bk_panel s) \<union> {b. prq_Body rq = Some (PTraffic b)}"
      using assms(1) other.hyps(2) by (simp add: keeps_batches_def)
    then show ?thesis using other.hyps(3) by auto
  qed
  with other.IH show ?case by (simp add: balanced_def books_ok_def spooled_def)
qed

lemma retry_loop_order:
  assumes "keeps_batches e accepted" and "balanced accepted p0 D s" and "mset bs \<subseteq># batches (bk_spool s)"
  shows "\<exists>n \<le> length bs. batches (bk_spool (last (retry_loop e c del bs s))) = batches (bk_spool s) - mset (take n bs)
    \<and> set (take n bs) \<union> accepted (bk_panel s) \<subseteq> accepted (bk_panel (last (retry_loop e c del bs s)))
    \<and> ((\<forall>b p. fst (post_batch e c b p) = None) \<longrightarrow> (\<forall>k. del k = None) \<longrightarrow> n = length bs)"
    (is "\<exists>n \<le> length bs. ?done bs s n")
  using assms(2,3)
proof (induction bs arbitrary: s)
  case Nil
  then show ?case by simp
next
  case (Cons b bs)
  from Cons.prems(2) have b: "b \<in> spooled s" and bs: "mset bs \<subseteq># batches (bk_spool s) - {#b#}"
    by (simp_all add: spooled_def insert_subset_eq_iff)
  with Cons.prems(1) have bD: "b \<in> D" by (auto simp: balanced_def)
  obtain x p where post: "post_batch e c b (bk_panel s) = (x, p)" by (rule prod.exhaust)
  note bal = post_balanced [OF assms(1) Cons.prems(1) bD post]
  have mono: "accepted (bk_panel s) \<subseteq> accepted p"
    using post_accepted(1) [OF assms(1), of "bk_panel s" c "node_path (bat_NodeID b) ''/traffic''" "PTraffic b"] post
    by (simp add: post_batch_def)
  have now: "fst (post_batch e c b (bk_panel s)) = None \<Longrightarrow> x = None" by (simp add: post)
  let ?s = "s\<lparr>bk_panel := p\<rparr>"
  obtain y d where del: "spool_delete (del (bat_EventID b)) (bat_EventID b) (bk_spool s) = (y, d)"
    by (rule prod.exhaust)
  have ok: "books_ok s" "books_ok ?s" using Cons.prems(1) bal(1) by (simp_all add: balanced_def)
  have y: "del (bat_EventID b) = None \<Longrightarrow> y = None"
    using del by (auto simp: spool_delete_def split: option.splits if_splits)
  show ?case
  proof (cases "x = None \<and> y = None")
    case True
    then have d: "spool_delete (del (bat_EventID b)) (bat_EventID b) (bk_spool ?s) = (None, d)" by (simp add: del)
    have "b \<in> spooled ?s" "b \<in> accepted (bk_panel ?s)" using b bal(2) True by (simp_all add: spooled_def)
    from delete_balanced [OF bal(1) this d]
    have next_bal: "balanced accepted p0 D \<lparr>bk_spool = d, bk_panel = p\<rparr>" by simp
    have batches: "batches d = batches (bk_spool s) - {#b#}"
      using spool_delete_batch(1) [OF ok(1) b] del True by simp
    from Cons.IH [OF next_bal] bs batches obtain n where
      n: "n \<le> length bs" "?done bs \<lparr>bk_spool = d, bk_panel = p\<rparr> n" by auto
    have "retry_loop e c del bs \<lparr>bk_spool = d, bk_panel = p\<rparr> \<noteq> []"
      by (cases bs) (simp_all split: prod.split option.split)
    then have "?done (b # bs) s (Suc n)"
      using n(2) True post del mono bal(2) by (auto simp: batches)
    with n(1) show ?thesis by (intro exI [of _ "Suc n"]) simp
  next
    case False
    have "last (retry_loop e c del (b # bs) s) = ?s"
      using False by (auto simp: post del split: option.splits)
    with False mono now y show ?thesis by (intro exI [of _ 0]) auto
  qed
qed

section \<open>Properties\<close>


text \<open>A panel that is a set of batches; its replies are lost while \<open>down\<close>.\<close>

definition demo_panel :: "bool \<Rightarrow> traffic_batch set panel_env" where
  "demo_panel down = \<lparr>pe_marshal = (\<lambda>_. None),
     pe_send = (\<lambda>rq p. (if down then Inl ''timeout'' else Inr (200, []),
       p \<union> (case prq_Body rq of Some (PTraffic b) \<Rightarrow> {b} | _ \<Rightarrow> {}))),
     pe_decode = (\<lambda>_. Inl [])\<rparr>"

definition demo_client :: panel_client where
  "demo_client = new_client ''https://panel/'' ''secret''"

definition demo_collection :: collection where
  "demo_collection = \<lparr>co_running = True, co_stats = Inr (bat_Records (ex_batch ''0b'' 3)), co_event = ''0b'',
     co_at = 7, co_env = ex_env, co_delete = None\<rparr>"

lemma demo_panel_keeps: "keeps_batches (demo_panel down) (\<lambda>p. p)"
  by (auto simp: keeps_batches_def demo_panel_def split: option.splits payload.splits)

lemma demo_post: "post_batch (demo_panel down) c b p = (if down then Some ''timeout'' else None, insert b p)"
  by (simp add: post_batch_def post_def panel_do_def demo_panel_def panel_request_of_def success_def)

text \<open>A lost reply leaves the batch spooled, although the panel has it.\<close>

lemma demo_history:
  "billed (demo_panel True) demo_client ''n'' {} {ex_batch ''0b'' 3}
     \<lparr>bk_spool = Some [(''0b.json'', File (Doc (ex_batch ''0b'' 3)))], bk_panel = {ex_batch ''0b'' 3}\<rparr>"
proof -
  let ?s = "\<lparr>bk_spool = None, bk_panel = {} :: traffic_batch set\<rparr>"
  let ?b = "ex_batch ''0b'' 3"
  let ?tr = "snd (collect_traffic (demo_panel True) demo_client ''n'' demo_collection ?s)"
  have b: "collected_batch ''n'' demo_collection (bat_Records ?b) = ?b"
    by (simp add: collected_batch_def demo_collection_def ex_batch_def)
  have tr: "?tr = [?s, ?s\<lparr>bk_spool := Some []\<rparr>, ?s\<lparr>bk_spool := Some [(''0b.json.tmp'', File (Junk ''unexpected end''))]\<rparr>,
      ?s\<lparr>bk_spool := Some [(''0b.json.tmp'', File (Doc ?b))]\<rparr>, ?s\<lparr>bk_spool := Some [(''0b.json'', File (Doc ?b))]\<rparr>,
      \<lparr>bk_spool = Some [(''0b.json'', File (Doc ?b))], bk_panel = {?b}\<rparr>]"
    by (simp add: collect_traffic_def demo_collection_def collected_batch_def Let_def enqueue_def ex_env_def ex_batch_def
        report_batch_def demo_post temp_name_def batch_name_def rename_file_def go_delete_def entries_def)
  have "billed (demo_panel True) demo_client ''n'' {} ({} \<union> durable (take (Suc 5) ?tr)) (?tr ! 5)"
    by (rule billed.collected [OF billed.start _ refl]) (simp_all only: tr, simp_all add: entries_def)
  moreover have "durable (take (Suc 5) ?tr) = {?b}"
    by (simp add: tr durable_def spooled_def batches_def has_suffix_def entries_def)
  ultimately show ?thesis by (simp add: tr)
qed


text \<open>
  A retry reports the oldest batches first, and only as far as the panel confirms: what
  it takes out of the spool is an initial part of the list, and the panel has accepted all of
  it. When every post and every deletion succeeds, nothing is left and the panel has accepted
  every batch that was ever spooled.
\<close>

lemma retry_reports_oldest_first:
  assumes "keeps_batches e accepted" and "billed e c node p0 D s" and "spool_list r (bk_spool s) = Inr bs"
  shows "\<exists>n \<le> length bs. sorted (map batch_order bs)
    \<and> batches (bk_spool (last (retry_traffic e c r del s))) = mset (drop n bs)
    \<and> set (take n bs) \<subseteq> accepted (bk_panel (last (retry_traffic e c r del s)))
    \<and> ((\<forall>b p. fst (post_batch e c b p) = None) \<longrightarrow> (\<forall>k. del k = None) \<longrightarrow>
         n = length bs \<and> D \<subseteq> accepted (bk_panel (last (retry_traffic e c r del s))))"
proof -
  note bal = billed_balanced [OF assms(1,2)]
  then have "spool_ok (bk_spool s)" by (simp add: balanced_def books_ok_def)
  note bs = spool_list_any [OF this assms(3)]
  from retry_loop_order [OF assms(1) bal, of bs c del] bs obtain n where n: "n \<le> length bs"
    "batches (bk_spool (last (retry_loop e c del bs s))) = mset bs - mset (take n bs)"
    "set (take n bs) \<union> accepted (bk_panel s) \<subseteq> accepted (bk_panel (last (retry_loop e c del bs s)))"
    "(\<forall>b p. fst (post_batch e c b p) = None) \<longrightarrow> (\<forall>k. del k = None) \<longrightarrow> n = length bs" by auto
  have "mset bs - mset (take n bs) = mset (drop n bs)"
    by (metis add_diff_cancel_left' append_take_drop_id mset_append)
  moreover have "D \<subseteq> set bs \<union> accepted (bk_panel s)"
    using bal bs by (auto simp: balanced_def spooled_def simp flip: set_mset_mset)
  ultimately show ?thesis
    using n bs by (intro exI [of _ n]) (auto 4 4 simp: retry_traffic_def assms(3))
qed

lemma retry_reports_oldest_first_example:
  "batches (bk_spool (last (retry_traffic (demo_panel True) demo_client no_faults (\<lambda>_. None)
     \<lparr>bk_spool = Some [(''0b.json'', File (Doc (ex_batch ''0b'' 3)))], bk_panel = {ex_batch ''0b'' 3}\<rparr>)))
     \<subseteq># {# ex_batch ''0b'' 3 #}"
proof -
  let ?s = "\<lparr>bk_spool = Some [(''0b.json'', File (Doc (ex_batch ''0b'' 3)))], bk_panel = {ex_batch ''0b'' 3}\<rparr>"
  have "spool_list no_faults (bk_spool ?s) = Inr [ex_batch ''0b'' 3]"
    by (simp add: spool_list_def no_faults_def has_suffix_def sort_slice_def)
  from retry_reports_oldest_first [OF demo_panel_keeps demo_history this, of "\<lambda>_. None"] show ?thesis
    by (auto simp: le_Suc_eq)
qed

text \<open>
  Counters that were read and reset are lost only where the spool fails. After a
  collection with counters, either the error names the spool and no batch was added, or the batch
  with exactly these counters is spooled or accepted.
\<close>

lemma collected_counters_accounted:
  assumes "keeps_batches e accepted" and "billed e c node p0 D s"
    and "go_get (entries (bk_spool s)) (batch_name (co_event q)) = None"
    and "co_running q" and "co_stats q = Inr rs" and "rs \<noteq> []"
    and "collect_traffic e c node q s = (err, tr)"
  shows "collected_batch node q rs \<in> spooled (last tr) \<union> accepted (bk_panel (last tr))
    \<or> (\<exists>why. fst (enqueue (co_env q) (collected_batch node q rs) (bk_spool s)) = Some why
        \<and> err = Some (''spool traffic after counter reset: '' @ why)
        \<and> batches (bk_spool (last tr)) = batches (bk_spool s))"
proof -
  note bal = billed_balanced [OF assms(1,2)]
  let ?b = "collected_batch node q rs"
  have fresh: "go_get (entries (bk_spool s)) (batch_name (bat_EventID ?b)) = None"
    using assms(3) by (simp add: collected_batch_def)
  have ok: "spool_ok (bk_spool s)" using bal by (simp add: balanced_def books_ok_def)
  obtain r rs' where rs: "rs = r # rs'" using assms(6) by (cases rs) simp_all
  obtain x ds where enq: "enqueue (co_env q) ?b (bk_spool s) = (x, ds)" by (rule prod.exhaust)
  note eb = enqueue_balanced [OF bal fresh enq]
  have ds: "ds \<noteq> []" using enqueue_trace [of "co_env q" ?b "bk_spool s"] by (simp add: enq)
  let ?rep = "report_batch e c (co_delete q) ?b (s\<lparr>bk_spool := last ds\<rparr>)"
  show ?thesis
  proof (cases x)
    case None
    have "snd ?rep \<noteq> []" by (auto simp: report_batch_def split: option.split prod.split)
    then have last: "last tr = last (snd ?rep)" and n: "length (snd ?rep) - 1 < length (snd ?rep)"
      using assms(4,5,7) None enq by (auto simp: collect_traffic_def rs Let_def case_prod_unfold)
    have "balanced accepted p0 (insert ?b D \<union> durable (take (Suc (length (snd ?rep) - 1)) (snd ?rep)))
        (snd ?rep ! (length (snd ?rep) - 1))"
      by (rule balanced_nth [OF report_balanced [OF assms(1) eb(2,3)]]) (use None n in auto)
    then show ?thesis using last \<open>snd ?rep \<noteq> []\<close> by (auto simp: balanced_def last_conv_nth)
  next
    case (Some why)
    have "batches (last ds) = batches (bk_spool s)"
      using enqueue_last [OF ok fresh, of "co_env q"] by (simp add: enq Some)
    then show ?thesis
      using assms(4,5,7) Some enq ds by (auto simp: collect_traffic_def rs Let_def last_map)
  qed
qed

lemma collected_counters_accounted_example:
  "ex_batch ''0b'' 3 \<in> spooled (last (snd (collect_traffic (demo_panel True) demo_client ''n'' demo_collection
       \<lparr>bk_spool = None, bk_panel = {}\<rparr>)))
     \<union> bk_panel (last (snd (collect_traffic (demo_panel True) demo_client ''n'' demo_collection
       \<lparr>bk_spool = None, bk_panel = {}\<rparr>)))"
proof -
  let ?s = "\<lparr>bk_spool = None, bk_panel = {} :: traffic_batch set\<rparr>"
  obtain err tr where run: "collect_traffic (demo_panel True) demo_client ''n'' demo_collection ?s = (err, tr)"
    by (rule prod.exhaust)
  have b: "collected_batch ''n'' demo_collection (bat_Records (ex_batch ''0b'' 3)) = ex_batch ''0b'' 3"
    by (simp add: collected_batch_def demo_collection_def ex_batch_def)
  have "fst (enqueue (co_env demo_collection) (ex_batch ''0b'' 3) (bk_spool ?s)) = None"
    by (simp add: demo_collection_def ex_batch_def enqueue_def ex_env_def Let_def)
  moreover have "co_running demo_collection" "co_stats demo_collection = Inr (bat_Records (ex_batch ''0b'' 3))"
    and "bat_Records (ex_batch ''0b'' 3) \<noteq> []" by (simp_all add: demo_collection_def ex_batch_def)
  ultimately show ?thesis
    using collected_counters_accounted [OF demo_panel_keeps billed.start _ _ _ _ run, of "bat_Records (ex_batch ''0b'' 3)"] run
    by (simp add: b entries_def)
qed

end
