(* ===== verification/Float64.thy ===== *)
theory Float64
  imports Complex_Main
begin

text \<open>
  Go's \<^verbatim>\<open>float64\<close>, as far as the agent computes with it: a value is the rational number it denotes,
  and every operation rounds the exact result to the nearest number with 53 significant bits, ties
  to the even one. (The numbers of the agent are counters and rates; they stay far from the limits
  of the exponent, so overflow and subnormal numbers do not occur.)
\<close>

section \<open>Rounding\<close>

definition round_even :: "rat \<Rightarrow> int" where
  "round_even x =
     (let f = \<lfloor>x\<rfloor>; d = x - of_int f
      in if d < 1 / 2 then f else if d > 1 / 2 then f + 1 else if even f then f else f + 1)"

text \<open>The number of bits of an integer.\<close>

function bits :: "int \<Rightarrow> nat" where
  "bits a = (if a \<le> 0 then 0 else Suc (bits (a div 2)))"
  by pat_completeness auto

termination by (relation "measure nat") auto

declare bits.simps [simp del]

text \<open>The exponent of a positive number: \<open>2 powi expo q \<le> q < 2 powi (expo q + 1)\<close>.\<close>

definition expo :: "rat \<Rightarrow> int" where
  "expo q =
     (case quotient_of q of
        (a, b) \<Rightarrow>
          let e = int (bits a) - int (bits b)
          in if q < 2 powi e then e - 1 else e)"

definition fl_pos :: "rat \<Rightarrow> rat" where
  "fl_pos q = (let u = 2 powi (expo q - 52) in of_int (round_even (q / u)) * u)"

definition fl :: "rat \<Rightarrow> rat" where
  "fl q = (if q = 0 then 0 else if q < 0 then - fl_pos (- q) else fl_pos q)"

lemma round_even_of_int [simp]: "round_even (of_int n) = n"
  by (simp add: round_even_def)

lemma round_even_numeral [simp]: "round_even (numeral n) = numeral n"
  using round_even_of_int [of "numeral n"] by simp

lemma round_even_near: "\<lfloor>x\<rfloor> \<le> round_even x \<and> round_even x \<le> \<lfloor>x\<rfloor> + 1"
  by (simp add: round_even_def Let_def)

lemma round_even_mono: "x \<le> y \<Longrightarrow> round_even x \<le> round_even y"
proof -
  assume "x \<le> y"
  then have "\<lfloor>x\<rfloor> \<le> \<lfloor>y\<rfloor>" by (rule floor_mono)
  then consider "\<lfloor>x\<rfloor> = \<lfloor>y\<rfloor>" | "\<lfloor>x\<rfloor> + 1 \<le> \<lfloor>y\<rfloor>" by linarith
  then show ?thesis
  proof cases
    case 1
    with \<open>x \<le> y\<close> show ?thesis by (auto simp: round_even_def Let_def)
  next
    case 2
    with round_even_near [of x] round_even_near [of y] show ?thesis by linarith
  qed
qed

lemma bits_bounds: "0 < a \<Longrightarrow> 0 < bits a \<and> 2 ^ (bits a - 1) \<le> a \<and> a < 2 ^ bits a"
proof (induction a rule: bits.induct)
  case (1 a)
  show ?case
  proof (cases "a = 1")
    case True
    then show ?thesis by (simp add: bits.simps)
  next
    case False
    with 1 have IH: "0 < bits (a div 2)" "2 ^ (bits (a div 2) - 1) \<le> a div 2" "a div 2 < 2 ^ bits (a div 2)"
      by auto
    then obtain k where k: "bits (a div 2) = Suc k" by (cases "bits (a div 2)") auto
    with IH "1.prems" show ?thesis by (subst (1 2 3) bits.simps) auto
  qed
qed

lemma bits_rat:
  assumes "0 < a"
  shows "(2::rat) powi (int (bits a) - 1) \<le> of_int a" and "of_int a < (2::rat) powi int (bits a)"
proof -
  from bits_bounds [OF assms] have m: "0 < bits a" and lo: "2 ^ (bits a - 1) \<le> a" and hi: "a < 2 ^ bits a"
    by simp_all
  have "int (bits a) - 1 = int (bits a - 1)" using m by simp
  then show "(2::rat) powi (int (bits a) - 1) \<le> of_int a"
    using lo by (simp only: power_int_of_nat) (metis of_int_le_iff of_int_numeral of_int_power)
  show "of_int a < (2::rat) powi int (bits a)"
    using hi by (simp only: power_int_of_nat) (metis of_int_less_iff of_int_numeral of_int_power)
qed

lemma expo_bounds:
  assumes "0 < q"
  shows "2 powi expo q \<le> q \<and> q < 2 powi (expo q + 1)"
proof -
  obtain a b where q: "quotient_of q = (a, b)" by (cases "quotient_of q")
  have b: "0 < b" by (rule quotient_of_denom_pos [OF q])
  have qab: "q = of_int a / of_int b" by (rule quotient_of_div [OF q])
  with assms b have a: "0 < a" by (simp add: zero_less_divide_iff)
  let ?m = "int (bits a)" and ?n = "int (bits b)"
  note A = bits_rat [OF a] and B = bits_rat [OF b]
  have pos: "0 < (2::rat) powi i" for i by simp
  have "2 powi (?m - ?n - 1) = 2 powi (?m - 1) / (2::rat) powi ?n"
    by (simp add: power_int_diff)
  also have "\<dots> \<le> of_int a / of_int b"
    using A(1) B(2) a b by (intro frac_le) simp_all
  finally have lo: "2 powi (?m - ?n - 1) \<le> q" by (simp add: qab)
  have "of_int a / of_int b < 2 powi ?m / (2::rat) powi (?n - 1)"
    using A(2) B(1) a b by (intro frac_less) simp_all
  also have "\<dots> = 2 powi (?m - ?n + 1)"
    by (simp add: power_int_diff power_int_add)
  finally have hi: "q < 2 powi (?m - ?n + 1)" by (simp add: qab)
  from lo hi show ?thesis
    by (auto simp: expo_def q Let_def)
qed

lemma expo_le:
  assumes "0 < p" and "p \<le> q"
  shows "expo p \<le> expo q"
proof (rule ccontr)
  assume "\<not> expo p \<le> expo q"
  then have "(2::rat) powi (expo q + 1) \<le> 2 powi expo p" by (intro power_int_increasing) simp_all
  with expo_bounds [of p] expo_bounds [of q] assms show False by linarith
qed

text \<open>A rounded number keeps its exponent, or is the next power of two.\<close>

lemma scaled_bounds:
  assumes "0 < q"
  shows "2 ^ 52 \<le> q / 2 powi (expo q - 52)" and "q / 2 powi (expo q - 52) < 2 ^ 53"
proof -
  have "(2::rat) powi expo q = 2 ^ 52 * 2 powi (expo q - 52)"
    and "(2::rat) powi (expo q + 1) = 2 ^ 53 * 2 powi (expo q - 52)"
    by (simp_all add: power_int_diff power_int_add)
  with expo_bounds [OF assms] show "2 ^ 52 \<le> q / 2 powi (expo q - 52)" "q / 2 powi (expo q - 52) < 2 ^ 53"
    by (simp_all add: pos_le_divide_eq pos_divide_less_eq)
qed

lemma fl_pos_bounds:
  assumes "0 < q"
  shows "2 powi expo q \<le> fl_pos q \<and> fl_pos q \<le> 2 powi (expo q + 1)"
proof -
  let ?u = "(2::rat) powi (expo q - 52)"
  have "2 ^ 52 \<le> round_even (q / ?u)"
    using round_even_mono [of "of_int (2 ^ 52)" "q / ?u"] scaled_bounds(1) [OF assms] by simp
  then have lo: "2 ^ 52 * ?u \<le> of_int (round_even (q / ?u)) * ?u"
    by (intro mult_right_mono) (use of_int_le_iff [of "2 ^ 52" "round_even (q / ?u)", where 'a = rat] in simp_all)
  have "round_even (q / ?u) \<le> 2 ^ 53"
    using round_even_mono [of "q / ?u" "of_int (2 ^ 53)"] scaled_bounds(2) [OF assms] by simp
  then have hi: "of_int (round_even (q / ?u)) * ?u \<le> 2 ^ 53 * ?u"
    by (intro mult_right_mono) (use of_int_le_iff [of "round_even (q / ?u)" "2 ^ 53", where 'a = rat] in simp_all)
  have "(2::rat) powi expo q = 2 ^ 52 * ?u" "(2::rat) powi (expo q + 1) = 2 ^ 53 * ?u"
    by (simp_all add: power_int_diff power_int_add)
  with lo hi show ?thesis by (simp add: fl_pos_def Let_def)
qed

lemma fl_pos_mono:
  assumes "0 < p" and "p \<le> q"
  shows "fl_pos p \<le> fl_pos q"
proof (cases "expo p = expo q")
  case True
  have "p / 2 powi (expo q - 52) \<le> q / 2 powi (expo q - 52)"
    using assms(2) by (simp add: divide_right_mono)
  from round_even_mono [OF this] show ?thesis
    by (simp add: fl_pos_def Let_def True mult_right_mono)
next
  case False
  with expo_le [OF assms] have "expo p + 1 \<le> expo q" by simp
  then have "(2::rat) powi (expo p + 1) \<le> 2 powi expo q" by (intro power_int_increasing) simp_all
  with fl_pos_bounds [of p] fl_pos_bounds [of q] assms show ?thesis by linarith
qed

lemma fl_pos_ge: "0 < q \<Longrightarrow> 0 \<le> fl_pos q"
  using fl_pos_bounds [of q] zero_less_power_int [of "2 :: rat" "expo q"] by linarith

lemma fl_0 [simp]: "fl 0 = 0"
  by (simp add: fl_def)

lemma fl_nonneg: "0 \<le> q \<Longrightarrow> 0 \<le> fl q"
  by (simp add: fl_def fl_pos_ge)

lemma fl_mono: "0 \<le> p \<Longrightarrow> p \<le> q \<Longrightarrow> fl p \<le> fl q"
  by (cases "p = 0") (auto simp: fl_def fl_pos_mono fl_pos_ge)

text \<open>Integers of up to 53 bits are exact.\<close>

lemma fl_int:
  assumes "0 \<le> n" and "n \<le> 2 ^ 53"
  shows "fl (of_int n) = of_int n"
proof (cases "n = 0")
  case False
  with assms have n: "(0::rat) < of_int n" by simp
  let ?k = "expo (of_int n)"
  obtain m :: int where m: "(of_int n :: rat) / 2 powi (?k - 52) = of_int m"
  proof (cases "?k \<le> 52")
    case True
    then obtain j where j: "?k - 52 = - int j" by (metis add.inverse_inverse diff_le_0_iff_le neg_0_le_iff_le zero_le_imp_eq_int)
    have "(of_int n :: rat) / 2 powi (?k - 52) = of_int (n * 2 ^ j)"
      unfolding j by (simp add: power_int_minus divide_inverse)
    with that show ?thesis .
  next
    case False
    then have "(2::rat) powi 53 \<le> 2 powi ?k" by (intro power_int_increasing) simp_all
    with expo_bounds [OF n] have "2 ^ 53 \<le> (of_int n :: rat)" by simp
    then have "2 ^ 53 \<le> n" by (metis (mono_tags) of_int_le_iff of_int_numeral of_int_power)
    with assms(2) have n53: "n = 2 ^ 53" by simp
    have "?k = 53"
    proof (rule ccontr)
      assume "?k \<noteq> 53"
      with False have "(2::rat) powi 54 \<le> 2 powi ?k" by (intro power_int_increasing) simp_all
      with expo_bounds [OF n] show False by (simp add: n53)
    qed
    then have "(of_int n :: rat) / 2 powi (?k - 52) = of_int (2 ^ 52)" by (simp add: n53)
    with that show ?thesis .
  qed
  have "of_int m * 2 powi (?k - 52) = (of_int n :: rat)" by (simp flip: m)
  then have "fl_pos (of_int n) = of_int n"
    by (simp add: fl_pos_def Let_def m)
  with n show ?thesis by (simp add: fl_def)
qed simp

text \<open>The relative error of a rounding.\<close>

lemma round_even_error: "\<bar>of_int (round_even x) - x\<bar> \<le> 1 / 2"
  using floor_correct [of x] by (simp add: round_even_def Let_def abs_le_iff field_simps)

lemma fl_error:
  assumes "0 < q"
  shows "\<bar>fl q - q\<bar> \<le> q / 2 ^ 53"
proof -
  let ?u = "(2::rat) powi (expo q - 52)"
  have u: "0 < ?u" by simp
  have "fl q - q = (of_int (round_even (q / ?u)) - q / ?u) * ?u"
    using assms by (simp add: fl_def fl_pos_def Let_def left_diff_distrib)
  then have "\<bar>fl q - q\<bar> \<le> 1 / 2 * ?u"
    using round_even_error [of "q / ?u"] u by (simp add: abs_mult)
  also have "\<dots> = 2 powi expo q / 2 ^ 53" by (simp add: power_int_diff)
  also have "\<dots> \<le> q / 2 ^ 53" using expo_bounds [OF assms] by (simp add: divide_right_mono)
  finally show ?thesis .
qed

lemma fl_lower: "0 < q \<Longrightarrow> q * (1 - 1 / 2 ^ 53) \<le> fl q"
  using abs_le_D2 [OF fl_error, of q]
  by (simp only: right_diff_distrib mult_1_right times_divide_eq_right minus_diff_eq diff_le_eq add.commute)

lemma fl_upper: "0 < q \<Longrightarrow> fl q \<le> q * (1 + 1 / 2 ^ 53)"
  using abs_le_D1 [OF fl_error, of q]
  by (simp only: distrib_left mult_1_right times_divide_eq_right diff_le_eq add.commute)

lemma fl_gt_0: "0 < q \<Longrightarrow> 0 < fl q"
  by (rule less_le_trans [OF mult_pos_pos fl_lower]) simp_all

end
