(* ===== verification/Health.thy ===== *)
theory Health
  imports Model Stats Float64
begin

text \<open>
  The health collector, \<^verbatim>\<open>internal/health/health.go\<close>: load, memory, processor and network figures
  from the files of \<^verbatim>\<open>/proc\<close>, and the rates between two samples. Counters are unsigned 64-bit
  words, whose differences wrap; rates are \<^verbatim>\<open>float64\<close>.
\<close>

section \<open>Data\<close>

record metrics =
  me_CPUPercent :: float64
  me_MemoryBytes :: uint64
  me_Load1 :: float64
  me_NetworkRX :: uint64
  me_NetworkTX :: uint64
  me_NetworkRXBPS :: float64
  me_NetworkTXBPS :: float64

record cpu_times =
  ct_total :: uint64
  ct_idle :: uint64

record net_times =
  nt_rx :: uint64
  nt_tx :: uint64

record sampler =
  sa_iface :: string
  sa_lastCPU :: cpu_times
  sa_lastNet :: net_times
  sa_lastTime :: gotime
  sa_primed :: bool

definition new_sampler :: "string \<Rightarrow> sampler" where
  "new_sampler iface = \<lparr>sa_iface = iface, sa_lastCPU = \<lparr>ct_total = 0, ct_idle = 0\<rparr>,
     sa_lastNet = \<lparr>nt_rx = 0, nt_tx = 0\<rparr>, sa_lastTime = zero_time, sa_primed = False\<rparr>"

text \<open>
  A file that is read line by line: the error of opening it, or its bytes with the error that ends
  the reading, if any.
\<close>

type_synonym scan_file = "string + string \<times> string option"

text \<open>The files of \<^verbatim>\<open>/proc\<close>, and \<^verbatim>\<open>strconv.ParseFloat\<close> (its value also where it reports an error).\<close>

record procfs =
  pf_loadavg :: "string + string"
  pf_meminfo :: scan_file
  pf_stat :: "string + string"
  pf_netdev :: scan_file
  pf_float :: "string \<Rightarrow> float64"

section \<open>Parsing\<close>

text \<open>\<^verbatim>\<open>bufio.Scanner\<close>: lines without their ends, up to a line that does not fit its buffer.\<close>

definition drop_cr :: "string \<Rightarrow> string" where
  "drop_cr s = (if has_suffix [CHR 0x0D] s then butlast s else s)"

definition scan_limit :: nat where "scan_limit = 65536"

function scan_lines :: "string \<Rightarrow> string list \<times> bool" where
  "scan_lines s =
     (if s = [] then ([], False)
      else let line = takeWhile (\<lambda>c. c \<noteq> CHR 0x0A) s
        in if scan_limit \<le> length line then ([], True)
           else case dropWhile (\<lambda>c. c \<noteq> CHR 0x0A) s of
               [] \<Rightarrow> ([drop_cr line], False)
             | _ # rest \<Rightarrow> (case scan_lines rest of (ls, long) \<Rightarrow> (drop_cr line # ls, long)))"
  by pat_completeness auto

termination
proof (relation "measure length")
  fix s line x rest
  assume "dropWhile (\<lambda>c. c \<noteq> CHR 0x0A) s = (x :: char) # rest"
  then have "length (x # rest) \<le> length s" by (metis length_dropWhile_le)
  then show "(rest, s) \<in> measure length" by simp
qed simp

declare scan_lines.simps [simp del]

definition scan_error :: "string \<times> string option \<Rightarrow> string option" where
  "scan_error f = (if snd (scan_lines (fst f)) then Some ''bufio.Scanner: token too long'' else snd f)"

text \<open>\<^verbatim>\<open>strconv.ParseUint(s, 10, 64)\<close>, and its value where the error is ignored.\<close>

definition parse_uint64 :: "string \<Rightarrow> uint64 option" where
  "parse_uint64 s =
     (case parse_uint_digits s of None \<Rightarrow> None | Some n \<Rightarrow> if n < 2 ^ 64 then Some (of_int n) else None)"

definition parse_uint64_lax :: "string \<Rightarrow> uint64" where
  "parse_uint64_lax s =
     (case parse_uint_digits s of None \<Rightarrow> 0 | Some n \<Rightarrow> if n < 2 ^ 64 then of_int n else - 1)"

section \<open>Reading\<close>

definition meminfo_step :: "uint64 \<times> uint64 \<Rightarrow> string \<Rightarrow> uint64 \<times> uint64" where
  "meminfo_step acc line =
     (case str_fields line of
        p0 # p1 # _ \<Rightarrow>
          if p0 = ''MemTotal:'' then (parse_uint64_lax p1 * 1024, snd acc)
          else if p0 = ''MemAvailable:'' then (fst acc, parse_uint64_lax p1 * 1024)
          else acc
      | _ \<Rightarrow> acc)"

definition memory_and_load :: "procfs \<Rightarrow> uint64 \<times> float64" where
  "memory_and_load pr =
     (let load1 = (case pf_loadavg pr of
              Inl _ \<Rightarrow> 0
            | Inr b \<Rightarrow> (case str_fields b of [] \<Rightarrow> 0 | f0 # _ \<Rightarrow> pf_float pr f0))
      in case pf_meminfo pr of
          Inl _ \<Rightarrow> (0, load1)
        | Inr f \<Rightarrow>
            (case foldl meminfo_step (0, 0) (fst (scan_lines (fst f))) of
               (all, avail) \<Rightarrow> (if all > avail then all - avail else 0, load1)))"

definition read_cpu :: "procfs \<Rightarrow> string + cpu_times" where
  "read_cpu pr =
     (case pf_stat pr of
        Inl err \<Rightarrow> Inl err
      | Inr b \<Rightarrow>
          let fs = str_fields (takeWhile (\<lambda>c. c \<noteq> CHR 0x0A) b)
          in if length fs < 5 \<or> hd fs \<noteq> ''cpu'' then Inl ''invalid /proc/stat''
             else (case collect (map (\<lambda>f. case parse_uint64 f of
                       None \<Rightarrow> Inl (''strconv.ParseUint: parsing '' @ f) | Some v \<Rightarrow> Inr v) (tl fs)) of
                 Inl err \<Rightarrow> Inl err
               | Inr vals \<Rightarrow> Inr \<lparr>ct_total = foldl (+) 0 vals,
                   ct_idle = (if length vals > 4 then vals ! 3 + vals ! 4 else vals ! 3)\<rparr>))"

text \<open>One line of \<^verbatim>\<open>/proc/net/dev\<close>: the counters it adds.\<close>

definition net_line :: "string \<Rightarrow> string \<Rightarrow> net_times option" where
  "net_line iface text =
     (let line = trim_space text
      in case index_of '':'' line of
          None \<Rightarrow> None
        | Some i \<Rightarrow>
            let name = trim_space (take i line); fs = str_fields (drop (i + 1) line)
            in if name = ''lo'' \<or> (iface \<noteq> [] \<and> name \<noteq> iface) \<or> length fs < 16 then None
               else (case (parse_uint64 (fs ! 0), parse_uint64 (fs ! 8)) of
                   (Some rx, Some tx) \<Rightarrow> Some \<lparr>nt_rx = rx, nt_tx = tx\<rparr>
                 | _ \<Rightarrow> None))"

definition read_network :: "procfs \<Rightarrow> string \<Rightarrow> string + net_times" where
  "read_network pr iface =
     (case pf_netdev pr of
        Inl err \<Rightarrow> Inl err
      | Inr f \<Rightarrow>
          let ns = List.map_filter (net_line iface) (fst (scan_lines (fst f)))
          in case scan_error f of
              Some err \<Rightarrow> Inl err
            | None \<Rightarrow>
                if ns = [] then Inl ''network interface not found''
                else Inr \<lparr>nt_rx = foldl (+) 0 (map nt_rx ns), nt_tx = foldl (+) 0 (map nt_tx ns)\<rparr>)"

section \<open>Sampling\<close>

definition float_of_uint :: "uint64 \<Rightarrow> float64" where
  "float_of_uint w = fl (of_int (uint w))"

text \<open>\<^verbatim>\<open>t.Sub(u)\<close>, which saturates, and \<^verbatim>\<open>Duration.Seconds\<close>, on truncated parts.\<close>

definition time_sub :: "gotime \<Rightarrow> gotime \<Rightarrow> int64" where
  "time_sub t u = max (- (2 ^ 63)) (min (2 ^ 63 - 1) (t - u))"

definition seconds :: "int64 \<Rightarrow> float64" where
  "seconds d =
     (let sec = (if d < 0 then - (- d div second_ns) else d div second_ns); nsec = d - sec * second_ns
      in fl (fl (of_int sec) + fl (fl (of_int nsec) / 1000000000)))"

definition cpu_percent :: "cpu_times \<Rightarrow> cpu_times \<Rightarrow> float64" where
  "cpu_percent old new =
     (if ct_total new > ct_total old
      then let total_delta = ct_total new - ct_total old; idle_delta = ct_idle new - ct_idle old
        in if idle_delta \<le> total_delta
           then fl (fl (100 * float_of_uint (total_delta - idle_delta)) / float_of_uint total_delta)
           else 0
      else 0)"

definition bits_per_second :: "uint64 \<Rightarrow> uint64 \<Rightarrow> float64 \<Rightarrow> float64" where
  "bits_per_second old new elapsed =
     (if new \<ge> old then fl (fl (float_of_uint (new - old) * 8) / elapsed) else 0)"

definition health_snapshot :: "procfs \<Rightarrow> gotime \<Rightarrow> sampler \<Rightarrow> metrics \<times> sampler" where
  "health_snapshot pr now s =
     (case memory_and_load pr of
        (memory, load1) \<Rightarrow>
          let cpu = read_cpu pr; net = read_network pr (sa_iface s);
              elapsed = seconds (time_sub now (sa_lastTime s));
              percent = (if sa_primed s then (case cpu of Inl _ \<Rightarrow> 0 | Inr c \<Rightarrow> cpu_percent (sa_lastCPU s) c) else 0);
              rate = (\<lambda>f. if sa_primed s \<and> elapsed > 0
                 then (case net of Inl _ \<Rightarrow> 0 | Inr n \<Rightarrow> bits_per_second (f (sa_lastNet s)) (f n) elapsed) else 0);
              count = (\<lambda>f. case net of Inl _ \<Rightarrow> 0 | Inr n \<Rightarrow> f n)
          in (\<lparr>me_CPUPercent = percent, me_MemoryBytes = memory, me_Load1 = load1,
                me_NetworkRX = count nt_rx, me_NetworkTX = count nt_tx,
                me_NetworkRXBPS = rate nt_rx, me_NetworkTXBPS = rate nt_tx\<rparr>,
              s\<lparr>sa_lastCPU := (case cpu of Inl _ \<Rightarrow> sa_lastCPU s | Inr c \<Rightarrow> c),
                sa_lastNet := (case net of Inl _ \<Rightarrow> sa_lastNet s | Inr n \<Rightarrow> n),
                sa_lastTime := now, sa_primed := True\<rparr>))"

section \<open>Properties\<close>

lemma float_of_uint_nonneg [simp]: "0 \<le> float_of_uint w"
  unfolding float_of_uint_def by (rule fl_nonneg) (metis of_int_0_le_iff uint_ge_0)

lemma bits_per_second_nonneg: "0 < t \<Longrightarrow> 0 \<le> bits_per_second a b t"
  by (simp add: bits_per_second_def fl_nonneg)

lemma cpu_percent_nonneg: "0 \<le> cpu_percent a b"
  by (auto simp: cpu_percent_def Let_def intro!: fl_nonneg divide_nonneg_nonneg)

lemma uint_minus: "uint (a - b :: uint64) = (uint a - uint b) mod 2 ^ 64"
  by (simp add: uint_word_ariths)

lemma uint_minus_le: "b \<le> a \<Longrightarrow> uint (a - b :: uint64) = uint a - uint b"
  by (simp add: uint_minus_simple_alt [symmetric] word_le_def uint_minus_simple_iff [symmetric])

lemma percent_exact:
  assumes "0 \<le> b" and "b \<le> t" and "0 < t" and "t \<le> 2 ^ 46"
  shows "fl (fl (100 * fl (of_int b)) / fl (of_int t)) \<le> 100"
proof -
  have "fl (of_int n) = of_int n" if "n \<in> {b, t, 100 * b}" for n
    by (rule fl_int) (use that assms in auto)
  then have "fl (of_int b) = of_int b" "fl (of_int t) = of_int t" "fl (of_int (100 * b)) = of_int (100 * b)"
    by blast+
  moreover have "of_int (100 * b) / of_int t \<le> (of_int 100 :: rat)"
    using assms(2,3) by (simp add: pos_divide_le_eq flip: of_int_mult)
  moreover have "0 \<le> (of_int (100 * b) / of_int t :: rat)" using assms by simp
  ultimately show ?thesis using fl_mono [of "of_int (100 * b) / of_int t" "of_int 100"] fl_int [of 100] by simp
qed

lemma cpu_percent_le:
  assumes "uint (ct_total new) - uint (ct_total old) \<le> 2 ^ 46"
  shows "cpu_percent old new \<le> 100"
proof (cases "ct_total new > ct_total old \<and> ct_idle new - ct_idle old \<le> ct_total new - ct_total old")
  case True
  let ?t = "uint (ct_total new - ct_total old)"
  let ?b = "uint (ct_total new - ct_total old - (ct_idle new - ct_idle old))"
  have t: "0 < ?t" "?t \<le> 2 ^ 46"
    using True assms by (simp_all add: uint_minus_le less_imp_le) (simp_all add: word_less_def)
  have b: "0 \<le> ?b" "?b \<le> ?t"
    using True by (simp_all add: uint_minus_le) (simp add: word_le_def)
  from percent_exact [OF b(1,2) t] show ?thesis
    using True by (simp add: cpu_percent_def float_of_uint_def Let_def del: of_int_uint)
next
  case False
  then show ?thesis by (auto simp: cpu_percent_def Let_def)
qed

lemma cpu_percent_cap: "2 ^ 46 < uint (ct_total new) - uint (ct_total old) \<or> cpu_percent old new \<le> 100"
  using cpu_percent_le [of new old] by linarith

lemma foldl_plus: "foldl (+) a xs = a + sum_list (xs :: uint64 list)"
  by (induction xs arbitrary: a) (simp_all add: add.assoc)

lemma parse_show_nat: "n < 2 ^ 64 \<Longrightarrow> parse_uint64 (show_nat n) = Some (of_nat n)"
  using show_nat_no_space [of n]
  by (simp add: parse_uint64_def parse_uint_digits_def digits_show_nat)


text \<open>
  The load is computed from true differences, although the counters are unsigned words
  whose subtraction wraps: while the total advances by less than 2^63 it is the rounded share of
  the ticks that were not idle, and 0 where the total did not advance or the idle counter ran
  backwards or too far.
\<close>

lemma cpu_percent_exact:
  assumes "uint (ct_total new) - uint (ct_total old) < 2 ^ 63" and "uint (ct_idle old) < 2 ^ 63"
  shows "cpu_percent old new =
    (let t = uint (ct_total new) - uint (ct_total old); i = uint (ct_idle new) - uint (ct_idle old)
     in if 0 < t \<and> 0 \<le> i \<and> i \<le> t then fl (fl (100 * fl (of_int (t - i))) / fl (of_int t)) else 0)"
proof (cases "ct_total new > ct_total old")
  case False
  then show ?thesis by (auto simp: cpu_percent_def Let_def word_less_def)
next
  case True
  let ?t = "uint (ct_total new) - uint (ct_total old)" and ?i = "uint (ct_idle new) - uint (ct_idle old)"
  have t: "uint (ct_total new - ct_total old) = ?t" and pos: "0 < ?t"
    using True by (simp_all add: uint_minus_le less_imp_le) (simp_all add: word_less_def)
  have le: "ct_idle new - ct_idle old \<le> ct_total new - ct_total old \<longleftrightarrow> 0 \<le> ?i \<and> ?i \<le> ?t"
  proof (cases "ct_idle old \<le> ct_idle new")
    case True
    then have "uint (ct_idle new - ct_idle old) = ?i" and "0 \<le> ?i"
      by (simp add: uint_minus_le) (use True in \<open>simp add: word_le_def\<close>)
    then show ?thesis unfolding word_le_def t by simp
  next
    case False
    then have neg: "?i < 0" by (simp add: word_le_def)
    have "- (2 ^ 63) < ?i" using assms(2) uint_ge_0 [of "ct_idle new"] by linarith
    with neg have "(?i + 2 ^ 64) mod 2 ^ 64 = ?i + 2 ^ 64"
      by (intro mod_pos_pos_trivial) simp_all
    then have "?i mod 2 ^ 64 = ?i + 2 ^ 64" by simp
    then have "2 ^ 63 < uint (ct_idle new - ct_idle old)"
      using \<open>- (2 ^ 63) < ?i\<close> unfolding uint_minus by simp
    with assms(1) neg show ?thesis unfolding word_le_def t by simp
  qed
  have b: "uint (ct_total new - ct_total old - (ct_idle new - ct_idle old)) = ?t - ?i"
    if "0 \<le> ?i \<and> ?i \<le> ?t"
  proof -
    have "ct_idle old \<le> ct_idle new" using that by (simp add: word_le_def)
    with that le show ?thesis by (simp add: uint_minus_le t)
  qed
  show ?thesis
    using True pos le b t by (simp add: cpu_percent_def Let_def float_of_uint_def del: of_int_uint)
qed

lemma cpu_percent_exact_witness:
  "cpu_percent \<lparr>ct_total = 1000, ct_idle = 900\<rparr> \<lparr>ct_total = 1200, ct_idle = 1050\<rparr>
     = fl (fl (100 * fl (of_int 50)) / fl (of_int 200))
   \<and> cpu_percent \<lparr>ct_total = 1000, ct_idle = 900\<rparr> \<lparr>ct_total = 1200, ct_idle = 899\<rparr> = 0"
  using cpu_percent_exact [of "\<lparr>ct_total = 1200, ct_idle = 1050\<rparr>" "\<lparr>ct_total = 1000, ct_idle = 900\<rparr>"]
    cpu_percent_exact [of "\<lparr>ct_total = 1200, ct_idle = 899\<rparr>" "\<lparr>ct_total = 1000, ct_idle = 900\<rparr>"]
  by simp

text \<open>What the kernel writes in the first line of \<^verbatim>\<open>/proc/stat\<close>.\<close>

definition cpu_line :: "nat list \<Rightarrow> string" where
  "cpu_line ns = ''cpu'' @ concat (map ((#) (CHR '' '')) (map show_nat ns))"

lemma cpu_line_fields: "str_fields (cpu_line ns) = ''cpu'' # map show_nat ns"
proof -
  have "str_fields (concat (map ((#) (CHR '' '')) (''cpu'' # map show_nat ns))) = ''cpu'' # map show_nat ns"
    by (rule str_fields_spaced) (use show_nat_no_space in \<open>auto simp: space_bytes_def\<close>)
  then show ?thesis by (simp add: cpu_line_def space_bytes_def)
qed

lemma cpu_line_newline: "CHR 0x0A \<notin> set (cpu_line ns)"
proof -
  have "CHR 0x0A \<in> set space_bytes" by (simp add: space_bytes_def)
  with show_nat_no_space show ?thesis by (auto simp: cpu_line_def)
qed



end
