(* ===== verification/Config.thy ===== *)
theory Config
  imports Session
begin

text \<open>
  Loading the configuration of the agent, \<^verbatim>\<open>internal/config/config.go\<close>. The decoder of JSON is the
  parameter \<open>decode\<close>, \<^verbatim>\<open>url.Parse\<close> the parameter \<open>url\<close> (scheme and host name, \<open>None\<close> for an
  error).
\<close>

type_synonym url_parser = "string \<Rightarrow> (string \<times> string) option"

definition loopback :: "string \<Rightarrow> bool" where
  "loopback host \<longleftrightarrow> host \<in> {''127.0.0.1'', ''localhost'', ''::1''}"

definition loopback_address :: "string \<Rightarrow> bool" where
  "loopback_address addr \<longleftrightarrow> (case split_host addr of None \<Rightarrow> False | Some host \<Rightarrow> loopback host)"

definition or_default :: "string \<Rightarrow> string \<Rightarrow> string" where
  "or_default d s = (if s = [] then d else s)"

definition or_positive :: "int \<Rightarrow> int \<Rightarrow> int" where
  "or_positive d n = (if n \<le> 0 then d else n)"

definition check_panel_url :: "url_parser \<Rightarrow> string \<Rightarrow> string option" where
  "check_panel_url url s =
     (case url s of
        None \<Rightarrow> Some ''invalid panel_url''
      | Some (scheme, host) \<Rightarrow>
          if host = [] then Some ''invalid panel_url''
          else if scheme \<noteq> ''https'' \<and> (scheme \<noteq> ''http'' \<or> \<not> loopback host)
          then Some ''panel_url must use HTTPS unless it is loopback''
          else None)"

text \<open>The defaults up to the check of the Xray API address, those up to the check of \<^verbatim>\<open>listen\<close>, and the rest.\<close>

definition api_defaults :: "agent_config \<Rightarrow> agent_config" where
  "api_defaults c = c\<lparr>
     cfg_SyncSeconds := or_positive 15 (cfg_SyncSeconds c),
     cfg_XrayBinary := or_default ''/usr/local/bin/xray'' (cfg_XrayBinary c),
     cfg_XrayConfig := or_default ''/etc/xnode/xray.json'' (cfg_XrayConfig c),
     cfg_XrayAPI := or_default ''127.0.0.1:10085'' (cfg_XrayAPI c)\<rparr>"

definition listen_defaults :: "agent_config \<Rightarrow> agent_config" where
  "listen_defaults c = c\<lparr>
     cfg_XrayAccessLog := or_default ''/var/log/xnode/xray-access.log'' (cfg_XrayAccessLog c),
     cfg_XrayLimitsFile := or_default ''/var/lib/xnode/limits.json'' (cfg_XrayLimitsFile c),
     cfg_StateFile := or_default ''/var/lib/xnode/state.json'' (cfg_StateFile c),
     cfg_TrafficSpoolDir := or_default ''/var/lib/xnode/traffic-spool'' (cfg_TrafficSpoolDir c),
     cfg_IPWindowSeconds := or_positive 120 (cfg_IPWindowSeconds c),
     cfg_Listen := or_default ''127.0.0.1:19090'' (cfg_Listen c)\<rparr>"

definition complete_config :: "url_parser \<Rightarrow> agent_config \<Rightarrow> string + agent_config" where
  "complete_config url c =
     (if cfg_NodeID c = [] \<or> cfg_PanelURL c = [] \<or> cfg_PanelToken c = []
      then Inl ''node_id, panel_url and panel_token are required''
      else case check_panel_url url (cfg_PanelURL c) of
          Some err \<Rightarrow> Inl err
        | None \<Rightarrow>
            let c1 = api_defaults c
            in if \<not> loopback_address (cfg_XrayAPI c1) then Inl ''xray_api must listen on loopback''
               else let c2 = listen_defaults c1
                 in if \<not> loopback_address (cfg_Listen c2) then Inl ''listen must be loopback''
                    else Inr (c2\<lparr>cfg_Weight := or_positive 100 (cfg_Weight c2)\<rparr>))"

definition load_config ::
  "(string \<Rightarrow> string + string) \<Rightarrow> (string \<Rightarrow> string + agent_config) \<Rightarrow> url_parser \<Rightarrow> string \<Rightarrow> string + agent_config" where
  "load_config read decode url path =
     (case read path of
        Inl err \<Rightarrow> Inl err
      | Inr b \<Rightarrow> (case decode b of Inl err \<Rightarrow> Inl err | Inr c \<Rightarrow> complete_config url c))"

section \<open>Properties\<close>

lemma or_default_simps [simp]: "or_default d [] = d" "s \<noteq> [] \<Longrightarrow> or_default d s = s" "d \<noteq> [] \<Longrightarrow> or_default d s \<noteq> []"
  "d \<noteq> [] \<Longrightarrow> [] \<noteq> or_default d s" "or_default d (or_default d s) = or_default d s"
  by (simp_all add: or_default_def)

lemma or_positive_simps [simp]: "0 < n \<Longrightarrow> or_positive d n = n" "0 < d \<Longrightarrow> 0 < or_positive d n"
  "or_positive d (or_positive d n) = or_positive d n"
  by (simp_all add: or_positive_def)

lemmas default_defs = api_defaults_def listen_defaults_def

lemma complete_config_Inr:
  "complete_config url c = Inr c' \<longleftrightarrow>
     cfg_NodeID c \<noteq> [] \<and> cfg_PanelURL c \<noteq> [] \<and> cfg_PanelToken c \<noteq> []
   \<and> check_panel_url url (cfg_PanelURL c) = None
   \<and> loopback_address (or_default ''127.0.0.1:10085'' (cfg_XrayAPI c))
   \<and> loopback_address (or_default ''127.0.0.1:19090'' (cfg_Listen c))
   \<and> c' = (listen_defaults (api_defaults c))\<lparr>cfg_Weight := or_positive 100 (cfg_Weight c)\<rparr>"
  by (auto simp: complete_config_def Let_def default_defs split: option.splits)

text \<open>
  Claim C40. A configuration that loads is safe and complete: the panel is named and reached over
  HTTPS, or over HTTP on the same host only; the API of Xray and the admin server listen on
  loopback addresses; every path is set; the intervals and the weight are positive; and what the file sets itself
  is kept.
\<close>

theorem loaded_config_safe:
  assumes "load_config rd decode url path = Inr c"
  shows "cfg_NodeID c \<noteq> [] \<and> cfg_PanelURL c \<noteq> [] \<and> cfg_PanelToken c \<noteq> []
    \<and> (\<exists>scheme host. url (cfg_PanelURL c) = Some (scheme, host) \<and> host \<noteq> []
        \<and> (scheme = ''https'' \<or> scheme = ''http'' \<and> loopback host))
    \<and> (\<exists>host. split_host (cfg_XrayAPI c) = Some host \<and> loopback host)
    \<and> (\<exists>host. split_host (cfg_Listen c) = Some host \<and> loopback host)
    \<and> 0 < cfg_SyncSeconds c \<and> 0 < cfg_IPWindowSeconds c \<and> 0 < cfg_Weight c
    \<and> [] \<notin> {cfg_XrayBinary c, cfg_XrayConfig c, cfg_XrayAccessLog c, cfg_XrayLimitsFile c, cfg_StateFile c,
        cfg_TrafficSpoolDir c}"
proof -
  from assms obtain c0 where "complete_config url c0 = Inr c"
    by (auto simp: load_config_def split: sum.splits)
  note c0 = this [unfolded complete_config_Inr]
  moreover have "\<exists>scheme host. url (cfg_PanelURL c0) = Some (scheme, host) \<and> host \<noteq> []
      \<and> (scheme = ''https'' \<or> scheme = ''http'' \<and> loopback host)"
    using c0 by (auto simp: check_panel_url_def split: option.splits if_splits)
  ultimately show ?thesis
    by (simp add: default_defs loopback_address_def split: option.splits)
qed

definition ex_config :: agent_config where
  "ex_config = \<lparr>cfg_NodeID = ''n'', cfg_PanelURL = ''https://panel'', cfg_PanelToken = ''t'', cfg_SyncSeconds = 0,
     cfg_XrayBinary = [], cfg_XrayConfig = [], cfg_XrayAPI = [], cfg_XrayAccessLog = [], cfg_XrayLimitsFile = [],
     cfg_StateFile = [], cfg_TrafficSpoolDir = [], cfg_IPWindowSeconds = 0, cfg_ReportSessions = True,
     cfg_StrictLimitBackendURL = [], cfg_RequirePatchedCore = False, cfg_Listen = ''[::1]:19090'',
     cfg_NetworkInterface = [], cfg_Region = [], cfg_Group = [], cfg_Tags = [], cfg_Weight = 0\<rparr>"

definition ex_url :: url_parser where
  "ex_url s = (if s = ''https://panel'' then Some (''https'', ''panel'') else None)"

definition ex_loaded :: agent_config where
  "ex_loaded = (listen_defaults (api_defaults ex_config))\<lparr>cfg_Weight := 100\<rparr>"

lemma ex_loads: "complete_config ex_url ex_config = Inr ex_loaded"
proof -
  have "loopback_address ''127.0.0.1:10085''" and "loopback_address ''[::1]:19090''" by code_simp+
  then show ?thesis
    by (simp add: complete_config_Inr ex_loaded_def) (simp add: ex_config_def check_panel_url_def ex_url_def or_positive_def)
qed

theorem loaded_config_safe_witness:
  "0 < cfg_SyncSeconds ex_loaded \<and> (\<exists>host. split_host (cfg_Listen ex_loaded) = Some host \<and> loopback host)"
proof -
  have "load_config (\<lambda>_. Inr []) (\<lambda>_. Inr ex_config) ex_url ''/etc/xnode/agent.json'' = Inr ex_loaded"
    by (simp add: load_config_def ex_loads)
  from loaded_config_safe [OF this] show ?thesis by blast
qed

text \<open>
  Completing a configuration is idempotent and keeps what is set: loading a completed configuration again
  changes nothing, and every string that is not empty and every number that is positive stays.
\<close>

lemma complete_config_idempotent:
  assumes "complete_config url c = Inr c'"
  shows "complete_config url c' = Inr c'
    \<and> (\<forall>f \<in> {cfg_NodeID, cfg_PanelURL, cfg_PanelToken, cfg_XrayBinary, cfg_XrayConfig, cfg_XrayAPI, cfg_XrayAccessLog,
          cfg_XrayLimitsFile, cfg_StateFile, cfg_TrafficSpoolDir, cfg_Listen}. f c \<noteq> [] \<longrightarrow> f c' = f c)
    \<and> (\<forall>f \<in> {cfg_SyncSeconds, cfg_IPWindowSeconds, cfg_Weight}. 0 < f c \<longrightarrow> f c' = f c)"
  using assms by (simp add: complete_config_Inr default_defs)

lemma complete_config_idempotent_witness: "complete_config ex_url ex_loaded = Inr ex_loaded"
  using complete_config_idempotent [OF ex_loads] by blast

end
