(* ===== verification/Admin.thy ===== *)
theory Admin
  imports Model
begin

text \<open>
  The handlers of the admin server, \<^verbatim>\<open>internal/admin/server.go\<close>: the status code and the body they
  answer with, from the last heartbeat, and the end of \<^verbatim>\<open>Serve\<close>. The server around them is the standard library's.
\<close>

datatype admin_body = Ok_line | Status_of heartbeat

definition healthz :: "heartbeat \<Rightarrow> nat \<times> admin_body" where
  "healthz hb = (if \<not> hb_Healthy hb then 503 else 200, Ok_line)"

definition readyz :: "heartbeat \<Rightarrow> nat \<times> admin_body" where
  "readyz hb =
     (let ready = hb_Healthy hb \<and> hb_XrayRunning hb \<and> hb_XrayAPI hb
            \<and> hb_Mode hb \<noteq> ''maintenance'' \<and> hb_Mode hb \<noteq> ''disabled''
      in (if \<not> ready then 503 else 200, Ok_line))"

definition status_page :: "heartbeat \<Rightarrow> nat \<times> admin_body" where
  "status_page hb = (200, Status_of hb)"

text \<open>What the \<^verbatim>\<open>select\<close> of \<^verbatim>\<open>Serve\<close> takes: the end of the context, or the error the listener ends with.\<close>

datatype serve_event = Stop_requested | Listener_ended string

definition serve_result :: "serve_event \<Rightarrow> string option" where
  "serve_result ev =
     (case ev of
        Stop_requested \<Rightarrow> None
      | Listener_ended err \<Rightarrow> if err = ''http: Server closed'' then None else Some err)"

end
