(* ===== verification/Agent.thy ===== *)
theory Agent
  imports Billing Reload CorePolicy Process Session Health Config Admin
begin

text \<open>
  The agent, \<^verbatim>\<open>internal/agent/agent.go\<close>: the state it keeps, and one synchronisation with the panel
  (\<^verbatim>\<open>sync\<close>) from reading the saved state to the heartbeat, in the order the code makes its calls.

  The record \<open>agent\<close> holds the fields of the struct \<^verbatim>\<open>Agent\<close> and the parts of the world a
  synchronisation changes: the books (spool and panel), what Xray's API serves, the limiter
  backend, the policy and the state files. What one synchronisation meets from outside (clocks,
  answers, faults) is the record \<open>sync_env\<close>.
\<close>

section \<open>State\<close>

record ('x, 'p, 'l) agent =
  ag_Cfg :: agent_config
  ag_Xray :: manager
  ag_Limiter :: "backend option"
  ag_Sessions :: tracker
  ag_Metrics :: sampler
  ag_stateVersion :: string
  ag_onlineUsers :: nat
  ag_trackedIPs :: nat
  ag_mode :: string
  ag_drainReady :: bool
  ag_strictReady :: bool
  ag_region :: string
  ag_group :: string
  ag_tags :: "string list"
  ag_weight :: int
  ag_lastHB :: heartbeat
  ag_books :: "'p books"
  ag_serving :: 'x
  ag_backend :: 'l
  ag_policies :: "core_policy_file content files"
  ag_states :: "desired_state content files"

text \<open>
  \<open>en_settle\<close> is what Xray's API serves after an operation of the manager, from the manager before
  and after it: a process that is started serves its configuration.
\<close>

record ('x, 'p, 'l) sync_env =
  en_os :: os_env
  en_sha :: "string \<Rightarrow> string"
  en_unmarshal :: unmarshal
  en_render :: "any \<Rightarrow> string + string"
  en_reindent :: "raw_message \<Rightarrow> string + raw_message"
  en_panel :: "'p panel_env"
  en_run :: "'x api"
  en_cancelled :: "'x \<Rightarrow> bool"
  en_settle :: "manager \<Rightarrow> manager \<Rightarrow> 'x \<Rightarrow> 'x"
  en_exec :: "string list \<Rightarrow> string + string"
  en_version :: "string + string"
  en_log :: open_result
  en_ptime :: time_parser
  en_ip_ok :: "string \<Rightarrow> bool"
  en_now :: gotime
  en_list :: read_env
  en_delete :: "string \<Rightarrow> string option"
  en_event :: string
  en_collect_at :: gotime
  en_enqueue :: spool_env
  en_delete_new :: "string option"
  en_pending :: read_env
  en_policy_unreadable :: bool
  en_policy_write :: "core_policy_file content write_env"
  en_policy_lost :: bool
  en_state_unreadable :: bool
  en_state_write :: "desired_state content write_env"
  en_limiter :: "'l transport"
  en_proc :: procfs
  en_heartbeat_at :: gotime

definition agent_version :: string where "agent_version = ''1.1.0''"

text \<open>The panel client of an agent, fixed by its configuration.\<close>

definition client_of_agent :: "('x, 'p, 'l) agent \<Rightarrow> panel_client" where
  "client_of_agent a = new_client (cfg_PanelURL (ag_Cfg a)) (cfg_PanelToken (ag_Cfg a))"

definition zero_heartbeat :: heartbeat where
  "zero_heartbeat = \<lparr>hb_NodeID = [], hb_AgentVersion = [], hb_XrayVersion = [], hb_Healthy = False, hb_XrayRunning = False,
     hb_XrayAPI = False, hb_CPUPercent = 0, hb_MemoryBytes = 0, hb_Load1 = 0, hb_NetworkRX = 0, hb_NetworkTX = 0,
     hb_NetworkRXBPS = 0, hb_NetworkTXBPS = 0, hb_OnlineUsers = 0, hb_TrackedIPs = 0, hb_StateVersion = [], hb_Mode = [],
     hb_DrainReady = False, hb_Region = [], hb_Group = [], hb_Tags = [], hb_Weight = 0, hb_StrictLimitsReady = False,
     hb_Message = []\<rparr>"

text \<open>\<^verbatim>\<open>New\<close>, on a world given by its parts.\<close>

definition new_agent ::
  "agent_config \<Rightarrow> string files \<Rightarrow> 'p books \<Rightarrow> 'x \<Rightarrow> 'l \<Rightarrow> core_policy_file content files
     \<Rightarrow> desired_state content files \<Rightarrow> ('x, 'p, 'l) agent" where
  "new_agent c configs books x l policies states =
     \<lparr>ag_Cfg = c,
      ag_Xray = \<lparr>mg_Config = cfg_XrayConfig c, mg_LimitsFile = cfg_XrayLimitsFile c, mg_files = configs,
        mg_cmd = None, mg_clock = 0\<rparr>,
      ag_Limiter = (if cfg_StrictLimitBackendURL c = [] then None else Some (new_backend (cfg_StrictLimitBackendURL c))),
      ag_Sessions = new_tracker, ag_Metrics = new_sampler (cfg_NetworkInterface c),
      ag_stateVersion = [], ag_onlineUsers = 0, ag_trackedIPs = 0, ag_mode = ''starting'', ag_drainReady = False,
      ag_strictReady = False, ag_region = cfg_Region c, ag_group = cfg_Group c, ag_tags = cfg_Tags c,
      ag_weight = cfg_Weight c, ag_lastHB = zero_heartbeat, ag_books = books, ag_serving = x, ag_backend = l,
      ag_policies = policies, ag_states = states\<rparr>"

text \<open>An operation of the manager, seen by the agent.\<close>

definition with_manager :: "('x, 'p, 'l) sync_env \<Rightarrow> 'r \<times> manager \<Rightarrow> ('x, 'p, 'l) agent \<Rightarrow> 'r \<times> ('x, 'p, 'l) agent" where
  "with_manager e rm a =
     (fst rm, a\<lparr>ag_Xray := snd rm, ag_serving := en_settle e (ag_Xray a) (snd rm) (ag_serving a)\<rparr>)"

definition xray_running :: "('x, 'p, 'l) sync_env \<Rightarrow> ('x, 'p, 'l) agent \<Rightarrow> bool \<times> ('x, 'p, 'l) agent" where
  "xray_running e a = with_manager e (is_running (en_os e) (ag_Xray a)) a"

definition xray_stop :: "('x, 'p, 'l) sync_env \<Rightarrow> ('x, 'p, 'l) agent \<Rightarrow> ('x, 'p, 'l) agent" where
  "xray_stop e a = snd (with_manager e ((), stop_locked (en_os e) (ag_Xray a)) a)"

definition with_panel :: "'r \<times> 'p \<Rightarrow> ('x, 'p, 'l) agent \<Rightarrow> 'r \<times> ('x, 'p, 'l) agent" where
  "with_panel rp a = (fst rp, a\<lparr>ag_books := (ag_books a)\<lparr>bk_panel := snd rp\<rparr>\<rparr>)"

section \<open>The saved state\<close>

text \<open>
  What a state becomes when it is written as JSON and read again: a field with \<^verbatim>\<open>omitempty\<close> loses
  an empty map, and raw messages are indented anew.
\<close>

definition omit_empty :: "obj option \<Rightarrow> obj option" where
  "omit_empty m = (if m = Some [] then None else m)"

definition json_inbound :: "managed_inbound \<Rightarrow> managed_inbound" where
  "json_inbound i = i\<lparr>inb_Settings := omit_empty (inb_Settings i), inb_StreamSettings := omit_empty (inb_StreamSettings i),
     inb_Sniffing := omit_empty (inb_Sniffing i), inb_Metadata := omit_empty (inb_Metadata i)\<rparr>"

definition json_raw :: "(raw_message \<Rightarrow> string + raw_message) \<Rightarrow> raw_message \<Rightarrow> string + raw_message" where
  "json_raw f r = (if r = [] then Inr [] else f r)"

definition json_state :: "(raw_message \<Rightarrow> string + raw_message) \<Rightarrow> desired_state \<Rightarrow> string + desired_state" where
  "json_state f s =
     (case collect (map f (ds_Outbounds s)) of Inl err \<Rightarrow> Inl err | Inr outs \<Rightarrow>
      (case json_raw f (ds_Routing s) of Inl err \<Rightarrow> Inl err | Inr routing \<Rightarrow>
       (case json_raw f (ds_DNS s) of Inl err \<Rightarrow> Inl err | Inr dns \<Rightarrow>
        Inr (s\<lparr>ds_Inbounds := map json_inbound (ds_Inbounds s), ds_Outbounds := outs, ds_Routing := routing,
          ds_DNS := dns\<rparr>))))"

definition load_state :: "('x, 'p, 'l) sync_env \<Rightarrow> ('x, 'p, 'l) agent \<Rightarrow> desired_state option" where
  "load_state e a =
     (if en_state_unreadable e then None
      else case go_get (ag_states a) (cfg_StateFile (ag_Cfg a)) of Some (Doc s) \<Rightarrow> Some s | _ \<Rightarrow> None)"

definition persist_state ::
  "('x, 'p, 'l) sync_env \<Rightarrow> desired_state \<Rightarrow> ('x, 'p, 'l) agent \<Rightarrow> string option \<times> ('x, 'p, 'l) agent" where
  "persist_state e s a =
     (case we_fault (en_state_write e) Mkdir of
        Some err \<Rightarrow> (Some err, a)
      | None \<Rightarrow>
          (case json_state (en_reindent e) s of
             Inl err \<Rightarrow> (Some err, a)
           | Inr doc \<Rightarrow>
               (case atomic_write (en_state_write e) (cfg_StateFile (ag_Cfg a)) (Doc doc) (ag_states a) of
                  (err, tr) \<Rightarrow> (err, a\<lparr>ag_states := last tr\<rparr>))))"

section \<open>Sessions\<close>

definition session_key :: "session_record \<Rightarrow> string \<times> string" where
  "session_key r = (ses_UserID r, ses_InboundID r)"

definition merge_session_reports :: "session_record list \<Rightarrow> session_record list \<Rightarrow> session_record list" where
  "merge_session_reports exact recent =
     (let m = go_index session_key (\<lambda>r. r) recent;
          out = map (\<lambda>x. case go_get m (session_key x) of
              None \<Rightarrow> x | Some r \<Rightarrow> x\<lparr>ses_RecentConnections := ses_RecentConnections r\<rparr>) exact;
          seen = go_index session_key (\<lambda>_. ()) exact
      in sort_slice session_order (out @ filter (\<lambda>r. go_get seen (session_key r) = None) recent))"

text \<open>The sessions the policy counts and the sessions to report.\<close>

definition session_snapshot ::
  "('x, 'p, 'l) sync_env \<Rightarrow> ('x, 'p, 'l) agent \<Rightarrow> (session_record list \<times> session_record list) \<times> ('x, 'p, 'l) agent" where
  "session_snapshot e a =
     (let t = snd (consume_file (en_ptime e) (en_ip_ok e) (en_log e) (en_now e) (ag_Sessions a));
          window = i64 (cfg_IPWindowSeconds (ag_Cfg a) * second_ns)
      in case records (en_now e) window (tr_items t) of
          (rs, live) \<Rightarrow>
            let recent = map (\<lambda>r. r\<lparr>ses_Source := ''access-log''\<rparr>) rs;
                a1 = a\<lparr>ag_Sessions := t\<lparr>tr_items := live\<rparr>\<rparr>
            in case xray_running e a1 of
                (False, a2) \<Rightarrow> ((recent, recent), a2)
              | (True, a2) \<Rightarrow>
                  (case query_online_sessions (en_unmarshal e) (en_exec e) (cfg_XrayAPI (ag_Cfg a)) of
                     Inl _ \<Rightarrow> ((recent, recent), a2)
                   | Inr exact \<Rightarrow> ((exact, merge_session_reports exact recent), a2)))"

section \<open>Reports\<close>

definition report_sessions ::
  "('x, 'p, 'l) sync_env \<Rightarrow> session_record list \<Rightarrow> policy_violation list \<Rightarrow> ('x, 'p, 'l) agent \<Rightarrow> ('x, 'p, 'l) agent" where
  "report_sessions e rs vs a =
     (if \<not> cfg_ReportSessions (ag_Cfg a) then a
      else snd (with_panel (post_sessions (en_panel e) (client_of_agent a)
        \<lparr>rep_NodeID = cfg_NodeID (ag_Cfg a), rep_GeneratedAt = unix_sec (en_now e),
         rep_WindowSec = cfg_IPWindowSeconds (ag_Cfg a), rep_Records = rs, rep_Violations = vs\<rparr>
        (bk_panel (ag_books a))) a))"

definition heartbeat_of :: "('x, 'p, 'l) sync_env \<Rightarrow> bool \<Rightarrow> string \<Rightarrow> bool \<Rightarrow> metrics \<Rightarrow> bool \<Rightarrow> ('x, 'p, 'l) agent \<Rightarrow> heartbeat" where
  "heartbeat_of e healthy msg api m running a =
     \<lparr>hb_NodeID = cfg_NodeID (ag_Cfg a), hb_AgentVersion = agent_version,
      hb_XrayVersion = xray_version (en_version e),
      hb_Healthy = healthy, hb_XrayRunning = running, hb_XrayAPI = api,
      hb_CPUPercent = me_CPUPercent m, hb_MemoryBytes = me_MemoryBytes m, hb_Load1 = me_Load1 m,
      hb_NetworkRX = me_NetworkRX m, hb_NetworkTX = me_NetworkTX m,
      hb_NetworkRXBPS = me_NetworkRXBPS m, hb_NetworkTXBPS = me_NetworkTXBPS m,
      hb_OnlineUsers = int (ag_onlineUsers a), hb_TrackedIPs = int (ag_trackedIPs a),
      hb_StateVersion = ag_stateVersion a, hb_Mode = ag_mode a, hb_DrainReady = ag_drainReady a,
      hb_Region = ag_region a, hb_Group = ag_group a, hb_Tags = ag_tags a, hb_Weight = ag_weight a,
      hb_StrictLimitsReady = ag_strictReady a, hb_Message = msg\<rparr>"

definition send_heartbeat ::
  "('x, 'p, 'l) sync_env \<Rightarrow> bool \<Rightarrow> string \<Rightarrow> bool \<Rightarrow> ('x, 'p, 'l) agent \<Rightarrow> ('x, 'p, 'l) agent" where
  "send_heartbeat e healthy msg api a =
     (case health_snapshot (en_proc e) (en_heartbeat_at e) (ag_Metrics a) of
        (m, sampler) \<Rightarrow>
          (case xray_running e (a\<lparr>ag_Metrics := sampler\<rparr>) of
             (running, a1) \<Rightarrow>
               let hb = heartbeat_of e healthy msg api m running a1;
                   a2 = a1\<lparr>ag_lastHB := hb\<rparr>
               in snd (with_panel (post_heartbeat (en_panel e) (client_of_agent a2) hb (bk_panel (ag_books a2))) a2)))"

text \<open>\<^verbatim>\<open>Status\<close>, which the admin server asks.\<close>

definition agent_status :: "('x, 'p, 'l) agent \<Rightarrow> heartbeat" where
  "agent_status a = ag_lastHB a"

text \<open>
  How \<^verbatim>\<open>sync\<close> ends: it returns nil or an error, or the process panics. Most errors are reported in
  a heartbeat first.
\<close>

datatype outcome = Done | Failed string | Panicked string

definition fail ::
  "('x, 'p, 'l) sync_env \<Rightarrow> string \<Rightarrow> string \<Rightarrow> ('x, 'p, 'l) agent \<Rightarrow> outcome \<times> ('x, 'p, 'l) agent" where
  "fail e msg err a = (Failed err, send_heartbeat e False msg False a)"

section \<open>Traffic\<close>

text \<open>What a collection meets in this synchronisation.\<close>

definition collection_of :: "('x, 'p, 'l) sync_env \<Rightarrow> ('x, 'p, 'l) agent \<Rightarrow> bool \<Rightarrow> collection" where
  "collection_of e a running =
     \<lparr>co_running = running, co_stats = query_stats (en_unmarshal e) (en_exec e) (cfg_XrayAPI (ag_Cfg a)) True,
      co_event = en_event e, co_at = unix_sec (en_collect_at e), co_env = en_enqueue e, co_delete = en_delete_new e\<rparr>"

definition sync_traffic :: "('x, 'p, 'l) sync_env \<Rightarrow> ('x, 'p, 'l) agent \<Rightarrow> ('x, 'p, 'l) agent" where
  "sync_traffic e a =
     (let a1 = a\<lparr>ag_books := last (retry_traffic (en_panel e) (client_of_agent a) (en_list e) (en_delete e) (ag_books a))\<rparr>
      in case xray_running e a1 of
          (running, a2) \<Rightarrow>
            a2\<lparr>ag_books := last (snd (collect_traffic (en_panel e) (client_of_agent a) (cfg_NodeID (ag_Cfg a))
              (collection_of e a running) (ag_books a2)))\<rparr>)"

section \<open>Policy\<close>

text \<open>\<^verbatim>\<open>%q\<close> of a mode without bytes to escape.\<close>

definition validate_mode :: "string \<Rightarrow> string option" where
  "validate_mode mode =
     (if mode \<in> {[], ''active'', ''draining'', ''maintenance'', ''disabled''} then None
      else Some (''unsupported node mode '' @ CHR 0x22 # mode @ [CHR 0x22]))"

definition switched_mode :: "string \<Rightarrow> bool" where
  "switched_mode mode \<longleftrightarrow> mode = ''disabled'' \<or> mode = ''maintenance''"

definition threshold_reached :: "desired_state \<Rightarrow> bool" where
  "threshold_reached d \<longleftrightarrow>
     0 < nod_TrafficThresholdBytes (ds_Node d)
       \<and> nod_TrafficThresholdBytes (ds_Node d) \<le> nod_TrafficUsedBytes (ds_Node d)
       \<and> \<not> switched_mode (ds_Mode d)"

text \<open>The desired state with the local decisions of the agent: the threshold, and draining.\<close>

definition localize :: "desired_state option \<Rightarrow> desired_state \<Rightarrow> desired_state" where
  "localize previous d =
     (let d1 = (if threshold_reached d then d\<lparr>ds_Mode := ''draining''\<rparr> else d)
      in case previous of
          Some prev \<Rightarrow> if ds_Mode d1 = ''draining'' then apply_drain prev d1 else d1
        | None \<Rightarrow> d1)"

definition set_node_metadata :: "desired_state \<Rightarrow> ('x, 'p, 'l) agent \<Rightarrow> ('x, 'p, 'l) agent" where
  "set_node_metadata s a =
     (let n = ds_Node s; c = ag_Cfg a
      in a\<lparr>ag_mode := (if ds_Mode s = [] then ''active'' else ds_Mode s),
           ag_region := (if nod_Region n \<noteq> [] then nod_Region n else cfg_Region c),
           ag_group := (if nod_Group n \<noteq> [] then nod_Group n else cfg_Group c),
           ag_tags := (if nod_Tags n \<noteq> [] then nod_Tags n else cfg_Tags c),
           ag_weight := (if nod_Weight n > 0 then nod_Weight n else cfg_Weight c)\<rparr>)"

definition set_drain_ready :: "desired_state \<Rightarrow> ('x, 'p, 'l) agent \<Rightarrow> ('x, 'p, 'l) agent" where
  "set_drain_ready s a =
     (let target = nod_DrainTargetOnline (ds_Node s); target = (if target < 0 then 0 else target)
      in a\<lparr>ag_drainReady := (ds_Mode s = ''draining'' \<and> int (ag_onlineUsers a) \<le> target)\<rparr>)"

definition write_policy :: "('x, 'p, 'l) sync_env \<Rightarrow> desired_state \<Rightarrow> ('x, 'p, 'l) agent \<Rightarrow> string option \<times> ('x, 'p, 'l) agent" where
  "write_policy e s a =
     (case write_core_policy (en_policy_write e) (en_policy_unreadable e) (cfg_XrayLimitsFile (ag_Cfg a)) s (en_now e)
         (ag_policies a) of
        (err, tr) \<Rightarrow> (err, a\<lparr>ag_policies := last tr\<rparr>))"

definition strict_users :: "('x, 'p, 'l) sync_env \<Rightarrow> ('x, 'p, 'l) agent \<Rightarrow> string list" where
  "strict_users e a =
     (let path = cfg_XrayLimitsFile (ag_Cfg a)
      in if path = [] \<or> en_policy_lost e then []
         else strict_policy_emails (go_get (ag_policies a) path) (en_now e))"

text \<open>\<^verbatim>\<open>applyExternalLimits\<close>: every user, errors are collected.\<close>

definition external_limit ::
  "'l transport \<Rightarrow> backend \<Rightarrow> string \<Rightarrow> string list \<times> 'l \<Rightarrow> managed_inbound \<times> managed_user \<Rightarrow> string list \<times> 'l" where
  "external_limit tr b node acc iu =
     (case (if \<not> usr_Enabled (snd iu) then remove_user tr b node (inb_ID (fst iu)) (usr_ID (snd iu)) (snd acc)
            else apply_user tr b node (inb_ID (fst iu)) (usr_ID (snd iu)) (usr_Limits (snd iu)) (snd acc)) of
        (None, l) \<Rightarrow> (fst acc, l)
      | (Some err, l) \<Rightarrow>
          (fst acc @ [(if \<not> usr_Enabled (snd iu) then ''remove '' else []) @ inb_ID (fst iu) @ ''/''
              @ usr_ID (snd iu) @ '': '' @ err], l))"

definition apply_external_limits ::
  "'l transport \<Rightarrow> backend \<Rightarrow> string \<Rightarrow> desired_state \<Rightarrow> 'l \<Rightarrow> string list \<times> 'l" where
  "apply_external_limits tr b node s l = foldl (external_limit tr b node) ([], l) (all_users s)"

definition external_limits :: "('x, 'p, 'l) sync_env \<Rightarrow> desired_state \<Rightarrow> ('x, 'p, 'l) agent \<Rightarrow> ('x, 'p, 'l) agent" where
  "external_limits e s a =
     (case ag_Limiter a of
        None \<Rightarrow> a
      | Some b \<Rightarrow> a\<lparr>ag_backend := snd (apply_external_limits (en_limiter e) b (cfg_NodeID (ag_Cfg a)) s (ag_backend a))\<rparr>)"

section \<open>Bringing Xray to the configuration\<close>

text \<open>
  The hot path: validate the full configuration, run the plan, store the configuration. Each step
  only if the one before succeeded; the result is the variable \<^verbatim>\<open>err\<close> of the \<^verbatim>\<open>if\<close> statement.
\<close>

definition hot_reload ::
  "('x, 'p, 'l) sync_env \<Rightarrow> runtime_plan \<Rightarrow> string \<Rightarrow> ('x, 'p, 'l) agent \<Rightarrow> failure option \<times> ('x, 'p, 'l) agent" where
  "hot_reload e plan content a =
     (case with_manager e (validate_content (en_os e) content (ag_Xray a)) a of
        (Some err, a1) \<Rightarrow> (Some (Error err), a1)
      | (None, a1) \<Rightarrow>
          (case apply_runtime (en_run e) (en_cancelled e) plan (ag_serving a1) of
             (Some err, x) \<Rightarrow> (Some err, a1\<lparr>ag_serving := x\<rparr>)
           | (None, x) \<Rightarrow>
               (case with_manager e (store_config (en_sha e) (en_os e) content (ag_Xray a1)) (a1\<lparr>ag_serving := x\<rparr>) of
                  (Inl err, a2) \<Rightarrow> (Some (Error err), a2)
                | (Inr _, a2) \<Rightarrow> (None, a2))))"

definition force_config ::
  "('x, 'p, 'l) sync_env \<Rightarrow> string \<Rightarrow> ('x, 'p, 'l) agent \<Rightarrow> string option \<times> ('x, 'p, 'l) agent" where
  "force_config e content a = with_manager e (force_apply (en_sha e) (en_os e) content (ag_Xray a)) a"

text \<open>
  The test after the hot path reads the variable \<^verbatim>\<open>err\<close> of the function, not the one of the \<^verbatim>\<open>if\<close>
  statement: it still holds the nil that \<^verbatim>\<open>BuildConfig\<close> returned. The argument \<open>outer\<close> is that variable.
\<close>

definition hot_path ::
  "('x, 'p, 'l) sync_env \<Rightarrow> string option \<Rightarrow> runtime_plan \<Rightarrow> string \<Rightarrow> ('x, 'p, 'l) agent \<Rightarrow> string option \<times> ('x, 'p, 'l) agent" where
  "hot_path e outer plan content a =
     (case hot_reload e plan content a of
        (_, a1) \<Rightarrow> (case outer of None \<Rightarrow> (None, a1) | Some err \<Rightarrow> force_config e content a1))"

definition cold_path ::
  "('x, 'p, 'l) sync_env \<Rightarrow> string \<Rightarrow> ('x, 'p, 'l) agent \<Rightarrow> string option \<times> ('x, 'p, 'l) agent" where
  "cold_path e content a =
     (case with_manager e (apply_config (en_sha e) (en_os e) content (ag_Xray a)) a of
        (Inl err, a1) \<Rightarrow> (Some err, a1)
      | (Inr changed, a1) \<Rightarrow>
          if changed then (None, a1)
          else (case xray_running e a1 of
              (True, a2) \<Rightarrow> (None, a2)
            | (False, a2) \<Rightarrow> with_manager e (start_xray (en_os e) (ag_Xray a2)) a2))"

definition reconcile ::
  "('x, 'p, 'l) sync_env \<Rightarrow> desired_state option \<Rightarrow> desired_state \<Rightarrow> string \<Rightarrow> ('x, 'p, 'l) agent
     \<Rightarrow> string option \<times> ('x, 'p, 'l) agent" where
  "reconcile e previous s content a =
     (case xray_running e a of
        (running, a1) \<Rightarrow>
          (case previous of
             Some prev \<Rightarrow>
               if running \<and> ds_Enabled prev \<and> \<not> switched_mode (ds_Mode prev)
               then let plan = plan_runtime (en_unmarshal e) prev s
                 in if \<not> plan_RequiresRestart plan then hot_path e None plan content a1
                    else force_config e content a1
               else cold_path e content a1
           | None \<Rightarrow> cold_path e content a1))"

text \<open>The check of Xray's API, with one attempt to recover: the error, or the health.\<close>

definition api_health :: "('x, 'p, 'l) sync_env \<Rightarrow> ('x, 'p, 'l) agent \<Rightarrow> bool \<times> ('x, 'p, 'l) agent" where
  "api_health e a = with_manager e (api_healthy (en_os e) (ag_Xray a)) a"

definition check_api :: "('x, 'p, 'l) sync_env \<Rightarrow> ('x, 'p, 'l) agent \<Rightarrow> (string + bool) \<times> ('x, 'p, 'l) agent" where
  "check_api e a =
     (case api_health e a of
        (healthy, a1) \<Rightarrow>
          (case xray_running e a1 of
             (running, a2) \<Rightarrow>
               if running \<and> \<not> healthy
               then (case with_manager e (recover (en_os e) (ag_Xray a2)) a2 of
                   (Some err, a3) \<Rightarrow> (Inl err, a3)
                 | (None, a3) \<Rightarrow> (case api_health e a3 of (h, a4) \<Rightarrow> (Inr h, a4)))
               else (Inr healthy, a2)))"

section \<open>Synchronisation\<close>

definition status_message :: "bool \<Rightarrow> nat \<Rightarrow> bool \<Rightarrow> bool \<Rightarrow> string" where
  "status_message threshold blocks unpatched drained =
     (if threshold then ''traffic threshold reached; draining'' else ''ok'')
     @ (if blocks > 0 then ''; '' @ show_nat blocks @ '' policy block(s)'' else [])
     @ (if unpatched then ''; strict speed/connection core patch not detected'' else [])
     @ (if drained then ''; drain ready'' else [])"

text \<open>The end of a synchronisation that reached Xray.\<close>

definition finish_sync ::
  "('x, 'p, 'l) sync_env \<Rightarrow> desired_state \<Rightarrow> policy_violation list \<Rightarrow> bool \<Rightarrow> string list \<Rightarrow> session_record list
     \<Rightarrow> bool \<Rightarrow> ('x, 'p, 'l) agent \<Rightarrow> outcome \<times> ('x, 'p, 'l) agent" where
  "finish_sync e s vs threshold strict report api a =
     (case (if strict = [] then (True, a) else with_manager e (core_patch_ready (en_os e) (ag_Xray a)) a) of
        (ready, a1) \<Rightarrow>
          let unpatched = (strict \<noteq> [] \<and> \<not> ready);
              healthy = (api \<and> \<not> (unpatched \<and> cfg_RequirePatchedCore (ag_Cfg a)));
              msg = status_message threshold (length vs) unpatched (ag_drainReady a1);
              a2 = report_sessions e report vs (a1\<lparr>ag_strictReady := ready\<rparr>);
              a3 = snd (persist_state e s (a2\<lparr>ag_stateVersion := ds_Version s\<rparr>))
          in (Done, send_heartbeat e healthy msg api a3))"

definition sync_active ::
  "('x, 'p, 'l) sync_env \<Rightarrow> desired_state option \<Rightarrow> desired_state \<Rightarrow> policy_violation list \<Rightarrow> bool \<Rightarrow> string list
     \<Rightarrow> session_record list \<Rightarrow> ('x, 'p, 'l) agent \<Rightarrow> outcome \<times> ('x, 'p, 'l) agent" where
  "sync_active e previous s vs threshold strict report a =
     (case build_config (en_unmarshal e) s (cfg_XrayAPI (ag_Cfg a)) [cfg_XrayAccessLog (ag_Cfg a)] of
        Inl (Panic why) \<Rightarrow> (Panicked why, a)
      | Inl (Error err) \<Rightarrow> fail e err err a
      | Inr doc \<Rightarrow>
          (case en_render e doc of
             Inl err \<Rightarrow> fail e err err a
           | Inr content \<Rightarrow>
               (case reconcile e previous s content a of
                  (Some err, a1) \<Rightarrow> fail e err err a1
                | (None, a1) \<Rightarrow>
                    (case check_api e (external_limits e s a1) of
                       (Inl err, a2) \<Rightarrow> fail e (''xray recovery failed: '' @ err) err a2
                     | (Inr api, a2) \<Rightarrow> finish_sync e s vs threshold strict report api a2))))"

definition sync_stopped ::
  "('x, 'p, 'l) sync_env \<Rightarrow> desired_state \<Rightarrow> policy_violation list \<Rightarrow> string list \<Rightarrow> session_record list
     \<Rightarrow> ('x, 'p, 'l) agent \<Rightarrow> outcome \<times> ('x, 'p, 'l) agent" where
  "sync_stopped e s vs strict report a =
     (let a1 = (xray_stop e a)\<lparr>ag_strictReady := strict = [], ag_stateVersion := ds_Version s\<rparr>;
          a2 = report_sessions e report vs (snd (persist_state e s a1))
      in (Done, send_heartbeat e True (''node '' @ ds_Mode s) False a2))"

text \<open>From the panel's answer on.\<close>

definition sync_desired ::
  "('x, 'p, 'l) sync_env \<Rightarrow> desired_state option \<Rightarrow> session_record list \<Rightarrow> session_record list \<Rightarrow> usage \<Rightarrow> desired_state
     \<Rightarrow> ('x, 'p, 'l) agent \<Rightarrow> outcome \<times> ('x, 'p, 'l) agent" where
  "sync_desired e previous sessions report pending desired a =
     (case validate_mode (ds_Mode desired) of
        Some err \<Rightarrow> fail e err err a
      | None \<Rightarrow>
          let eval = evaluate (localize previous desired) sessions pending (en_now e);
              s = ev_State eval; vs = ev_Violations eval
          in (case write_policy e s (set_drain_ready s (set_node_metadata s a)) of
                (Some err, a1) \<Rightarrow> fail e (''write strict limits: '' @ err) err a1
              | (None, a1) \<Rightarrow>
                  let strict = strict_users e a1
                  in if \<not> ds_Enabled s \<or> switched_mode (ds_Mode s)
                     then sync_stopped e s vs strict report a1
                     else sync_active e previous s vs (threshold_reached desired) strict report a1))"

definition sync :: "('x, 'p, 'l) sync_env \<Rightarrow> ('x, 'p, 'l) agent \<Rightarrow> outcome \<times> ('x, 'p, 'l) agent" where
  "sync e a =
     (case session_snapshot e (sync_traffic e a) of
        ((sessions, report), a1) \<Rightarrow>
          let a2 = a1\<lparr>ag_onlineUsers := fst (counts sessions), ag_trackedIPs := snd (counts sessions)\<rparr>;
              pending = (case spool_pending_usage (en_pending e) (bk_spool (ag_books a2)) of Inl _ \<Rightarrow> [] | Inr u \<Rightarrow> u)
          in (case with_panel (fetch_desired_state (en_panel e) (client_of_agent a2) (cfg_NodeID (ag_Cfg a2))
                 (bk_panel (ag_books a2))) a2 of
               (Inl err, a3) \<Rightarrow> fail e (''panel desired-state: '' @ err) err a3
             | (Inr desired, a3) \<Rightarrow> sync_desired e (load_state e a) sessions report pending desired a3))"

section \<open>The process\<close>

text \<open>\<^verbatim>\<open>preparePaths\<close>: the directories made, and the error that ends the loop; \<open>mk\<close> is \<^verbatim>\<open>MkdirAll\<close>.\<close>

fun make_dirs :: "(string \<Rightarrow> string option) \<Rightarrow> string list \<Rightarrow> string list \<times> string option" where
  "make_dirs mk [] = ([], None)"
| "make_dirs mk (d # ds) =
     (if d = [] \<or> d = ''.'' then make_dirs mk ds
      else (case mk d of Some err \<Rightarrow> ([], Some err) | None \<Rightarrow> (case make_dirs mk ds of (made, r) \<Rightarrow> (d # made, r))))"

definition prepare_paths :: "(string \<Rightarrow> string option) \<Rightarrow> agent_config \<Rightarrow> string list \<times> string option" where
  "prepare_paths mk c =
     make_dirs mk [dir_of (cfg_XrayConfig c), dir_of (cfg_XrayAccessLog c), dir_of (cfg_XrayLimitsFile c),
       dir_of (cfg_StateFile c), cfg_TrafficSpoolDir c]"

text \<open>
  The loop of \<^verbatim>\<open>Run\<close>: synchronisations one after the other, whatever each of them returns,
  until one panics or the \<^verbatim>\<open>select\<close> takes the end of the context or the end of the admin server. Only
  the end of the context stops Xray; when both are ready, \<^verbatim>\<open>select\<close> may take either.
\<close>

datatype run_end = Context_done string | Admin_ended "string option"

fun run_agent ::
  "('x, 'p, 'l) sync_env list \<Rightarrow> run_end \<Rightarrow> ('x, 'p, 'l) sync_env \<Rightarrow> ('x, 'p, 'l) agent \<Rightarrow> outcome \<times> ('x, 'p, 'l) agent"
where
  "run_agent [] (Context_done err) final a = (Failed err, xray_stop final a)"
| "run_agent [] (Admin_ended None) final a = (Done, a)"
| "run_agent [] (Admin_ended (Some err)) final a = (Failed (''admin server: '' @ err), a)"
| "run_agent (e # es) ending final a =
     (case sync e a of (Panicked why, a') \<Rightarrow> (Panicked why, a') | (_, a') \<Rightarrow> run_agent es ending final a')"

text \<open>\<^verbatim>\<open>Run\<close>. The first synchronisation is made at once, so the list of them is not empty.\<close>

definition run_program ::
  "(string \<Rightarrow> string option) \<Rightarrow> ('x, 'p, 'l) sync_env list \<Rightarrow> run_end \<Rightarrow> ('x, 'p, 'l) sync_env \<Rightarrow> ('x, 'p, 'l) agent
     \<Rightarrow> outcome \<times> ('x, 'p, 'l) agent" where
  "run_program mk es ending final a =
     (case prepare_paths mk (ag_Cfg a) of
        (_, Some err) \<Rightarrow> (Failed err, a)
      | (_, None) \<Rightarrow> run_agent es ending final a)"

text \<open>\<^verbatim>\<open>main\<close>, after the flags: the exit of the process, from the file of the configuration on.\<close>

datatype exit = Exit_ok | Fatal string | Crashed string

definition agent_main ::
  "string + agent_config \<Rightarrow> (agent_config \<Rightarrow> outcome \<times> ('x, 'p, 'l) agent) \<Rightarrow> exit" where
  "agent_main loaded run =
     (case loaded of
        Inl err \<Rightarrow> Fatal err
      | Inr c \<Rightarrow>
          (case fst (run c) of
             Done \<Rightarrow> Exit_ok
           | Failed err \<Rightarrow> if err \<noteq> ''context canceled'' then Fatal err else Exit_ok
           | Panicked why \<Rightarrow> Crashed why))"

end
