(* ===== verification/Commands.thy ===== *)
theory Commands
  imports Reload
begin

text \<open>
  The API calls of a hot reload as the commands they are, \<^verbatim>\<open>runAPI\<close> and \<^verbatim>\<open>runAPIWithTempConfig\<close> in
  \<^verbatim>\<open>internal/xray/runtime.go\<close>. The temporary files and the xray binary are the parameter \<open>b\<close>: each is asked in the
  world it is used in, and the binary is given the file it is pointed to.
\<close>

record 'x binary =
  bn_temp :: "'x \<Rightarrow> string + string"
  bn_write :: "'x \<Rightarrow> string option"
  bn_close :: "'x \<Rightarrow> string option"
  bn_exec :: "string list \<Rightarrow> (string \<times> any) option \<Rightarrow> 'x \<Rightarrow> (string option \<times> string) \<times> 'x"

definition run_api ::
  "'x binary \<Rightarrow> string \<Rightarrow> string \<Rightarrow> string list \<Rightarrow> (string \<times> any) option \<Rightarrow> 'x \<Rightarrow> string option \<times> 'x" where
  "run_api b api action args given x =
     (case bn_exec b ([''api'', action, ''--server='' @ api] @ args) given x of
        ((Some err, out), x') \<Rightarrow> (Some (''xray '' @ action @ '': '' @ err @ '': '' @ trim_space out), x')
      | ((None, out), x') \<Rightarrow> (None, x'))"

definition run_api_with_temp_config ::
  "'x binary \<Rightarrow> string \<Rightarrow> string \<Rightarrow> any \<Rightarrow> 'x \<Rightarrow> string option \<times> 'x" where
  "run_api_with_temp_config b api action content x =
     (case bn_temp b x of
        Inl err \<Rightarrow> (Some err, x)
      | Inr name \<Rightarrow>
          (case bn_write b x of
             Some err \<Rightarrow> (Some err, x)
           | None \<Rightarrow>
               (case bn_close b x of
                  Some err \<Rightarrow> (Some err, x)
                | None \<Rightarrow> run_api b api action [name] (Some (name, content)) x)))"

text \<open>The calls of \<^verbatim>\<open>addInboundRuntime\<close>, \<^verbatim>\<open>removeInboundRuntime\<close>, \<^verbatim>\<open>addUserRuntime\<close> and \<^verbatim>\<open>removeUserRuntime\<close>.\<close>

fun run_call :: "'x binary \<Rightarrow> string \<Rightarrow> 'x api" where
  "run_call b api (Adi doc) x = run_api_with_temp_config b api ''adi'' doc x"
| "run_call b api (Rmi tag) x = run_api b api ''rmi'' [tag] None x"
| "run_call b api (Adu doc) x = run_api_with_temp_config b api ''adu'' doc x"
| "run_call b api (Rmu tag email) x = run_api b api ''rmu'' [''-tag='' @ tag, email] None x"

lemma run_api_None:
  "run_api b api action args given x = (None, x') \<longleftrightarrow>
     (\<exists>out. bn_exec b (''api'' # action # (''--server='' @ api) # args) given x = ((None, out), x'))"
  by (auto simp: run_api_def split: prod.splits option.splits)

lemma run_temp_None:
  "run_api_with_temp_config b api action doc x = (None, x') \<Longrightarrow>
     \<exists>name. run_api b api action [name] (Some (name, doc)) x = (None, x')"
  by (auto simp: run_api_with_temp_config_def split: sum.splits option.splits)

text \<open>
  The documented effect of the commands on what Xray serves: a command that exits without an error has done what it
  is named after, with the document of the file it was given.
\<close>

definition documented_commands :: "'x binary \<Rightarrow> string \<Rightarrow> ('x \<Rightarrow> serving) \<Rightarrow> bool" where
  "documented_commands b api view \<longleftrightarrow>
     (\<forall>args given out x x'. bn_exec b (''api'' # args) given x = ((None, out), x') \<longrightarrow>
        (\<forall>name m. args = [''adi'', ''--server='' @ api, name] \<longrightarrow> given = Some (name, inbound_doc m) \<longrightarrow>
           view x (tag_of m) = None \<and> view x' = (view x)(tag_of m \<mapsto> served_of m))
      \<and> (\<forall>tag. args = [''rmi'', ''--server='' @ api, tag] \<longrightarrow> plain tag \<longrightarrow>
           view x tag \<noteq> None \<and> view x' = (view x)(tag := None))
      \<and> (\<forall>name m c. args = [''adu'', ''--server='' @ api, name] \<longrightarrow> given = Some (name, inbound_doc m) \<longrightarrow> listed_users m = [c] \<longrightarrow>
           (\<exists>i us. view x (tag_of m) = Some (i, us) \<and> us (email_of c) = None
              \<and> view x' = (view x)(tag_of m \<mapsto> (i, us(email_of c \<mapsto> c)))))
      \<and> (\<forall>tag email. args = [''rmu'', ''--server='' @ api, ''-tag='' @ tag, email] \<longrightarrow> plain email \<longrightarrow>
           (\<exists>i us. view x tag = Some (i, us) \<and> us email \<noteq> None
              \<and> view x' = (view x)(tag \<mapsto> (i, us(email := None))))))"

lemma documentedD:
  assumes "documented_commands b api view" and "bn_exec b (''api'' # args) given x = ((None, out), x')"
  shows "args = [''adi'', ''--server='' @ api, name] \<Longrightarrow> given = Some (name, inbound_doc m) \<Longrightarrow>
      view x (tag_of m) = None \<and> view x' = (view x)(tag_of m \<mapsto> served_of m)"
    and "args = [''rmi'', ''--server='' @ api, tag] \<Longrightarrow> plain tag \<Longrightarrow> view x tag \<noteq> None \<and> view x' = (view x)(tag := None)"
    and "args = [''adu'', ''--server='' @ api, name] \<Longrightarrow> given = Some (name, inbound_doc m) \<Longrightarrow> listed_users m = [c] \<Longrightarrow>
      \<exists>i us. view x (tag_of m) = Some (i, us) \<and> us (email_of c) = None \<and> view x' = (view x)(tag_of m \<mapsto> (i, us(email_of c \<mapsto> c)))"
    and "args = [''rmu'', ''--server='' @ api, ''-tag='' @ tag, email] \<Longrightarrow> plain email \<Longrightarrow>
      \<exists>i us. view x tag = Some (i, us) \<and> us email \<noteq> None \<and> view x' = (view x)(tag \<mapsto> (i, us(email := None)))"
  using assms unfolding documented_commands_def by blast+

text \<open>So the command line is a handler service, and what is shown of hot reloads holds for the commands the agent runs.\<close>

lemma commands_are_handler_service:
  assumes "documented_commands b api view"
  shows "handler_service (run_call b api) view"
  unfolding handler_service_def
proof (intro conjI allI impI)
  note doc = documentedD [OF assms]
  fix m x x' assume "run_call b api (Adi (inbound_doc m)) x = (None, x')"
  then obtain name out where e: "bn_exec b [''api'', ''adi'', ''--server='' @ api, name] (Some (name, inbound_doc m)) x = ((None, out), x')"
    using run_temp_None by (fastforce simp: run_api_None)
  from doc(1) [OF e refl refl] show "view x (tag_of m) = None" and "view x' = (view x)(tag_of m \<mapsto> served_of m)" by simp_all
next
  note doc = documentedD [OF assms]
  fix t x x' assume "run_call b api (Rmi t) x = (None, x')" and t: "plain t"
  then obtain out where e: "bn_exec b [''api'', ''rmi'', ''--server='' @ api, t] None x = ((None, out), x')" by (auto simp: run_api_None)
  from doc(2) [OF e refl t] show "view x t \<noteq> None" and "view x' = (view x)(t := None)" by simp_all
next
  note doc = documentedD [OF assms]
  fix m c x x' assume "run_call b api (Adu (inbound_doc m)) x = (None, x')" and c: "listed_users m = [c]"
  then obtain name out where e: "bn_exec b [''api'', ''adu'', ''--server='' @ api, name] (Some (name, inbound_doc m)) x = ((None, out), x')"
    using run_temp_None by (fastforce simp: run_api_None)
  from doc(3) [OF e refl refl c]
  show "\<exists>i us. view x (tag_of m) = Some (i, us) \<and> us (email_of c) = None \<and> view x' = (view x)(tag_of m \<mapsto> (i, us(email_of c \<mapsto> c)))" .
next
  note doc = documentedD [OF assms]
  fix t em x x' assume "run_call b api (Rmu t em) x = (None, x')" and em: "plain em"
  then obtain out where e: "bn_exec b [''api'', ''rmu'', ''--server='' @ api, ''-tag='' @ t, em] None x = ((None, out), x')" by (auto simp: run_api_None)
  from doc(4) [OF e refl em]
  show "\<exists>i us. view x t = Some (i, us) \<and> us em \<noteq> None \<and> view x' = (view x)(t \<mapsto> (i, us(em := None)))" .
qed

end
