(* ===== verification/Operation.thy ===== *)
theory Operation
  imports Agent
begin

text \<open>
  What a synchronisation of the agent guarantees: which parts of the world each step can change,
  what an unreachable panel, a refused mode and a maintenance mode lead to, when the agent calls
  itself ready, and what becomes of a hot reload that fails.
\<close>

section \<open>What each step leaves alone\<close>

text \<open>The configuration the process was started on.\<close>

abbreviation runs :: "('x, 'p, 'l) agent \<Rightarrow> string option option" where
  "runs a \<equiv> map_option cm_config (mg_cmd (ag_Xray a))"

text \<open>The parts of an agent that decide what Xray and its core do.\<close>

definition in_force ::
  "('x, 'p, 'l) agent \<Rightarrow> (string \<times> string) \<times> string files \<times> string option option
     \<times> core_policy_file content files \<times> desired_state content files" where
  "in_force a = ((mg_Config (ag_Xray a), mg_LimitsFile (ag_Xray a)), mg_files (ag_Xray a), runs a, ag_policies a, ag_states a)"

text \<open>The fields a synchronisation sets before it reaches Xray.\<close>

definition reported :: "('x, 'p, 'l) agent \<Rightarrow> string \<times> string \<times> bool" where
  "reported a = (ag_mode a, ag_stateVersion a, ag_strictReady a)"

named_theorems frame "what a step of the agent leaves alone"

lemma with_manager_frame [frame]:
  "fst (with_manager e rm a) = fst rm" "ag_Xray (snd (with_manager e rm a)) = snd rm"
  "ag_Cfg (snd (with_manager e rm a)) = ag_Cfg a" "ag_policies (snd (with_manager e rm a)) = ag_policies a"
  "ag_states (snd (with_manager e rm a)) = ag_states a" "ag_books (snd (with_manager e rm a)) = ag_books a"
  "ag_lastHB (snd (with_manager e rm a)) = ag_lastHB a" "reported (snd (with_manager e rm a)) = reported a"
  by (simp_all add: with_manager_def reported_def)

lemma is_running_runs [frame]: "map_option cm_config (mg_cmd (snd (is_running e m))) = map_option cm_config (mg_cmd m)"
  by (simp add: is_running_def Let_def tick_def split: option.split)

lemma is_running_paths [frame]:
  "mg_Config (snd (is_running e m)) = mg_Config m" "mg_LimitsFile (snd (is_running e m)) = mg_LimitsFile m"
  using is_running_frame(2) [where e = e and m = m] by (simp_all add: same_paths_def)

lemma xray_running_frame [frame]:
  "in_force (snd (xray_running e a)) = in_force a" "reported (snd (xray_running e a)) = reported a"
  "ag_Cfg (snd (xray_running e a)) = ag_Cfg a" "ag_books (snd (xray_running e a)) = ag_books a"
  "ag_lastHB (snd (xray_running e a)) = ag_lastHB a"
  by (simp_all add: xray_running_def in_force_def frame)

lemma in_force_upd [frame]:
  "in_force (a\<lparr>ag_books := b\<rparr>) = in_force a" "in_force (a\<lparr>ag_Sessions := t\<rparr>) = in_force a"
  "in_force (a\<lparr>ag_onlineUsers := n\<rparr>) = in_force a" "in_force (a\<lparr>ag_trackedIPs := n\<rparr>) = in_force a"
  "in_force (a\<lparr>ag_Metrics := s\<rparr>) = in_force a" "in_force (a\<lparr>ag_lastHB := hb\<rparr>) = in_force a"
  "reported (a\<lparr>ag_serving := x\<rparr>) = reported a" "reported (a\<lparr>ag_backend := l\<rparr>) = reported a"
  "reported (a\<lparr>ag_books := b\<rparr>) = reported a" "reported (a\<lparr>ag_Sessions := t\<rparr>) = reported a"
  "reported (a\<lparr>ag_onlineUsers := n\<rparr>) = reported a" "reported (a\<lparr>ag_trackedIPs := n\<rparr>) = reported a"
  "reported (a\<lparr>ag_Metrics := s\<rparr>) = reported a" "reported (a\<lparr>ag_lastHB := hb\<rparr>) = reported a"
  by (simp_all add: in_force_def reported_def)

lemma with_panel_frame [frame]:
  "fst (with_panel rp a) = fst rp" "in_force (snd (with_panel rp a)) = in_force a"
  "reported (snd (with_panel rp a)) = reported a" "ag_Cfg (snd (with_panel rp a)) = ag_Cfg a"
  "ag_lastHB (snd (with_panel rp a)) = ag_lastHB a" "ag_Xray (snd (with_panel rp a)) = ag_Xray a"
  by (simp_all add: with_panel_def frame)

text \<open>A heartbeat shows what it was sent with, and the state of the agent at that moment.\<close>

lemma send_heartbeat_frame [frame]:
  "in_force (send_heartbeat e h msg api a) = in_force a" "reported (send_heartbeat e h msg api a) = reported a"
  "ag_Cfg (send_heartbeat e h msg api a) = ag_Cfg a"
  by (simp_all add: send_heartbeat_def Let_def frame case_prod_unfold)

lemma send_heartbeat_shows:
  "hb_Healthy (ag_lastHB (send_heartbeat e h msg api a)) = h"
  "hb_XrayAPI (ag_lastHB (send_heartbeat e h msg api a)) = api"
  "hb_Message (ag_lastHB (send_heartbeat e h msg api a)) = msg"
  "hb_Mode (ag_lastHB (send_heartbeat e h msg api a)) = ag_mode (send_heartbeat e h msg api a)"
  "hb_StateVersion (ag_lastHB (send_heartbeat e h msg api a)) = ag_stateVersion (send_heartbeat e h msg api a)"
  "hb_StrictLimitsReady (ag_lastHB (send_heartbeat e h msg api a)) = ag_strictReady (send_heartbeat e h msg api a)"
  "hb_XrayRunning (ag_lastHB (send_heartbeat e h msg api a)) \<longleftrightarrow>
     (\<exists>c. mg_cmd (ag_Xray (send_heartbeat e h msg api a)) = Some c \<and> cm_alive c)"
  by (auto simp: send_heartbeat_def Let_def case_prod_unfold with_panel_def heartbeat_of_def xray_running_def
      with_manager_def is_running_def split: option.splits)

lemma sync_traffic_frame [frame]:
  "in_force (sync_traffic e a) = in_force a" "reported (sync_traffic e a) = reported a" "ag_Cfg (sync_traffic e a) = ag_Cfg a"
  by (simp_all add: sync_traffic_def Let_def frame case_prod_unfold)

lemma session_snapshot_frame [frame]:
  "in_force (snd (session_snapshot e a)) = in_force a" "reported (snd (session_snapshot e a)) = reported a"
  "ag_Cfg (snd (session_snapshot e a)) = ag_Cfg a" "ag_books (snd (session_snapshot e a)) = ag_books a"
  by (simp_all add: session_snapshot_def Let_def frame case_prod_unfold split: bool.split sum.split)

lemma client_of_agent_frame: "ag_Cfg a = ag_Cfg b \<Longrightarrow> client_of_agent a = client_of_agent b"
  by (simp add: client_of_agent_def)

lemma fail_frame [frame]:
  "in_force (snd (fail e msg err a)) = in_force a" "reported (snd (fail e msg err a)) = reported a"
  "fst (fail e msg err a) = Failed err" "hb_Healthy (ag_lastHB (snd (fail e msg err a))) = False"
  by (simp_all add: fail_def frame send_heartbeat_shows)

text \<open>A synchronisation fails for want of an answer, or comes down to \<open>sync_desired\<close>.\<close>

lemma sync_cases:
  obtains (failed) msg err b where "sync e a = fail e msg err b"
      and "in_force b = in_force a" and "reported b = reported a"
      and "\<exists>p. fst (fetch_desired_state (en_panel e) (client_of_agent a) (cfg_NodeID (ag_Cfg a)) p) = Inl err"
      and "ag_Cfg b = ag_Cfg a"
  | (answered) ss rs u d b where "sync e a = sync_desired e (load_state e a) ss rs u d b"
      and "in_force b = in_force a" and "reported b = reported a" and "ag_Cfg b = ag_Cfg a"
      and "\<exists>p. fst (fetch_desired_state (en_panel e) (client_of_agent a) (cfg_NodeID (ag_Cfg a)) p) = Inr d"
proof -
  obtain ss rs a1 where snap: "session_snapshot e (sync_traffic e a) = ((ss, rs), a1)"
    by (metis prod.exhaust)
  have a1: "in_force a1 = in_force a" "reported a1 = reported a" "ag_Cfg a1 = ag_Cfg a"
    using session_snapshot_frame [of e "sync_traffic e a"] by (simp_all add: snap frame)
  let ?a2 = "a1\<lparr>ag_onlineUsers := fst (counts ss), ag_trackedIPs := snd (counts ss)\<rparr>"
  let ?fetch = "fetch_desired_state (en_panel e) (client_of_agent a) (cfg_NodeID (ag_Cfg a)) (bk_panel (ag_books a1))"
  have client: "client_of_agent ?a2 = client_of_agent a" by (rule client_of_agent_frame) (simp add: a1)
  obtain x a3 where ans: "with_panel ?fetch ?a2 = (x, a3)" by (rule prod.exhaust)
  have x: "x = fst ?fetch" and a3: "in_force a3 = in_force a" "reported a3 = reported a" "ag_Cfg a3 = ag_Cfg a"
    using with_panel_frame [of ?fetch ?a2] a1 by (simp_all add: ans frame)
  note sync = sync_def [of e a] snap Let_def client a1(3) ans
  show ?thesis
  proof (cases x)
    case (Inl err)
    show ?thesis
      by (rule failed [of "''panel desired-state: '' @ err" err a3])
        (use Inl x a3 in \<open>auto simp: sync intro: exI [of _ "bk_panel (ag_books a1)"]\<close>)
  next
    case (Inr d)
    show ?thesis
      by (rule answered [of ss rs _ d a3])
        (use Inr x a3 in \<open>auto simp: sync intro: exI [of _ "bk_panel (ag_books a1)"]\<close>)
  qed
qed

section \<open>A panel that does not answer\<close>

text \<open>
  Claim C6. While the panel is unreachable, or answers with an error, with something that is not a
  desired state or with an unknown mode, nothing in force changes: the files of Xray, the
  configuration it was started on, the core policy and the saved state stay, and so do the mode and the version the agent reports. The
  synchronisation fails, and the agent reports itself unhealthy, so \<^verbatim>\<open>/healthz\<close> and \<^verbatim>\<open>/readyz\<close> answer 503.
\<close>

theorem panel_outage_changes_nothing:
  assumes "\<And>p d. fst (fetch_desired_state (en_panel e) (client_of_agent a) (cfg_NodeID (ag_Cfg a)) p) = Inr d
      \<Longrightarrow> validate_mode (ds_Mode d) \<noteq> None"
  shows "in_force (snd (sync e a)) = in_force a \<and> reported (snd (sync e a)) = reported a
    \<and> (\<exists>err. fst (sync e a) = Failed err) \<and> fst (healthz (agent_status (snd (sync e a)))) = 503
    \<and> fst (readyz (agent_status (snd (sync e a)))) = 503"
proof -
  have "\<exists>msg err b. sync e a = fail e msg err b \<and> in_force b = in_force a \<and> reported b = reported a"
  proof (cases rule: sync_cases [of e a])
    case (failed msg err b)
    then show ?thesis by (intro exI conjI)
  next
    case (answered ss rs u d b)
    with assms obtain err where "validate_mode (ds_Mode d) = Some err" by blast
    then have "sync e a = fail e err err b" by (simp add: answered(1) sync_desired_def)
    with answered(2,3) show ?thesis by (intro exI conjI)
  qed
  then show ?thesis
    by (auto simp: frame healthz_def readyz_def agent_status_def Let_def)
qed

text \<open>A panel that is down, for the witness: nothing was ever started, the state file holds a state.\<close>

definition down_env :: "('x, traffic_batch set, unit) sync_env" where
  "down_env = \<lparr>en_os = ex_os, en_sha = (\<lambda>s. s), en_unmarshal = (\<lambda>_. Inl ''eof''), en_render = (\<lambda>_. Inr []),
     en_reindent = Inr, en_panel = demo_panel True, en_run = (\<lambda>_ x. (None, x)), en_cancelled = (\<lambda>_. False),
     en_settle = (\<lambda>_ _ x. x), en_exec = (\<lambda>_. Inl ''connection refused''), en_version = Inl ''not found'', en_log = NoFile,
     en_ptime = (\<lambda>_. None), en_ip_ok = (\<lambda>_. False), en_now = unix_time 1000, en_list = no_faults,
     en_delete = (\<lambda>_. None), en_event = ''01'', en_collect_at = unix_time 1000, en_enqueue = ex_env,
     en_delete_new = None, en_pending = no_faults, en_policy_unreadable = False,
     en_policy_write = \<lparr>we_temp = ''t'', we_partial = Junk [], we_fault = (\<lambda>_. None)\<rparr>, en_policy_lost = False,
     en_state_unreadable = False, en_state_write = \<lparr>we_temp = ''t'', we_partial = Junk [], we_fault = (\<lambda>_. None)\<rparr>,
     en_limiter = (\<lambda>_ x. (Inl [], x)),
     en_proc = \<lparr>pf_loadavg = Inl [], pf_meminfo = Inl [], pf_stat = Inl [], pf_netdev = Inl [], pf_float = (\<lambda>_. 0)\<rparr>,
     en_heartbeat_at = unix_time 1000\<rparr>"

definition idle_agent :: "(unit, traffic_batch set, unit) agent" where
  "idle_agent = new_agent (ex_loaded\<lparr>cfg_XrayConfig := ''x'', cfg_XrayLimitsFile := ''l'', cfg_StateFile := ''s''\<rparr>)
     [(''x'', ''c1'')] \<lparr>bk_spool = None, bk_panel = {}\<rparr> () () [] [(''s'', Doc zero_state)]"

theorem panel_outage_changes_nothing_witness:
  "in_force (snd (sync down_env idle_agent)) = in_force idle_agent
     \<and> fst (readyz (agent_status (snd (sync down_env idle_agent)))) = 503"
proof -
  have "\<exists>err. fst (fetch_desired_state (en_panel down_env) (client_of_agent idle_agent) (cfg_NodeID (ag_Cfg idle_agent)) p) = Inl err"
    for p by (simp add: fetch_desired_state_def panel_do_def down_env_def demo_panel_def)
  then show ?thesis using panel_outage_changes_nothing [of down_env idle_agent] by (metis sum.distinct(1))
qed

section \<open>A node that is switched off\<close>

lemma report_sessions_frame [frame]:
  "in_force (report_sessions e rs vs a) = in_force a" "reported (report_sessions e rs vs a) = reported a"
  "ag_Cfg (report_sessions e rs vs a) = ag_Cfg a" "ag_Xray (report_sessions e rs vs a) = ag_Xray a"
  by (simp_all add: report_sessions_def frame)

lemma persist_state_frame [frame]:
  "ag_Xray (snd (persist_state e s a)) = ag_Xray a" "ag_policies (snd (persist_state e s a)) = ag_policies a"
  "reported (snd (persist_state e s a)) = reported a" "ag_Cfg (snd (persist_state e s a)) = ag_Cfg a"
  by (simp_all add: persist_state_def reported_def case_prod_unfold split: option.split sum.split)

lemma is_running_none: "mg_cmd m = None \<Longrightarrow> is_running e m = (False, m)"
  by (simp add: is_running_def)

lemma send_heartbeat_none:
  assumes "mg_cmd (ag_Xray a) = None"
  shows "mg_cmd (ag_Xray (send_heartbeat e h msg api a)) = None"
    and "hb_XrayRunning (ag_lastHB (send_heartbeat e h msg api a)) = False"
proof -
  have "runs (send_heartbeat e h msg api a) = runs a"
    using send_heartbeat_frame(1) [of e h msg api a] by (simp add: in_force_def)
  with assms show "mg_cmd (ag_Xray (send_heartbeat e h msg api a)) = None" by simp
  then show "hb_XrayRunning (ag_lastHB (send_heartbeat e h msg api a)) = False"
    by (simp add: send_heartbeat_shows)
qed

lemma set_metadata_frame [frame]:
  "ag_Xray (set_node_metadata s a) = ag_Xray a" "ag_Xray (set_drain_ready s a) = ag_Xray a"
  "ag_Cfg (set_node_metadata s a) = ag_Cfg a" "ag_Cfg (set_drain_ready s a) = ag_Cfg a"
  "ag_mode (set_drain_ready s a) = ag_mode a" "ag_mode (set_node_metadata s a) = (if ds_Mode s = [] then ''active'' else ds_Mode s)"
  by (simp_all add: set_node_metadata_def set_drain_ready_def Let_def)

lemma write_policy_frame [frame]:
  "ag_Xray (snd (write_policy e s a)) = ag_Xray a" "ag_states (snd (write_policy e s a)) = ag_states a"
  "reported (snd (write_policy e s a)) = reported a" "ag_Cfg (snd (write_policy e s a)) = ag_Cfg a"
  by (simp_all add: write_policy_def reported_def case_prod_unfold)

lemma sync_stopped_effect:
  shows "mg_cmd (ag_Xray (snd (sync_stopped e s vs strict rs a))) = None"
    and "fst (sync_stopped e s vs strict rs a) = Done"
    and "hb_XrayRunning (ag_lastHB (snd (sync_stopped e s vs strict rs a))) = False"
    and "hb_Healthy (ag_lastHB (snd (sync_stopped e s vs strict rs a)))"
    and "ag_stateVersion (snd (sync_stopped e s vs strict rs a)) = ds_Version s"
proof -
  let ?a1 = "(xray_stop e a)\<lparr>ag_strictReady := strict = [], ag_stateVersion := ds_Version s\<rparr>"
  let ?a2 = "report_sessions e rs vs (snd (persist_state e s ?a1))"
  have eq: "sync_stopped e s vs strict rs a = (Done, send_heartbeat e True (''node '' @ ds_Mode s) False ?a2)"
    by (simp add: sync_stopped_def Let_def)
  have none: "mg_cmd (ag_Xray ?a2) = None"
    by (simp add: frame xray_stop_def)
  from send_heartbeat_none [OF this]
  show "mg_cmd (ag_Xray (snd (sync_stopped e s vs strict rs a))) = None"
    and "hb_XrayRunning (ag_lastHB (snd (sync_stopped e s vs strict rs a))) = False"
    by (simp_all add: eq)
  show "fst (sync_stopped e s vs strict rs a) = Done" by (simp add: eq)
  show "hb_Healthy (ag_lastHB (snd (sync_stopped e s vs strict rs a)))" by (simp add: eq send_heartbeat_shows)
  have "reported (send_heartbeat e True (''node '' @ ds_Mode s) False ?a2) = reported ?a1"
    by (simp add: frame)
  then show "ag_stateVersion (snd (sync_stopped e s vs strict rs a)) = ds_Version s"
    by (simp add: eq reported_def)
qed

text \<open>The local decisions and the evaluation keep what switches a node off.\<close>

lemma localize_keeps:
  "ds_Enabled (localize prev d) = ds_Enabled d" "ds_Version (localize prev d) = ds_Version d"
  "switched_mode (ds_Mode d) \<Longrightarrow> ds_Mode (localize prev d) = ds_Mode d"
  "ds_Node (localize prev d) = ds_Node d"
  by (auto simp: localize_def Let_def apply_drain_def threshold_reached_def switched_mode_def split: option.split)

lemma evaluate_keeps:
  "ds_Enabled (ev_State (evaluate d ss u now)) = ds_Enabled d" "ds_Version (ev_State (evaluate d ss u now)) = ds_Version d"
  "ds_Mode (ev_State (evaluate d ss u now)) = ds_Mode d" "ds_Node (ev_State (evaluate d ss u now)) = ds_Node d"
  by (simp_all add: evaluate_def Let_def)

lemma write_policy_ok: "(\<And>st. we_fault (en_policy_write e) st = None) \<Longrightarrow> fst (write_policy e s a) = None"
  by (simp add: write_policy_def write_core_policy_def case_prod_unfold atomic_write_ok)

text \<open>
  Claim C7. A node that the panel switches off stops. When the panel answers with a state that is
  not enabled, or whose mode is disabled or maintenance, and the policy file can be written, the
  synchronisation succeeds, no Xray process is left, the version is taken over, and the agent is
  healthy but not ready.
\<close>

theorem switched_off_node_stops:
  assumes "\<And>p. \<exists>d. fst (fetch_desired_state (en_panel e) (client_of_agent a) (cfg_NodeID (ag_Cfg a)) p) = Inr d
      \<and> (validate_mode (ds_Mode d) = None \<and> (\<not> ds_Enabled d \<or> switched_mode (ds_Mode d)) \<and> ds_Version d = v)"
    and "\<And>st. we_fault (en_policy_write e) st = None"
  shows "fst (sync e a) = Done \<and> mg_cmd (ag_Xray (snd (sync e a))) = None \<and> ag_stateVersion (snd (sync e a)) = v
    \<and> fst (healthz (agent_status (snd (sync e a)))) = 200 \<and> fst (readyz (agent_status (snd (sync e a)))) = 503"
proof -
  obtain ss rs u d b where
    sync: "sync e a = sync_desired e (load_state e a) ss rs u d b" and mode: "validate_mode (ds_Mode d) = None"
    and off: "\<not> ds_Enabled d \<or> switched_mode (ds_Mode d)" and v: "ds_Version d = v"
  proof (rule sync_cases [of e a])
    fix msg err b assume "\<exists>p. fst (fetch_desired_state (en_panel e) (client_of_agent a) (cfg_NodeID (ag_Cfg a)) p) = Inl err"
    with assms(1) show ?thesis by (metis sum.distinct(1))
  next
    fix ss rs u d b
    assume "sync e a = sync_desired e (load_state e a) ss rs u d b"
      and "\<exists>p. fst (fetch_desired_state (en_panel e) (client_of_agent a) (cfg_NodeID (ag_Cfg a)) p) = Inr d"
    with assms(1) that show ?thesis by (metis sum.inject(2))
  qed
  let ?s = "ev_State (evaluate (localize (load_state e a) d) ss u (en_now e))"
  have "\<not> ds_Enabled ?s \<or> switched_mode (ds_Mode ?s)" and "ds_Version ?s = v"
    using off localize_keeps [where prev = "load_state e a" and d = d] by (auto simp: evaluate_keeps v)
  then obtain vs strict a1 where "sync e a = sync_stopped e ?s vs strict rs a1" and "ds_Version ?s = v"
    using write_policy_ok [OF assms(2)] by (simp add: sync sync_desired_def mode Let_def case_prod_unfold)
  with sync_stopped_effect [of e ?s vs strict rs a1] show ?thesis
    by (simp add: healthz_def readyz_def agent_status_def Let_def)
qed

text \<open>A panel that answers with a given state.\<close>

definition answer_env :: "desired_state \<Rightarrow> ('x, traffic_batch set, unit) sync_env" where
  "answer_env d = down_env\<lparr>en_panel := (demo_panel False)\<lparr>pe_decode := \<lambda>_. Inr d\<rparr>\<rparr>"

lemma answer_env_fetch:
  "fst (fetch_desired_state (en_panel (answer_env d)) c n p) = Inr d"
  by (simp add: fetch_desired_state_def panel_do_def answer_env_def down_env_def demo_panel_def success_def)

theorem switched_off_node_stops_witness:
  "fst (sync (answer_env (zero_state\<lparr>ds_Mode := ''maintenance'', ds_Version := ''7''\<rparr>)) idle_agent) = Done
     \<and> mg_cmd (ag_Xray (snd (sync (answer_env (zero_state\<lparr>ds_Mode := ''maintenance'', ds_Version := ''7''\<rparr>)) idle_agent))) = None"
proof -
  let ?d = "zero_state\<lparr>ds_Mode := ''maintenance'', ds_Version := ''7''\<rparr>"
  have "\<exists>d. fst (fetch_desired_state (en_panel (answer_env ?d)) (client_of_agent idle_agent) (cfg_NodeID (ag_Cfg idle_agent)) p) = Inr d
      \<and> (validate_mode (ds_Mode d) = None \<and> (\<not> ds_Enabled d \<or> switched_mode (ds_Mode d)) \<and> ds_Version d = ''7'')" for p
    unfolding answer_env_fetch by (intro exI conjI, rule refl) (simp_all add: validate_mode_def switched_mode_def)
  moreover have "we_fault (en_policy_write (answer_env ?d)) st = None" for st
    by (simp add: answer_env_def down_env_def)
  ultimately show ?thesis using switched_off_node_stops [of "answer_env ?d" idle_agent "''7''"] by blast
qed

section \<open>When the agent is ready\<close>

lemma hot_path_frame [frame]:
  "ag_Cfg (snd (hot_path e outer plan c a)) = ag_Cfg a" "reported (snd (hot_path e outer plan c a)) = reported a"
  by (simp_all add: hot_path_def hot_reload_def force_config_def case_prod_unfold frame
      split: option.split sum.split)

lemma cold_path_frame [frame]:
  "ag_Cfg (snd (cold_path e c a)) = ag_Cfg a" "reported (snd (cold_path e c a)) = reported a"
  by (simp_all add: cold_path_def case_prod_unfold frame split: option.split sum.split bool.split)

lemma reconcile_frame [frame]:
  "ag_Cfg (snd (reconcile e prev s c a)) = ag_Cfg a" "reported (snd (reconcile e prev s c a)) = reported a"
  by (simp_all add: reconcile_def Let_def case_prod_unfold frame force_config_def split: option.split)

lemma external_limits_frame [frame]:
  "ag_Cfg (external_limits e s a) = ag_Cfg a" "reported (external_limits e s a) = reported a" "in_force (external_limits e s a) = in_force a"
  "ag_Xray (external_limits e s a) = ag_Xray a"
  by (simp_all add: external_limits_def in_force_def reported_def split: option.split)

lemma check_api_frame [frame]:
  "ag_Cfg (snd (check_api e a)) = ag_Cfg a" "reported (snd (check_api e a)) = reported a"
  by (simp_all add: check_api_def api_health_def case_prod_unfold frame split: option.split)

text \<open>The ways a synchronisation can end.\<close>

lemma sync_active_ends:
  "(\<exists>msg err b. sync_active e prev s vs th strict rs a = fail e msg err b)
   \<or> (\<exists>why. fst (sync_active e prev s vs th strict rs a) = Panicked why)
   \<or> (\<exists>api b. sync_active e prev s vs th strict rs a = finish_sync e s vs th strict rs api b \<and> ag_Cfg b = ag_Cfg a)"
proof (cases "build_config (en_unmarshal e) s (cfg_XrayAPI (ag_Cfg a)) [cfg_XrayAccessLog (ag_Cfg a)]")
  case (Inl f)
  then show ?thesis by (cases f) (auto simp: sync_active_def)
next
  case (Inr doc)
  show ?thesis
  proof (cases "en_render e doc")
    case (Inr content)
    obtain r a1 where rec: "reconcile e prev s content a = (r, a1)" by (rule prod.exhaust)
    obtain q a2 where chk: "check_api e (external_limits e s a1) = (q, a2)" by (rule prod.exhaust)
    have "ag_Cfg a2 = ag_Cfg a"
      using reconcile_frame [of e prev s content a] check_api_frame [of e "external_limits e s a1"] rec chk
      by (simp add: frame)
    then show ?thesis
      using Inr \<open>build_config _ _ _ _ = _\<close> rec chk
      by (cases r; cases q) (auto simp: sync_active_def)
  qed (use Inr in \<open>auto simp: sync_active_def\<close>)
qed

lemma failsI: "x = fail e m r b \<Longrightarrow> \<exists>msg err b'. x = fail e msg err b'"
  by (intro exI)

lemma sync_desired_ends:
  "(\<exists>msg err b'. sync_desired e prev ss rs u d b = fail e msg err b')
   \<or> (\<exists>why. fst (sync_desired e prev ss rs u d b) = Panicked why)
   \<or> (\<exists>s vs strict rs' b'. sync_desired e prev ss rs u d b = sync_stopped e s vs strict rs' b')
   \<or> (\<exists>s vs th strict rs' api b'. sync_desired e prev ss rs u d b = finish_sync e s vs th strict rs' api b'
        \<and> ag_Cfg b' = ag_Cfg b)"
proof (cases "validate_mode (ds_Mode d)")
  case None
  let ?s = "ev_State (evaluate (localize prev d) ss u (en_now e))"
  let ?vs = "ev_Violations (evaluate (localize prev d) ss u (en_now e))"
  obtain r b1 where w: "write_policy e ?s (set_drain_ready ?s (set_node_metadata ?s b)) = (r, b1)" by (rule prod.exhaust)
  have "ag_Cfg b1 = ag_Cfg b"
    using write_policy_frame(4) [of e ?s "set_drain_ready ?s (set_node_metadata ?s b)"] w by (simp add: frame)
  show ?thesis
  proof (cases r)
    case None
    have eq: "sync_desired e prev ss rs u d b = (if \<not> ds_Enabled ?s \<or> switched_mode (ds_Mode ?s)
        then sync_stopped e ?s ?vs (strict_users e b1) rs b1
        else sync_active e prev ?s ?vs (threshold_reached d) (strict_users e b1) rs b1)"
      using None w \<open>validate_mode _ = _\<close> by (simp add: sync_desired_def Let_def)
    show ?thesis
    proof (cases "\<not> ds_Enabled ?s \<or> switched_mode (ds_Mode ?s)")
      case True
      with eq have "sync_desired e prev ss rs u d b = sync_stopped e ?s ?vs (strict_users e b1) rs b1" by simp
      then show ?thesis by blast
    next
      case False
      with eq have "sync_desired e prev ss rs u d b
        = sync_active e prev ?s ?vs (threshold_reached d) (strict_users e b1) rs b1" by simp
      with sync_active_ends [of e prev ?s ?vs "threshold_reached d" "strict_users e b1" rs b1] \<open>ag_Cfg b1 = _\<close>
      show ?thesis by metis
    qed
  next
    case (Some err)
    with None w show ?thesis by (intro disjI1) (rule failsI, simp add: sync_desired_def Let_def)
  qed
next
  case (Some err)
  then show ?thesis by (intro disjI1) (rule failsI, simp add: sync_desired_def)
qed

lemma finish_sync_shows:
  "fst (finish_sync e s vs th strict rs api b) = Done"
  "hb_XrayAPI (ag_lastHB (snd (finish_sync e s vs th strict rs api b))) = api"
  "hb_Healthy (ag_lastHB (snd (finish_sync e s vs th strict rs api b))) \<longleftrightarrow>
     api \<and> (cfg_RequirePatchedCore (ag_Cfg b) \<longrightarrow> hb_StrictLimitsReady (ag_lastHB (snd (finish_sync e s vs th strict rs api b))))"
  "ag_stateVersion (snd (finish_sync e s vs th strict rs api b)) = ds_Version s"
  "ag_mode (snd (finish_sync e s vs th strict rs api b)) = ag_mode b"
proof -
  obtain ready a1 where r: "(if strict = [] then (True, b) else with_manager e (core_patch_ready (en_os e) (ag_Xray b)) b) = (ready, a1)"
    by (rule prod.exhaust)
  let ?a3 = "snd (persist_state e s ((report_sessions e rs vs (a1\<lparr>ag_strictReady := ready\<rparr>))\<lparr>ag_stateVersion := ds_Version s\<rparr>))"
  have rep: "reported ?a3 = (ag_mode a1, ds_Version s, ready)"
    using report_sessions_frame(2) [of e rs vs "a1\<lparr>ag_strictReady := ready\<rparr>"]
    unfolding persist_state_frame(3) by (simp add: reported_def)
  let ?un = "strict \<noteq> [] \<and> \<not> ready"
  let ?h = "api \<and> \<not> (?un \<and> cfg_RequirePatchedCore (ag_Cfg b))"
  let ?msg = "status_message th (length vs) ?un (ag_drainReady a1)"
  have eq: "finish_sync e s vs th strict rs api b = (Done, send_heartbeat e ?h ?msg api ?a3)"
    by (simp only: finish_sync_def r Let_def prod.case)
  have "reported (send_heartbeat e ?h ?msg api ?a3) = (ag_mode a1, ds_Version s, ready)"
    unfolding send_heartbeat_frame(2) by (rule rep)
  moreover have "strict = [] \<Longrightarrow> ready" using r by simp
  moreover have "reported a1 = reported b"
    using r with_manager_frame(8) [of e "core_patch_ready (en_os e) (ag_Xray b)" b] by (auto split: if_splits)
  ultimately show
    "fst (finish_sync e s vs th strict rs api b) = Done"
    "hb_XrayAPI (ag_lastHB (snd (finish_sync e s vs th strict rs api b))) = api"
    "hb_Healthy (ag_lastHB (snd (finish_sync e s vs th strict rs api b))) \<longleftrightarrow>
      api \<and> (cfg_RequirePatchedCore (ag_Cfg b) \<longrightarrow> hb_StrictLimitsReady (ag_lastHB (snd (finish_sync e s vs th strict rs api b))))"
    "ag_stateVersion (snd (finish_sync e s vs th strict rs api b)) = ds_Version s"
    "ag_mode (snd (finish_sync e s vs th strict rs api b)) = ag_mode b"
    by (auto simp: eq send_heartbeat_shows reported_def)
qed


section \<open>A node comes up\<close>

text \<open>A machine on which nothing fails.\<close>

definition healthy_os :: "os_env \<Rightarrow> bool" where
  "healthy_os e \<longleftrightarrow> writes_ok e \<and> (\<forall>n. \<not> os_dies e n \<and> os_start e n = None \<and> os_candidate e n = None
     \<and> (\<forall>c. os_test e n c = None)
     \<and> (case os_api e n of None \<Rightarrow> False | Some out \<Rightarrow> out \<noteq> []))"

text \<open>Xray runs the configuration on disk, which is \<open>c\<close>.\<close>

definition up :: "string \<Rightarrow> manager \<Rightarrow> bool" where
  "up c m \<longleftrightarrow> mg_cmd m = Some \<lparr>cm_config = Some c, cm_alive = True\<rparr> \<and> cfg m = Some c"

lemma healthy_running: "healthy_os e \<Longrightarrow> up c m \<Longrightarrow> fst (is_running e m) \<and> up c (snd (is_running e m))"
  by (simp add: healthy_os_def up_def is_running_def Let_def tick_def)

lemma healthy_api: "healthy_os e \<Longrightarrow> up c m \<Longrightarrow> fst (api_healthy e m) \<and> up c (snd (api_healthy e m))"
  using healthy_running [of e c m]
  by (simp add: api_healthy_def up_def tick_def case_prod_unfold) (simp add: healthy_os_def)

lemma healthy_core_patch: "up c m \<Longrightarrow> up c (snd (core_patch_ready e m))"
  by (simp add: core_patch_ready_def up_def tick_def)

lemma healthy_start: "healthy_os e \<Longrightarrow> fst (start_locked e m) = None"
  by (auto simp: start_locked_def Let_def healthy_os_def is_running_def tick_def split: option.splits)

lemma healthy_restart: "healthy_os e \<Longrightarrow> fst (restart_locked e m) = None"
  by (simp add: restart_locked_def healthy_start)

lemma healthy_validate: "healthy_os e \<Longrightarrow> fst (validate_content e c m) = None"
  by (simp add: validate_content_def validate_def healthy_os_def)

lemma healthy_switch: "healthy_os e \<Longrightarrow> fst (switch_config e c m) = None"
  by (auto simp: switch_config_def case_prod_unfold healthy_restart write_config_def write_file_ok healthy_os_def
      split: option.split)

text \<open>On such a machine, an agent without a process brings Xray up on the wanted configuration.\<close>

lemma healthy_apply:
  assumes "healthy_os e" and "names_apart e m" and "apply_config sha e c m = (r, m')"
  shows "r = Inr True \<and> up c m' \<or> r = Inr False \<and> m' = m \<and> (\<exists>c'. sha c' = sha c \<and> cfg m = Some c')"
proof (cases "same_config sha c m")
  case True
  then show ?thesis using assms(3) by (auto simp: apply_config_def same_config_def split: option.splits)
next
  case False
  let ?m = "back_up_old (\<lambda>_. True) e (snd (validate_content e c m))"
  have v: "validate_content e c m = (None, snd (validate_content e c m))"
    using healthy_validate [OF assms(1)] by (metis prod.collapse)
  have s: "switch_config e c ?m = (None, snd (switch_config e c ?m))"
    using healthy_switch [OF assms(1)] by (metis prod.collapse)
  have "r = Inr True \<and> m' = snd (switch_config e c ?m)"
    using assms(3) False v s by (auto simp: apply_config_def split: prod.splits option.splits)
  with switch_success(1,2) [OF prepared(1) [OF assms(2)] s] show ?thesis by (simp add: up_def)
qed

lemma healthy_start_up:
  assumes "healthy_os e" and "names_apart e m" and "mg_cmd m = None" and "cfg m = Some c"
  shows "fst (start_xray e m) = None \<and> up c (snd (start_xray e m))"
proof -
  obtain m' where s: "start_locked e m = (None, m')"
    using healthy_start [OF assms(1), of m] by (metis prod.collapse)
  have "marker_path m \<noteq> mg_Config m" using assms(2) by (simp add: names_apart_def)
  from start_locked_runs [OF s this] start_locked_frame [of "mg_Config m" m e] this assms(4)
  have "up c m'" by (auto simp: up_def s same_paths_def)
  with s show ?thesis using assms(3) by (simp add: start_xray_def is_running_none)
qed

lemma with_manager_up:
  "up c (snd rm) \<Longrightarrow> up c (ag_Xray (snd (with_manager e rm a)))"
  by (simp add: frame)

lemma healthy_reconcile:
  assumes "healthy_os (en_os e)" and "names_apart (en_os e) (ag_Xray a)" and "mg_cmd (ag_Xray a) = None"
  shows "\<exists>c. fst (reconcile e prev s content a) = None \<and> en_sha e c = en_sha e content
    \<and> up c (ag_Xray (snd (reconcile e prev s content a)))"
proof -
  have run: "xray_running e a' = (False, snd (xray_running e a')) \<and> ag_Xray (snd (xray_running e a')) = ag_Xray a'"
    if "mg_cmd (ag_Xray a') = None" for a' :: "('a, 'b, 'c) agent"
    using that by (simp add: xray_running_def is_running_none with_manager_def)
  let ?a = "snd (xray_running e a)"
  have rec: "reconcile e prev s content a = cold_path e content ?a"
    using run [OF assms(3)] by (auto simp: reconcile_def split: option.split prod.split)
  obtain r m' where app: "apply_config (en_sha e) (en_os e) content (ag_Xray a) = (r, m')" by (rule prod.exhaust)
  let ?b = "snd (with_manager e (r, m') ?a)"
  have cold: "cold_path e content ?a = (case r of Inl err \<Rightarrow> (Some err, ?b) | Inr changed \<Rightarrow>
      if changed then (None, ?b)
      else (case xray_running e ?b of (True, a2) \<Rightarrow> (None, a2)
        | (False, a2) \<Rightarrow> with_manager e (start_xray (en_os e) (ag_Xray a2)) a2))"
    using run [OF assms(3)] by (simp add: cold_path_def app case_prod_unfold frame split: sum.split)
  from healthy_apply [OF assms(1,2) app] show ?thesis
  proof (elim disjE conjE exE)
    assume "r = Inr True" and "up content m'"
    then show ?thesis unfolding rec cold by (intro exI [of _ content]) (simp add: frame)
  next
    fix c' assume r: "r = Inr False" and m: "m' = ag_Xray a" and c: "en_sha e c' = en_sha e content" "cfg (ag_Xray a) = Some c'"
    have "mg_cmd (ag_Xray ?b) = None" using m assms(3) by (simp add: frame)
    from run [OF this] obtain b2 where b2: "xray_running e ?b = (False, b2)" "ag_Xray b2 = ag_Xray a"
      by (simp add: m frame) (metis prod.collapse)
    from healthy_start_up [OF assms(1,2,3) c(2)] b2 c(1) show ?thesis
      unfolding rec cold by (intro exI [of _ c']) (simp add: r frame)
  qed
qed

lemma up_running:
  assumes "healthy_os (en_os e)" and "up c (ag_Xray a)"
  shows "fst (xray_running e a) \<and> up c (ag_Xray (snd (xray_running e a)))"
  using healthy_running [OF assms] by (simp add: xray_running_def frame)

lemma up_check_api:
  assumes "healthy_os (en_os e)" and "up c (ag_Xray a)"
  shows "fst (check_api e a) = Inr True \<and> up c (ag_Xray (snd (check_api e a)))"
proof -
  obtain h a1 where h: "api_health e a = (h, a1)" by (rule prod.exhaust)
  have a1: "h" "up c (ag_Xray a1)"
    using healthy_api [OF assms] h by (auto simp: api_health_def with_manager_def)
  with up_running [OF assms(1) a1(2)] show ?thesis by (simp add: check_api_def h case_prod_unfold)
qed

lemma up_heartbeat:
  assumes "healthy_os (en_os e)" and "up c (ag_Xray a)"
  shows "up c (ag_Xray (send_heartbeat e h msg api a))"
  using healthy_running [OF assms]
  by (simp add: send_heartbeat_def Let_def case_prod_unfold xray_running_def with_manager_def with_panel_def)

lemma up_finish:
  assumes "healthy_os (en_os e)" and "up c (ag_Xray b)"
  shows "up c (ag_Xray (snd (finish_sync e s vs th strict rs api b)))"
    and "hb_XrayRunning (ag_lastHB (snd (finish_sync e s vs th strict rs api b)))"
    and "hb_Mode (ag_lastHB (snd (finish_sync e s vs th strict rs api b))) = ag_mode b"
proof -
  obtain ready a1 where r: "(if strict = [] then (True, b) else with_manager e (core_patch_ready (en_os e) (ag_Xray b)) b) = (ready, a1)"
    by (rule prod.exhaust)
  have a1: "up c (ag_Xray a1)"
    using r assms(2) healthy_core_patch [OF assms(2), of "en_os e"] by (auto simp: with_manager_def split: if_splits)
  obtain h msg a3 where eq: "snd (finish_sync e s vs th strict rs api b) = send_heartbeat e h msg api a3"
    and a3: "ag_Xray a3 = ag_Xray a1"
    by (simp add: finish_sync_def r Let_def frame)
  from up_heartbeat [OF assms(1), of c a3] a1 a3
  show "up c (ag_Xray (snd (finish_sync e s vs th strict rs api b)))" by (simp add: eq)
  then show "hb_XrayRunning (ag_lastHB (snd (finish_sync e s vs th strict rs api b)))"
    by (simp add: eq send_heartbeat_shows up_def)
  show "hb_Mode (ag_lastHB (snd (finish_sync e s vs th strict rs api b))) = ag_mode b"
    using finish_sync_shows(5) [of e s vs th strict rs api b] by (simp add: eq send_heartbeat_shows)
qed

text \<open>The state a synchronisation works towards.\<close>

definition effective_state ::
  "('x, 'p, 'l) sync_env \<Rightarrow> ('x, 'p, 'l) agent \<Rightarrow> desired_state \<Rightarrow> session_record list \<Rightarrow> usage \<Rightarrow> desired_state" where
  "effective_state e a d ss u = ev_State (evaluate (localize (load_state e a) d) ss u (en_now e))"

lemma wanted_active:
  assumes "ds_Enabled d" and "\<not> switched_mode (ds_Mode d)"
  shows "ds_Enabled (ev_State (evaluate (localize prev d) ss u now)) \<and> \<not> switched_mode (ds_Mode (ev_State (evaluate (localize prev d) ss u now)))"
  using assms localize_keeps(1) [of prev d]
  by (simp add: evaluate_keeps) (auto simp: localize_def Let_def apply_drain_frame switched_mode_def split: option.split)

lemma desired_active:
  assumes "validate_mode (ds_Mode d) = None" and "ds_Enabled d" and "\<not> switched_mode (ds_Mode d)"
    and "\<And>st. we_fault (en_policy_write e) st = None"
  defines "v \<equiv> \<lambda>prev ss u. evaluate (localize prev d) ss u (en_now e)"
  shows "sync_desired e prev ss rs u d b =
    (let s = ev_State (v prev ss u); b1 = snd (write_policy e s (set_drain_ready s (set_node_metadata s b)))
     in sync_active e prev s (ev_Violations (v prev ss u)) (threshold_reached d) (strict_users e b1) rs b1)"
proof -
  let ?s = "ev_State (v prev ss u)"
  obtain b1 where w: "write_policy e ?s (set_drain_ready ?s (set_node_metadata ?s b)) = (None, b1)"
    using write_policy_ok [OF assms(4)] by (metis prod.collapse)
  from wanted_active [OF assms(2,3), of prev ss u "en_now e"] w assms(1) show ?thesis
    by (simp add: sync_desired_def Let_def v_def)
qed

lemma active_sync:
  assumes "sync e a = sync_desired e (load_state e a) ss rs u d b" and "in_force b = in_force a" and "ag_Cfg b = ag_Cfg a"
    and "validate_mode (ds_Mode d) = None" and "ds_Enabled d" and "\<not> switched_mode (ds_Mode d)"
    and "\<And>st. we_fault (en_policy_write e) st = None"
  obtains vs strict b1 where "sync e a = sync_active e (load_state e a) (effective_state e a d ss u) vs (threshold_reached d) strict rs b1"
    and "ag_Cfg b1 = ag_Cfg a" and "same_paths (ag_Xray a) (ag_Xray b1)" and "runs b1 = runs a"
    and "mg_files (ag_Xray b1) = mg_files (ag_Xray a)" and "\<not> switched_mode (ag_mode b1)"
proof -
  let ?s = "effective_state e a d ss u"
  let ?vs = "ev_Violations (evaluate (localize (load_state e a) d) ss u (en_now e))"
  let ?b0 = "set_drain_ready ?s (set_node_metadata ?s b)"
  obtain b1 where w: "write_policy e ?s ?b0 = (None, b1)"
    using write_policy_ok [OF assms(7), of ?s ?b0] by (metis prod.collapse)
  have mode: "ds_Enabled ?s \<and> \<not> switched_mode (ds_Mode ?s)"
    unfolding effective_state_def by (rule wanted_active [OF assms(5,6)])
  have "sync e a = sync_active e (load_state e a) ?s ?vs (threshold_reached d) (strict_users e b1) rs b1"
    using desired_active [OF assms(4-7), of "load_state e a" ss rs u b] w by (simp add: assms(1) effective_state_def)
  moreover have "ag_Cfg b1 = ag_Cfg a" and x: "ag_Xray b1 = ag_Xray b" and "reported b1 = reported ?b0"
    using write_policy_frame [of e ?s ?b0] assms(3) by (simp_all add: w frame)
  moreover have "ag_mode ?b0 = (if ds_Mode ?s = [] then ''active'' else ds_Mode ?s)"
    by (simp add: frame)
  ultimately show ?thesis
    using mode assms(2) by (intro that [of ?vs "strict_users e b1" b1]) (auto simp: reported_def switched_mode_def in_force_def same_paths_def)
qed

lemma sync_comes_up:
  assumes "\<And>p. fst (fetch_desired_state (en_panel e) (client_of_agent a) (cfg_NodeID (ag_Cfg a)) p) = Inr d"
    and "validate_mode (ds_Mode d) = None" and "ds_Enabled d" and "\<not> switched_mode (ds_Mode d)"
    and "\<And>ss u. \<exists>doc. build_config (en_unmarshal e) (effective_state e a d ss u) (cfg_XrayAPI (ag_Cfg a))
        [cfg_XrayAccessLog (ag_Cfg a)] = Inr doc \<and> \<not> isl (en_render e doc)"
    and "healthy_os (en_os e)" and "names_apart (en_os e) (ag_Xray a)" and "mg_cmd (ag_Xray a) = None"
    and "\<And>st. we_fault (en_policy_write e) st = None" and "\<not> cfg_RequirePatchedCore (ag_Cfg a)"
  shows "\<exists>ss u doc content c.
      build_config (en_unmarshal e) (effective_state e a d ss u) (cfg_XrayAPI (ag_Cfg a)) [cfg_XrayAccessLog (ag_Cfg a)] = Inr doc
    \<and> en_render e doc = Inr content \<and> en_sha e c = en_sha e content \<and> up c (ag_Xray (snd (sync e a)))
    \<and> fst (sync e a) = Done \<and> fst (readyz (agent_status (snd (sync e a)))) = 200"
proof -
  obtain ss rs u b where sync: "sync e a = sync_desired e (load_state e a) ss rs u d b"
    and b: "in_force b = in_force a" "ag_Cfg b = ag_Cfg a"
    using assms(1) by (cases rule: sync_cases [of e a]) auto
  from active_sync [OF sync b assms(2-4,9)] obtain vs strict b1 where
    act: "sync e a = sync_active e (load_state e a) (effective_state e a d ss u) vs (threshold_reached d) strict rs b1"
    and b1: "ag_Cfg b1 = ag_Cfg a" "same_paths (ag_Xray a) (ag_Xray b1)" "runs b1 = runs a" "\<not> switched_mode (ag_mode b1)"
    by metis
  obtain doc content where cfgs: "build_config (en_unmarshal e) (effective_state e a d ss u) (cfg_XrayAPI (ag_Cfg a))
      [cfg_XrayAccessLog (ag_Cfg a)] = Inr doc" "en_render e doc = Inr content"
    using assms(5) [of ss u] by (metis sum.collapse(2))
  let ?rec = "reconcile e (load_state e a) (effective_state e a d ss u) content b1"
  have none: "mg_cmd (ag_Xray b1) = None" using b1(3) assms(8) by simp
  have "names_apart (en_os e) (ag_Xray b1)" using same_pathsD(4) [OF b1(2)] assms(7) by simp
  from healthy_reconcile [OF assms(6) this none] obtain c where
    rec: "fst ?rec = None" "en_sha e c = en_sha e content" "up c (ag_Xray (snd ?rec))" by blast
  let ?chk = "check_api e (external_limits e (effective_state e a d ss u) (snd ?rec))"
  have chk: "fst ?chk = Inr True" "up c (ag_Xray (snd ?chk))"
    using up_check_api [OF assms(6), of c "external_limits e (effective_state e a d ss u) (snd ?rec)"] rec(3)
    by (simp_all add: frame)
  have fin: "sync e a = finish_sync e (effective_state e a d ss u) vs (threshold_reached d) strict rs True (snd ?chk)"
    using cfgs rec(1) chk(1) b1(1) by (simp add: act sync_active_def case_prod_unfold)
  have kept: "reported (snd ?chk) = reported b1" "ag_Cfg (snd ?chk) = ag_Cfg a" by (simp_all add: frame b1(1))
  note shows_ = finish_sync_shows [of e "effective_state e a d ss u" vs "threshold_reached d" strict rs True "snd ?chk"]
  note up_ = up_finish [OF assms(6) chk(2), of "effective_state e a d ss u" vs "threshold_reached d" strict rs True]
  have "fst (readyz (agent_status (snd (sync e a)))) = 200"
    using shows_(2,3) up_(2,3) kept b1(4) assms(10)
    by (simp add: fin readyz_def agent_status_def switched_mode_def reported_def)
  moreover have "up c (ag_Xray (snd (sync e a)))" and "fst (sync e a) = Done"
    using up_(1) shows_(1) by (simp_all add: fin)
  ultimately show ?thesis
    using cfgs rec(2)
    by (intro exI [of _ ss] exI [of _ u] exI [of _ doc] exI [of _ content] exI [of _ c] conjI)
qed

text \<open>
  Claim C3. A node comes up in one synchronisation. When the agent has no Xray process yet, the
  machine and the policy file cause no fault, the panel asks for an active node and the configuration can be built, then the
  synchronisation succeeds, Xray runs a configuration with the content that was asked for (by its
  hash), which is the one on disk, and the agent is ready, unless a patched core is required.
\<close>

theorem node_comes_up:
  assumes "\<And>p. fst (fetch_desired_state (en_panel e) (client_of_agent a) (cfg_NodeID (ag_Cfg a)) p) = Inr d"
    and "validate_mode (ds_Mode d) = None" and "ds_Enabled d" and "\<not> switched_mode (ds_Mode d)"
    and "\<And>ss u. \<exists>doc. build_config (en_unmarshal e) (effective_state e a d ss u) (cfg_XrayAPI (ag_Cfg a))
        [cfg_XrayAccessLog (ag_Cfg a)] = Inr doc \<and> \<not> isl (en_render e doc)"
    and "healthy_os (en_os e)" and "names_apart (en_os e) (ag_Xray a)" and "mg_cmd (ag_Xray a) = None"
    and "\<And>st. we_fault (en_policy_write e) st = None" and "\<not> cfg_RequirePatchedCore (ag_Cfg a)"
  shows "\<exists>ss u doc content c.
      build_config (en_unmarshal e) (effective_state e a d ss u) (cfg_XrayAPI (ag_Cfg a)) [cfg_XrayAccessLog (ag_Cfg a)] = Inr doc
    \<and> en_render e doc = Inr content \<and> en_sha e c = en_sha e content \<and> up c (ag_Xray (snd (sync e a)))
    \<and> fst (sync e a) = Done \<and> fst (readyz (agent_status (snd (sync e a)))) = 200"
  using assms by (rule sync_comes_up)

text \<open>An agent without a process, and a panel that asks for an enabled node without inbounds.\<close>

definition ready_state :: desired_state where
  "ready_state = zero_state\<lparr>ds_Enabled := True, ds_Version := ''8''\<rparr>"

lemma ready_state_simps:
  "ds_Enabled ready_state" "ds_Mode ready_state = []" "ds_Inbounds ready_state = []" "ds_Outbounds ready_state = []"
  "ds_Routing ready_state = []" "ds_DNS ready_state = []" "\<not> threshold_reached ready_state"
  "clone_state ready_state = ready_state" "ready_state\<lparr>ds_Inbounds := []\<rparr> = ready_state"
  by (simp_all add: ready_state_def zero_state_def zero_node_def threshold_reached_def clone_state_def)

definition ready_env :: "(unit, traffic_batch set, unit) sync_env" where
  "ready_env = (answer_env ready_state)
     \<lparr>en_os := ex_os\<lparr>os_api := \<lambda>_. Some ''stats''\<rparr>, en_render := \<lambda>_. Inr ''c2''\<rparr>"

lemma ready_env_simps:
  "en_os ready_env = ex_os\<lparr>os_api := \<lambda>_. Some ''stats''\<rparr>" "en_sha ready_env = (\<lambda>s. s)"
  "en_unmarshal ready_env = (\<lambda>_. Inl ''eof'')" "en_render ready_env = (\<lambda>_. Inr ''c2'')"
  "en_panel ready_env = (demo_panel False)\<lparr>pe_decode := \<lambda>_. Inr ready_state\<rparr>"
  "en_settle ready_env = (\<lambda>_ _ x. x)" "en_log ready_env = NoFile" "en_list ready_env = no_faults"
  "en_policy_unreadable ready_env = False" "en_policy_lost ready_env = False" "en_now ready_env = unix_time 1000"
  "en_policy_write ready_env = \<lparr>we_temp = ''t'', we_partial = Junk [], we_fault = (\<lambda>_. None)\<rparr>"
  by (simp_all add: ready_env_def answer_env_def down_env_def)

lemma idle_agent_simps:
  "ag_Xray idle_agent = \<lparr>mg_Config = ''x'', mg_LimitsFile = ''l'', mg_files = [(''x'', ''c1'')], mg_cmd = None, mg_clock = 0\<rparr>"
  "ag_books idle_agent = \<lparr>bk_spool = None, bk_panel = {}\<rparr>" "ag_Sessions idle_agent = new_tracker"
  "ag_policies idle_agent = []" "cfg_XrayLimitsFile (ag_Cfg idle_agent) = ''l''" "ag_Limiter idle_agent = None"
  "cfg_RequirePatchedCore (ag_Cfg idle_agent) = False"
  by (simp_all add: idle_agent_def new_agent_def ex_loaded_def default_defs ex_config_def)

lemma ready_fetch:
  "fst (fetch_desired_state (en_panel ready_env) c n p) = Inr ready_state"
  by (simp add: fetch_desired_state_def panel_do_def ready_env_simps demo_panel_def success_def ready_state_def)

lemma ready_os: "healthy_os (en_os ready_env)" "names_apart (en_os ready_env) (ag_Xray idle_agent)"
  by (simp_all add: healthy_os_def writes_ok_def ready_env_simps ex_os_def idle_agent_simps names_apart_def
      backup_path_def marker_path_def)

lemma ready_effective: "effective_state ready_env idle_agent ready_state ss u = ready_state"
  by (simp add: effective_state_def evaluate_def localize_def ready_state_simps Let_def split: option.split)

lemma ready_builds:
  "\<exists>doc. build_config (en_unmarshal ready_env) (effective_state ready_env idle_agent ready_state ss u) api logs = Inr doc
     \<and> \<not> isl (en_render ready_env doc)"
  by (simp add: ready_effective ready_env_simps build_config_def build_inbounds_def build_outbounds_def build_routing_def
      ready_state_simps Let_def managed_rules_def)
lemma ready_comes_up:
  "fst (sync ready_env idle_agent) = Done" "fst (readyz (agent_status (snd (sync ready_env idle_agent)))) = 200"
proof -
  from sync_comes_up [of ready_env idle_agent, OF ready_fetch _ _ _ ready_builds ready_os]
  show "fst (sync ready_env idle_agent) = Done" "fst (readyz (agent_status (snd (sync ready_env idle_agent)))) = 200"
    by (auto simp: ready_state_simps validate_mode_def switched_mode_def idle_agent_simps ready_env_simps)
qed

theorem node_comes_up_witness:
  "\<exists>c. up c (ag_Xray (snd (sync ready_env idle_agent)))"
proof -
  from node_comes_up [of ready_env idle_agent, OF ready_fetch _ _ _ ready_builds ready_os]
  show ?thesis
    by (auto simp: ready_state_simps validate_mode_def switched_mode_def idle_agent_simps ready_env_simps)
qed


end
