(* ===== verification/Limiter.thy ===== *)
theory Limiter
  imports CorePolicy Health
begin

text \<open>
  The limiter inside the patched Xray core, \<^verbatim>\<open>patches/xray-v26.7.28/xnode_limiter.go.txt\<close>: reading the
  policy file that the agent writes, admitting and releasing connections, and the leaky bucket
  that paces a user. Every function is split at its critical sections, which run under one mutex;
  \<open>limiter_run\<close> lets any number of connections interleave them.

  \<^verbatim>\<open>xnodePolicy\<close> has the JSON fields of \<^verbatim>\<open>CorePolicy\<close> and is the same record.
\<close>

section \<open>State\<close>

type_synonym xnode_policy = core_policy

record xnode_policy_file =
  xf_Version :: int
  xf_Mode :: string
  xf_Users :: "(string, core_policy) gomap option"

text \<open>A bucket is the time its next transfer may end.\<close>

type_synonym xnode_bucket = gotime

record xnode_limiter =
  xl_path :: string
  xl_checkedAt :: gotime
  xl_mtime :: gotime
  xl_mode :: string
  xl_policies :: "(string, core_policy) gomap"
  xl_connections :: "(string, int) gomap"
  xl_ips :: "(string, (string, int) gomap) gomap"
  xl_buckets :: "(string, xnode_bucket) gomap"

definition start_limiter :: xnode_limiter where
  "start_limiter = \<lparr>xl_path = [], xl_checkedAt = zero_time, xl_mtime = zero_time, xl_mode = [], xl_policies = [],
     xl_connections = [], xl_ips = [], xl_buckets = []\<rparr>"

text \<open>
  The initialization of the package, by which a patched core makes itself known: the marker next to the policy
  file. \<open>ok\<close> tells whether it could be written.
\<close>

definition xnode_init :: "bool \<Rightarrow> string \<Rightarrow> string files \<Rightarrow> string files" where
  "xnode_init ok path fs =
     (if path \<noteq> [] \<and> ok then go_put (path @ ''.core-ready'') (''xnode-limiter-v1'' @ [CHR 0x0A]) fs else fs)"

definition zero_policy :: core_policy where
  "zero_policy = \<lparr>cp_UploadBPS = 0, cp_DownloadBPS = 0, cp_ConnectionLimit = 0, cp_IPLimit = 0, cp_Blocked = False,
     cp_TombstoneUntil = 0, cp_SessionGeneration = 0\<rparr>"

section \<open>Reading the policy file\<close>

text \<open>
  What one refresh meets: the time, the environment variable, the modification time (or none, where
  \<^verbatim>\<open>Stat\<close> fails), and what \<^verbatim>\<open>ReadFile\<close> and the decoder make of the file.
\<close>

record reading =
  rd_now :: gotime
  rd_path :: string
  rd_mtime :: "gotime option"
  rd_file :: "xnode_policy_file content option"

definition xnode_refresh :: "reading \<Rightarrow> xnode_limiter \<Rightarrow> xnode_limiter" where
  "xnode_refresh r s =
     (if time_sub (rd_now r) (xl_checkedAt s) < second_ns then s
      else
        let s = s\<lparr>xl_checkedAt := rd_now r\<rparr>
        in if rd_path r = []
           then s\<lparr>xl_policies := [], xl_mode := ''active'', xl_path := [], xl_mtime := zero_time\<rparr>
           else (case rd_mtime r of
               None \<Rightarrow> s\<lparr>xl_policies := [], xl_mode := ''active''\<rparr>
             | Some t \<Rightarrow>
                 if rd_path r = xl_path s \<and> t = xl_mtime s then s
                 else (case rd_file r of
                     Some (Doc d) \<Rightarrow>
                       if xf_Version d \<noteq> 1 then s
                       else (case xf_Users d of
                           None \<Rightarrow> s
                         | Some us \<Rightarrow>
                             s\<lparr>xl_path := rd_path r, xl_mtime := t,
                               xl_mode := (if xf_Mode d = [] then ''active'' else xf_Mode d), xl_policies := us\<rparr>)
                   | _ \<Rightarrow> s)))"

definition xnode_mode :: "reading \<Rightarrow> xnode_limiter \<Rightarrow> string \<times> xnode_limiter" where
  "xnode_mode r s =
     (let s = xnode_refresh r s in (if xl_mode s = [] then ''active'' else xl_mode s, s))"

text \<open>\<open>later\<close> is the time the tombstone is compared with.\<close>

definition xnode_policy_for :: "reading \<Rightarrow> gotime \<Rightarrow> string \<Rightarrow> xnode_limiter \<Rightarrow> core_policy \<times> xnode_limiter" where
  "xnode_policy_for r later email s =
     (let s = xnode_refresh r s;
          p = (case go_get (xl_policies s) email of None \<Rightarrow> zero_policy | Some p \<Rightarrow> p)
      in (if 0 < cp_TombstoneUntil p \<and> cp_TombstoneUntil p \<le> unix_sec later then zero_policy else p, s))"

section \<open>Admission\<close>

text \<open>What a connection knows of its inbound: the email of its user, and its source where that is valid.\<close>

record session_inbound =
  si_User :: "string option"
  si_Source :: "string option"

definition xnode_email :: "session_inbound option \<Rightarrow> string" where
  "xnode_email ctx =
     (case ctx of None \<Rightarrow> [] | Some i \<Rightarrow> (case si_User i of None \<Rightarrow> [] | Some email \<Rightarrow> email))"

definition xnode_source_ip :: "session_inbound option \<Rightarrow> string" where
  "xnode_source_ip ctx =
     (case ctx of None \<Rightarrow> [] | Some i \<Rightarrow> (case si_Source i of None \<Rightarrow> [] | Some ip \<Rightarrow> ip))"

text \<open>The critical section of \<^verbatim>\<open>xnodeAdmit\<close>; \<open>ip\<close> is empty where the source is unknown.\<close>

definition xnode_enter :: "core_policy \<Rightarrow> string \<Rightarrow> string \<Rightarrow> xnode_limiter \<Rightarrow> string option \<times> xnode_limiter" where
  "xnode_enter p email ip s =
     (let active = go_num (xl_connections s) email
      in if 0 < cp_ConnectionLimit p \<and> cp_ConnectionLimit p \<le> active
         then (Some (''xnode: connection limit exceeded for '' @ email), s)
         else if ip = [] then (None, s\<lparr>xl_connections := go_put email (i64 (active + 1)) (xl_connections s)\<rparr>)
         else
           let refs = (case go_get (xl_ips s) email of None \<Rightarrow> [] | Some m \<Rightarrow> m);
               s = s\<lparr>xl_ips := go_put email refs (xl_ips s)\<rparr>
           in if 0 < cp_IPLimit p \<and> go_num refs ip = 0 \<and> cp_IPLimit p \<le> int (length refs)
              then (Some (''xnode: IP limit exceeded for '' @ email), s)
              else (None, s\<lparr>xl_ips := go_put email (go_put ip (i64 (go_num refs ip + 1)) refs) (xl_ips s),
                xl_connections := go_put email (i64 (active + 1)) (xl_connections s)\<rparr>))"

definition xnode_admit ::
  "reading \<Rightarrow> reading \<Rightarrow> gotime \<Rightarrow> session_inbound option \<Rightarrow> xnode_limiter \<Rightarrow> string option \<times> xnode_limiter" where
  "xnode_admit r1 r2 later ctx s =
     (case xnode_mode r1 s of
        (mode, s) \<Rightarrow>
          if mode = ''draining'' then (Some ''xnode: node is draining'', s)
          else
            let email = xnode_email ctx
            in if email = [] then (None, s)
               else
                 let ip = xnode_source_ip ctx
                 in (case xnode_policy_for r2 later email s of
                     (p, s) \<Rightarrow>
                       if cp_Blocked p then (Some (''xnode: user blocked: '' @ email), s)
                       else xnode_enter p email ip s))"

text \<open>A counter goes down by one, and its entry with it when it ends.\<close>

definition count_down :: "'k::linorder \<Rightarrow> ('k, int) gomap \<Rightarrow> ('k, int) gomap" where
  "count_down k m = (let n = go_num m k in if n \<le> 1 then go_delete k m else go_put k (n - 1) m)"

text \<open>The end of an admitted connection, the function registered with \<^verbatim>\<open>context.AfterFunc\<close>.\<close>

definition xnode_release :: "string \<Rightarrow> string \<Rightarrow> xnode_limiter \<Rightarrow> xnode_limiter" where
  "xnode_release email ip s =
     (let s = s\<lparr>xl_connections := count_down email (xl_connections s)\<rparr>
      in if ip = [] then s
         else (case go_get (xl_ips s) email of
             None \<Rightarrow> s
           | Some m \<Rightarrow>
               let m = count_down ip m
               in s\<lparr>xl_ips := (if m = [] then go_delete email (xl_ips s) else go_put email m (xl_ips s))\<rparr>))"

section \<open>Pacing\<close>

text \<open>The time a transfer of \<open>n\<close> bytes takes at \<open>rate\<close>, in nanoseconds.\<close>

definition xnode_duration :: "int64 \<Rightarrow> int64 \<Rightarrow> int64" where
  "xnode_duration n rate =
     (let d = float_to_int64 (fl (fl (fl (of_int n) / fl (of_int rate)) * of_int second_ns))
      in if d < 0 then 0 else d)"

definition xnode_reserve :: "gotime \<Rightarrow> int64 \<Rightarrow> int64 \<Rightarrow> gotime \<Rightarrow> gotime" where
  "xnode_reserve now n rate free = (if free < now then now else free) + xnode_duration n rate"

definition bucket_key :: "string \<Rightarrow> bool \<Rightarrow> string" where
  "bucket_key email downlink = email @ '':'' @ (if downlink then ''down'' else ''up'')"

text \<open>
  What one call of \<^verbatim>\<open>xnodeWait\<close> meets: the refresh, the clock at its other readings, and the error of a
  context that ends before the deadline.
\<close>

record waiting =
  wt_reading :: reading
  wt_check :: gotime
  wt_now :: gotime
  wt_until :: gotime
  wt_cancelled :: "gotime \<Rightarrow> string option"

definition xnode_wait ::
  "waiting \<Rightarrow> string \<Rightarrow> int64 \<Rightarrow> bool \<Rightarrow> int64 \<Rightarrow> xnode_limiter \<Rightarrow> string option \<times> xnode_limiter" where
  "xnode_wait w email generation downlink n s =
     (if n \<le> 0 \<or> email = [] then (None, s)
      else (case xnode_policy_for (wt_reading w) (wt_check w) email s of
          (p, s) \<Rightarrow>
            if cp_Blocked p then (Some (''xnode: user blocked: '' @ email), s)
            else if cp_SessionGeneration p \<noteq> generation
            then (Some (''xnode: session generation changed for '' @ email), s)
            else if 0 < cp_ConnectionLimit p \<and> cp_ConnectionLimit p < go_num (xl_connections s) email
            then (Some (''xnode: active connection count exceeds limit for '' @ email), s)
            else
              let rate = (if downlink then cp_DownloadBPS p else cp_UploadBPS p);
                  key = bucket_key email downlink
              in if rate \<le> 0 then (None, s)
                 else
                   let free = (case go_get (xl_buckets s) key of None \<Rightarrow> zero_time | Some t \<Rightarrow> t);
                       deadline = xnode_reserve (wt_now w) n rate free;
                       s = s\<lparr>xl_buckets := go_put key deadline (xl_buckets s)\<rparr>
                   in (if deadline \<le> wt_until w then None else wt_cancelled w deadline, s)))"

text \<open>A link that \<^verbatim>\<open>xnodeWrapGeneratedLinks\<close> wraps keeps the session generation of that moment.\<close>

record rate_link =
  rl_email :: string
  rl_generation :: int64
  rl_downlink :: bool

definition xnode_wrap ::
  "reading \<Rightarrow> gotime \<Rightarrow> session_inbound option \<Rightarrow> xnode_limiter \<Rightarrow> (rate_link \<times> rate_link) option \<times> xnode_limiter" where
  "xnode_wrap r later ctx s =
     (let email = xnode_email ctx
      in if email = [] then (None, s)
      else (case xnode_policy_for r later email s of
          (p, s) \<Rightarrow>
            (Some (\<lparr>rl_email = email, rl_generation = cp_SessionGeneration p, rl_downlink = False\<rparr>,
               \<lparr>rl_email = email, rl_generation = cp_SessionGeneration p, rl_downlink = True\<rparr>), s)))"

text \<open>\<^verbatim>\<open>WriteMultiBuffer\<close> of a wrapped link; \<open>out\<close> is the writer below.\<close>

definition xnode_write ::
  "waiting \<Rightarrow> (int64 \<Rightarrow> 'o \<Rightarrow> string option \<times> 'o) \<Rightarrow> rate_link \<Rightarrow> int64 \<Rightarrow> xnode_limiter \<times> 'o
     \<Rightarrow> string option \<times> xnode_limiter \<times> 'o" where
  "xnode_write w out l n so =
     (case xnode_wait w (rl_email l) (rl_generation l) (rl_downlink l) n (fst so) of
        (Some err, s) \<Rightarrow> (Some err, s, snd so)
      | (None, s) \<Rightarrow> (case out n (snd so) of (err, o') \<Rightarrow> (err, s, o')))"

text \<open>
  The reader of a provided link: what was read is not passed on where the wait fails. \<open>inp\<close> is the reader below, which
  yields a buffer (none, or bytes) and an error.
\<close>

record rate_reader =
  rr_email :: string
  rr_generation :: int64

definition xnode_read ::
  "waiting \<Rightarrow> ('o \<Rightarrow> (string option \<times> string option) \<times> 'o) \<Rightarrow> rate_reader \<Rightarrow> xnode_limiter \<times> 'o
     \<Rightarrow> (string option \<times> string option) \<times> xnode_limiter \<times> 'o" where
  "xnode_read w inp r so =
     (case inp (snd so) of
        ((mb, err), o') \<Rightarrow>
          (case mb of
             None \<Rightarrow> ((mb, err), fst so, o')
           | Some bytes \<Rightarrow>
               if bytes = [] then ((mb, err), fst so, o')
               else (case xnode_wait w (rr_email r) (rr_generation r) False (int (length bytes)) (fst so) of
                   (Some werr, s) \<Rightarrow> ((None, Some werr), s, o')
                 | (None, s) \<Rightarrow> ((mb, err), s, o'))))"

definition xnode_wrap_provided ::
  "reading \<Rightarrow> gotime \<Rightarrow> session_inbound option \<Rightarrow> bool \<Rightarrow> xnode_limiter \<Rightarrow> (rate_reader \<times> rate_link) option \<times> xnode_limiter" where
  "xnode_wrap_provided r later ctx given s =
     (let email = xnode_email ctx
      in if email = [] \<or> \<not> given then (None, s)
      else (case xnode_policy_for r later email s of
          (p, s) \<Rightarrow>
            (Some (\<lparr>rr_email = email, rr_generation = cp_SessionGeneration p\<rparr>,
               \<lparr>rl_email = email, rl_generation = cp_SessionGeneration p, rl_downlink = True\<rparr>), s)))"

section \<open>Runs\<close>

text \<open>
  The critical sections of any number of connections, in any order: the state of the limiter
  together with the connections that were admitted and did not end yet. The policy of an entry is the one its connection read
  before, and may be stale. The number of connections is below \<open>2 ^ 63\<close>.
\<close>

datatype limiter_event =
    Refresh reading
  | Enter core_policy string string
  | Leave string string
  | Reserve gotime string int64 int64

type_synonym connections = "(string \<times> string) multiset"

inductive limiter_step :: "limiter_event \<Rightarrow> xnode_limiter \<times> connections \<Rightarrow> xnode_limiter \<times> connections \<Rightarrow> bool" where
  refresh: "limiter_step (Refresh r) (s, conns) (xnode_refresh r s, conns)"
| admitted: "xnode_enter p email ip s = (None, s') \<Longrightarrow> email \<noteq> [] \<Longrightarrow> size conns < 2 ^ 63 - 1 \<Longrightarrow>
    limiter_step (Enter p email ip) (s, conns) (s', add_mset (email, ip) conns)"
| refused: "xnode_enter p email ip s = (Some err, s') \<Longrightarrow> email \<noteq> [] \<Longrightarrow>
    limiter_step (Enter p email ip) (s, conns) (s', conns)"
| left: "(email, ip) \<in># conns \<Longrightarrow>
    limiter_step (Leave email ip) (s, conns) (xnode_release email ip s, conns - {#(email, ip)#})"
| reserved: "limiter_step (Reserve now key n rate) (s, conns)
    (s\<lparr>xl_buckets := go_put key (xnode_reserve now n rate
      (case go_get (xl_buckets s) key of None \<Rightarrow> zero_time | Some t \<Rightarrow> t)) (xl_buckets s)\<rparr>, conns)"

inductive_cases limiter_stepE: "limiter_step ev (s, conns) (s', conns')"

inductive limiter_run :: "limiter_event list \<Rightarrow> xnode_limiter \<Rightarrow> connections \<Rightarrow> bool" where
  start: "limiter_run [] start_limiter {#}"
| step: "limiter_run evs s conns \<Longrightarrow> limiter_step ev (s, conns) (s', conns') \<Longrightarrow> limiter_run (evs @ [ev]) s' conns'"

section \<open>The counters\<close>

definition of_user :: "string \<Rightarrow> connections \<Rightarrow> nat" where
  "of_user email conns = size (filter_mset (\<lambda>c. fst c = email) conns)"

definition of_ip :: "string \<Rightarrow> string \<Rightarrow> connections \<Rightarrow> nat" where
  "of_ip email ip conns = (if ip = [] then 0 else count conns (email, ip))"

text \<open>The addresses a user is connected from.\<close>

definition user_ips :: "string \<Rightarrow> connections \<Rightarrow> string set" where
  "user_ips email conns = {ip. ip \<noteq> [] \<and> (email, ip) \<in># conns}"

abbreviation counted :: "nat \<Rightarrow> int option" where
  "counted n \<equiv> (if n = 0 then None else Some (int n))"

definition refs_of :: "xnode_limiter \<Rightarrow> string \<Rightarrow> (string, int) gomap" where
  "refs_of s email = (case go_get (xl_ips s) email of None \<Rightarrow> [] | Some m \<Rightarrow> m)"

definition counts_exact :: "xnode_limiter \<Rightarrow> connections \<Rightarrow> bool" where
  "counts_exact s conns \<longleftrightarrow> size conns < 2 ^ 63
     \<and> (\<forall>email. go_get (xl_connections s) email = counted (of_user email conns))
     \<and> (\<forall>email. go_ok (refs_of s email))
     \<and> (\<forall>email ip. go_get (refs_of s email) ip = counted (of_ip email ip conns))"

lemma go_num_counted: "go_get m k = counted n \<Longrightarrow> go_num m k = int n"
  by (simp add: go_num_def)

lemma counts_exactD:
  assumes "counts_exact s conns"
  shows "go_num (xl_connections s) email = int (of_user email conns)"
    and "go_num (refs_of s email) ip = int (of_ip email ip conns)" and "go_ok (refs_of s email)"
  using assms by (simp_all add: counts_exact_def go_num_counted)

lemma of_user_add: "of_user email (add_mset (e, ip) conns) = (if e = email then Suc (of_user email conns) else of_user email conns)"
  by (simp add: of_user_def)

lemma of_ip_add: "of_ip email ip (add_mset (e, i) conns) =
    (if e = email \<and> i = ip \<and> ip \<noteq> [] then Suc (of_ip email ip conns) else of_ip email ip conns)"
  by (auto simp: of_ip_def)

lemma of_user_remove:
  "(e, ip) \<in># conns \<Longrightarrow> of_user email (conns - {#(e, ip)#}) = (if e = email then of_user email conns - 1 else of_user email conns)"
  by (auto simp: of_user_def size_Diff_singleton filter_diff_mset)

lemma of_ip_remove:
  "of_ip email ip (conns - {#(e, i)#}) = (if e = email \<and> i = ip then of_ip email ip conns - 1 else of_ip email ip conns)"
  by (auto simp: of_ip_def)

lemma of_user_le: "of_user email conns \<le> size conns"
  by (simp add: of_user_def size_filter_mset_lesseq)

lemma of_ip_le: "of_ip email ip conns \<le> size conns"
  by (simp add: of_ip_def count_le_size)

lemma go_get_count_down [map_simps]:
  "go_get (count_down k m) = (go_get m)(k := if go_num m k \<le> 1 then None else Some (go_num m k - 1))"
  by (simp add: count_down_def Let_def map_simps)

lemma go_ok_count_down: "go_ok m \<Longrightarrow> go_ok (count_down k m)"
  by (simp add: count_down_def Let_def go_ok_put go_ok_delete)

lemma refs_of_put: "xl_ips s' = go_put e m (xl_ips s) \<Longrightarrow> refs_of s' email = (if email = e then m else refs_of s email)"
  by (simp add: refs_of_def map_simps)

lemma refs_of_delete: "xl_ips s' = go_delete e (xl_ips s) \<Longrightarrow> refs_of s' email = (if email = e then [] else refs_of s email)"
  by (simp add: refs_of_def map_simps)

lemma refs_of_cong: "xl_ips s' = xl_ips s \<Longrightarrow> refs_of s' = refs_of s"
  by (simp add: refs_of_def fun_eq_iff)

text \<open>What an entry does, told by the counters.\<close>

lemma xnode_enter_cases:
  obtains (full) err where "xnode_enter p email ip s = (Some err, s)"
      and "0 < cp_ConnectionLimit p" and "cp_ConnectionLimit p \<le> go_num (xl_connections s) email"
  | (crowded) err s' where "xnode_enter p email ip s = (Some err, s')" and "xl_connections s' = xl_connections s"
      and "refs_of s' = refs_of s" and "ip \<noteq> []" and "0 < cp_IPLimit p" and "go_num (refs_of s email) ip = 0"
      and "cp_IPLimit p \<le> int (length (refs_of s email))"
  | (entered) s' where "xnode_enter p email ip s = (None, s')"
      and "xl_connections s' = go_put email (i64 (go_num (xl_connections s) email + 1)) (xl_connections s)"
      and "\<And>e. refs_of s' e = (if e = email \<and> ip \<noteq> [] then go_put ip (i64 (go_num (refs_of s email) ip + 1)) (refs_of s email)
            else refs_of s e)"
      and "cp_ConnectionLimit p \<le> 0 \<or> go_num (xl_connections s) email < cp_ConnectionLimit p"
      and "ip = [] \<or> cp_IPLimit p \<le> 0 \<or> go_num (refs_of s email) ip \<noteq> 0 \<or> int (length (refs_of s email)) < cp_IPLimit p"
proof (cases "0 < cp_ConnectionLimit p \<and> cp_ConnectionLimit p \<le> go_num (xl_connections s) email")
  case True
  show ?thesis by (rule full) (use True in \<open>simp_all add: xnode_enter_def Let_def\<close>)
next
  case room: False
  let ?s1 = "s\<lparr>xl_ips := go_put email (refs_of s email) (xl_ips s)\<rparr>"
  have refs1: "refs_of ?s1 = refs_of s" by (simp add: fun_eq_iff refs_of_put [of ?s1 email "refs_of s email" s])
  have enter: "xnode_enter p email ip s =
      (if ip = [] then (None, s\<lparr>xl_connections := go_put email (i64 (go_num (xl_connections s) email + 1)) (xl_connections s)\<rparr>)
       else if 0 < cp_IPLimit p \<and> go_num (refs_of s email) ip = 0 \<and> cp_IPLimit p \<le> int (length (refs_of s email))
       then (Some (''xnode: IP limit exceeded for '' @ email), ?s1)
       else (None, ?s1\<lparr>xl_ips := go_put email (go_put ip (i64 (go_num (refs_of s email) ip + 1)) (refs_of s email)) (xl_ips ?s1),
          xl_connections := go_put email (i64 (go_num (xl_connections s) email + 1)) (xl_connections s)\<rparr>))"
    unfolding xnode_enter_def Let_def if_not_P [OF room] refs_of_def [symmetric] by simp
  show ?thesis
  proof (cases "ip = []")
    case True
    show ?thesis
      by (rule entered [of "s\<lparr>xl_connections := go_put email (i64 (go_num (xl_connections s) email + 1)) (xl_connections s)\<rparr>"])
        (use room enter in \<open>auto simp: True refs_of_def\<close>)
  next
    case ip: False
    show ?thesis
    proof (cases "0 < cp_IPLimit p \<and> go_num (refs_of s email) ip = 0 \<and> cp_IPLimit p \<le> int (length (refs_of s email))")
      case True
      show ?thesis
        by (rule crowded [where s' = ?s1]) (use True ip enter refs1 in auto)
    next
      case False
      let ?m = "go_put ip (i64 (go_num (refs_of s email) ip + 1)) (refs_of s email)"
      let ?s2 = "?s1\<lparr>xl_ips := go_put email ?m (xl_ips ?s1),
          xl_connections := go_put email (i64 (go_num (xl_connections s) email + 1)) (xl_connections s)\<rparr>"
      have "refs_of ?s2 e = (if e = email then ?m else refs_of s e)" for e
        by (simp add: refs_of_def map_simps)
      then have refs2: "refs_of ?s2 e = (if e = email \<and> ip \<noteq> [] then ?m else refs_of s e)" for e
        using ip by simp
      have "xnode_enter p email ip s = (None, ?s2)" using False ip enter by auto
      from entered [OF this _ refs2] show ?thesis using False room by auto
    qed
  qed
qed

lemma entered_exact:
  assumes "counts_exact s conns" and "xnode_enter p email ip s = (None, s')" and "size conns < 2 ^ 63 - 1"
  shows "counts_exact s' (add_mset (email, ip) conns)"
proof (cases rule: xnode_enter_cases [of p email ip s])
  case (entered s'')
  then have s': "s'' = s'" using assms(2) by simp
  have "i64 (int (of_user email conns) + 1) = int (Suc (of_user email conns))"
    and "i64 (int (of_ip email ip conns) + 1) = int (Suc (of_ip email ip conns))"
    using of_user_le [of email conns] of_ip_le [of email ip conns] assms(3) by (simp_all add: i64_id in_i64_def)
  then show ?thesis
    using assms(1,3) entered(2,3) counts_exactD [OF assms(1)]
    unfolding counts_exact_def s' by (auto simp: of_user_add of_ip_add map_simps go_ok_put)
qed (use assms(2) in simp_all)

lemma refused_exact:
  assumes "counts_exact s conns" and "xnode_enter p email ip s = (Some err, s')"
  shows "counts_exact s' conns"
  by (cases rule: xnode_enter_cases [of p email ip s]) (use assms in \<open>auto simp: counts_exact_def\<close>)

lemma of_user_pos:
  assumes "(email, ip) \<in># conns"
  shows "0 < of_user email conns"
proof -
  have "(email, ip) \<in># filter_mset (\<lambda>c. fst c = email) conns" using assms by simp
  then show ?thesis by (metis of_user_def multi_member_split size_add_mset zero_less_Suc)
qed

lemma release_refs:
  assumes "go_get (refs_of s email) ip \<noteq> None \<or> ip = []"
  shows "refs_of (xnode_release email ip s) e
    = (if e = email \<and> ip \<noteq> [] then count_down ip (refs_of s email) else refs_of s e)"
proof (cases "ip = []")
  case False
  then obtain m where "go_get (xl_ips s) email = Some m" "refs_of s email = m"
    using assms by (auto simp: refs_of_def split: option.splits)
  with False show ?thesis
    by (simp add: xnode_release_def Let_def) (simp add: refs_of_def map_simps)
qed (simp add: xnode_release_def Let_def refs_of_def)

lemma release_connections: "xl_connections (xnode_release email ip s) = count_down email (xl_connections s)"
  by (simp add: xnode_release_def Let_def split: option.split)

lemma left_exact:
  assumes "counts_exact s conns" and "(email, ip) \<in># conns"
  shows "counts_exact (xnode_release email ip s) (conns - {#(email, ip)#})"
proof -
  have "0 < of_ip email ip conns \<or> ip = []" using assms(2) by (auto simp: of_ip_def)
  then have refs: "refs_of (xnode_release email ip s) e
      = (if e = email \<and> ip \<noteq> [] then count_down ip (refs_of s email) else refs_of s e)" for e
    using assms(1) by (intro release_refs) (auto simp: counts_exact_def)
  have "size (conns - {#(email, ip)#}) < 2 ^ 63"
    using assms size_Diff1_le [of conns "(email, ip)"] by (simp add: counts_exact_def)
  then show ?thesis
    using assms of_user_pos [OF assms(2)] \<open>_ \<or> ip = []\<close> counts_exactD [OF assms(1)]
    unfolding counts_exact_def refs release_connections
    by (auto simp: map_simps of_user_remove of_ip_remove go_ok_count_down of_ip_def split: if_splits)
qed

lemma refresh_frame [simp]:
  "xl_connections (xnode_refresh r s) = xl_connections s" "refs_of (xnode_refresh r s) = refs_of s"
  "xl_buckets (xnode_refresh r s) = xl_buckets s"
  by (simp_all add: xnode_refresh_def Let_def refs_of_def fun_eq_iff split: option.split content.split)

lemma refreshed_exact: "counts_exact s conns \<Longrightarrow> counts_exact (xnode_refresh r s) conns"
  by (simp add: counts_exact_def)

lemma reserved_exact: "counts_exact s conns \<Longrightarrow> counts_exact (s\<lparr>xl_buckets := b\<rparr>) conns"
  by (simp add: counts_exact_def refs_of_def)

lemma step_exact: "limiter_step ev (s, conns) (s', conns') \<Longrightarrow> counts_exact s conns \<Longrightarrow> counts_exact s' conns'"
  by (erule limiter_stepE) (simp_all add: entered_exact refused_exact left_exact refreshed_exact reserved_exact)

lemma run_exact: "limiter_run evs s conns \<Longrightarrow> counts_exact s conns"
proof (induction rule: limiter_run.induct)
  case start
  show ?case by (simp add: counts_exact_def start_limiter_def refs_of_def of_user_def of_ip_def)
qed (rule step_exact)

lemma refs_are_ips:
  assumes "counts_exact s conns"
  shows "length (refs_of s email) = card (user_ips email conns)"
proof -
  note ok = counts_exactD(3) [OF assms, of email]
  have "go_get (refs_of s email) ip \<noteq> None \<longleftrightarrow> ip \<in> user_ips email conns" for ip
    using assms by (auto simp: counts_exact_def user_ips_def of_ip_def count_eq_zero_iff)
  then have "user_ips email conns = fst ` set (refs_of s email)"
    by (auto simp: map_of_eq_None_iff)
  then show ?thesis
    using go_ok_distinct [OF ok] by (simp add: distinct_card flip: set_map)
qed

text \<open>
  Claim C30. The limiter counts exactly. However connections, refreshes and refusals interleave, for every user the
  counter of connections is the number of connections that were admitted and did not end, and the
  counters of addresses are those connections per address: there are as many as the addresses the
  user is connected from, and none is left behind.
\<close>

theorem limiter_counts_exact:
  assumes "limiter_run evs s conns"
  shows "go_num (xl_connections s) email = int (of_user email conns)
    \<and> length (refs_of s email) = card (user_ips email conns)
    \<and> go_num (refs_of s email) ip = int (of_ip email ip conns)"
  using run_exact [OF assms] by (simp add: counts_exactD refs_are_ips)

theorem limiter_counts_exact_witness:
  "go_num (xl_connections (snd (xnode_enter zero_policy ''u'' ''1'' start_limiter))) ''u'' = 1"
proof -
  have "limiter_run ([] @ [Enter zero_policy ''u'' ''1'']) (snd (xnode_enter zero_policy ''u'' ''1'' start_limiter))
      (add_mset (''u'', ''1'') {#})"
    by (rule limiter_run.step [OF limiter_run.start limiter_step.admitted])
      (simp_all add: xnode_enter_def zero_policy_def Let_def start_limiter_def)
  from limiter_counts_exact [OF this, of "''u''" "''1''"] show ?thesis by (simp add: of_user_def)
qed

section \<open>The limits\<close>

definition room :: "core_policy \<Rightarrow> string \<Rightarrow> string \<Rightarrow> connections \<Rightarrow> bool" where
  "room p email ip conns \<longleftrightarrow>
     (cp_ConnectionLimit p \<le> 0 \<or> int (of_user email conns) < cp_ConnectionLimit p)
     \<and> (ip = [] \<or> cp_IPLimit p \<le> 0 \<or> ip \<in> user_ips email conns \<or> int (card (user_ips email conns)) < cp_IPLimit p)"

lemma of_ip_pos: "ip \<noteq> [] \<Longrightarrow> of_ip email ip conns \<noteq> 0 \<longleftrightarrow> ip \<in> user_ips email conns"
  by (simp add: of_ip_def user_ips_def count_eq_zero_iff)

lemma enter_iff_room:
  assumes "counts_exact s conns"
  shows "fst (xnode_enter p email ip s) = None \<longleftrightarrow> room p email ip conns"
proof (cases rule: xnode_enter_cases [of p email ip s])
  case (crowded err s')
  with of_ip_pos [of ip email conns] show ?thesis
    by (simp add: room_def counts_exactD [OF assms] refs_are_ips [OF assms])
next
  case (entered s')
  with of_ip_pos [of ip email conns] show ?thesis
    by (auto simp: room_def counts_exactD [OF assms] refs_are_ips [OF assms])
qed (simp add: room_def counts_exactD [OF assms])

lemma user_ips_add:
  "user_ips email (add_mset (e, ip) conns) = (if e = email \<and> ip \<noteq> [] then insert ip (user_ips email conns) else user_ips email conns)"
  by (auto simp: user_ips_def)

lemma finite_user_ips [simp]: "finite (user_ips email conns)"
proof -
  have "user_ips email conns \<subseteq> snd ` set_mset conns" by (force simp: user_ips_def)
  then show ?thesis by (rule finite_subset) simp
qed

lemma user_ips_remove: "user_ips email (conns - M) \<subseteq> user_ips email conns"
  by (auto simp: user_ips_def dest: in_diffD)

lemma of_user_diff: "of_user email (conns - M) \<le> of_user email conns"
  by (simp add: of_user_def filter_diff_mset size_mset_mono)

text \<open>A step lets one connection in for which there is room, or some go.\<close>

lemma step_conns:
  assumes "limiter_step ev (s, conns) (s', conns')" and "counts_exact s conns"
  shows "(\<exists>p e ip. ev = Enter p e ip \<and> room p e ip conns \<and> conns' = add_mset (e, ip) conns) \<or> (\<exists>M. conns' = conns - M)"
  using assms(1)
proof (cases rule: limiter_step.cases)
  case (admitted p email ip)
  then show ?thesis using enter_iff_room [OF assms(2), of p email ip] by auto
qed (auto intro: exI [of _ "{#}"])

text \<open>
  The limiter admits exactly whom the limits allow. In every reachable state a connection
  of a user enters if and only if fewer of the user's connections are open than its connection
  limit, and its address is one the user is connected from, or there are fewer of those than its
  address limit (a limit that is not positive is none, and an unknown address is not limited).
\<close>

lemma admission_exact:
  assumes "limiter_run evs s conns"
  shows "fst (xnode_enter p email ip s) = None \<longleftrightarrow>
     (cp_ConnectionLimit p \<le> 0 \<or> int (of_user email conns) < cp_ConnectionLimit p)
     \<and> (ip = [] \<or> cp_IPLimit p \<le> 0 \<or> ip \<in> user_ips email conns \<or> int (card (user_ips email conns)) < cp_IPLimit p)"
  using enter_iff_room [OF run_exact [OF assms]] by (simp add: room_def)

lemma admission_exact_example:
  "fst (xnode_enter (zero_policy\<lparr>cp_IPLimit := 1\<rparr>) ''u'' ''1'' start_limiter) = None"
  using admission_exact [OF limiter_run.start, of "zero_policy\<lparr>cp_IPLimit := 1\<rparr>" "''u''" "''1''"]
  by (simp add: user_ips_def zero_policy_def)

text \<open>
  Claim C29. No interleaving overruns the limits: in a run in which every entry of a user is decided
  by policies with connection limits up to \<open>n\<close> and address limits up to \<open>k\<close>, stale or not, the user has never more than \<open>n\<close> connections
  open, from never more than \<open>k\<close> addresses.
\<close>

theorem limits_hold_in_every_run:
  assumes "limiter_run evs s conns"
    and "\<And>p ip. Enter p email ip \<in> set evs \<Longrightarrow>
      0 < cp_ConnectionLimit p \<and> cp_ConnectionLimit p \<le> int n \<and> 0 < cp_IPLimit p \<and> cp_IPLimit p \<le> int k"
  shows "of_user email conns \<le> n \<and> card (user_ips email conns) \<le> k"
  using assms
proof (induction rule: limiter_run.induct)
  case start
  show ?case by (simp add: of_user_def user_ips_def)
next
  case (step evs s conns ev s' conns')
  have IH: "of_user email conns \<le> n" "card (user_ips email conns) \<le> k"
    using step.IH step.prems by auto
  from step_conns [OF step.hyps(2) run_exact [OF step.hyps(1)]]
  show ?case
  proof (elim disjE exE conjE)
    fix p e ip assume ev: "ev = Enter p e ip" and room: "room p e ip conns" and conns': "conns' = add_mset (e, ip) conns"
    show ?thesis
    proof (cases "e = email")
      case True
      then have "0 < cp_ConnectionLimit p \<and> cp_ConnectionLimit p \<le> int n \<and> 0 < cp_IPLimit p \<and> cp_IPLimit p \<le> int k"
        using step.prems [of p ip] ev by simp
      then show ?thesis
        using IH room True by (auto simp: conns' room_def of_user_add user_ips_add card_insert_if)
    qed (use IH in \<open>simp add: conns' of_user_add user_ips_add\<close>)
  next
    fix M assume "conns' = conns - M"
    with IH of_user_diff [of email conns M] card_mono [OF finite_user_ips user_ips_remove [of email conns M]]
    show ?thesis by simp
  qed
qed

theorem limits_hold_in_every_run_witness:
  "of_user ''u'' {#(''u'', ''1'')#} \<le> 1"
proof -
  let ?p = "zero_policy\<lparr>cp_ConnectionLimit := 1, cp_IPLimit := 1\<rparr>"
  have "limiter_run ([] @ [Enter ?p ''u'' ''1'']) (snd (xnode_enter ?p ''u'' ''1'' start_limiter)) (add_mset (''u'', ''1'') {#})"
    by (rule limiter_run.step [OF limiter_run.start limiter_step.admitted])
      (simp_all add: xnode_enter_def zero_policy_def Let_def start_limiter_def go_num_def)
  from limits_hold_in_every_run [OF this, of "''u''" 1 1] show ?thesis by (simp add: zero_policy_def)
qed

section \<open>Pacing in a run\<close>

text \<open>The bytes reserved in a bucket, and how many reservations there were.\<close>

definition bucket :: "xnode_limiter \<Rightarrow> string \<Rightarrow> gotime" where
  "bucket s key = (case go_get (xl_buckets s) key of None \<Rightarrow> zero_time | Some t \<Rightarrow> t)"

fun bytes_reserved :: "string \<Rightarrow> limiter_event list \<Rightarrow> int64 list" where
  "bytes_reserved key [] = []"
| "bytes_reserved key (Reserve now k n rate # evs) = (if k = key then [n] else []) @ bytes_reserved key evs"
| "bytes_reserved key (_ # evs) = bytes_reserved key evs"

lemma bytes_reserved_append: "bytes_reserved key (xs @ ys) = bytes_reserved key xs @ bytes_reserved key ys"
  by (induction key xs rule: bytes_reserved.induct) auto

inductive limiter_steps ::
  "limiter_event list \<Rightarrow> xnode_limiter \<times> connections \<Rightarrow> xnode_limiter \<times> connections \<Rightarrow> bool" where
  none: "limiter_steps [] st st"
| more: "limiter_steps evs st st' \<Longrightarrow> limiter_step ev st' st'' \<Longrightarrow> limiter_steps (evs @ [ev]) st st''"

lemma duration_bounds:
  assumes "0 < n" and "n \<le> 2 ^ 32" and "0 < rate"
  shows "of_int n * 10 ^ 9 * (1 - 1 / 2 ^ 51) \<le> (of_int rate * of_int (xnode_duration n rate + 1) :: rat)"
    and "0 \<le> xnode_duration n rate"
proof -
  define N R :: rat where "N = of_int n" and "R = of_int rate"
  define a b :: rat where "a = 1 - 1 / 2 ^ 53" and "b = 1 + 1 / 2 ^ 53"
  define q v where "q = fl N / fl R" and "v = fl (fl q * of_int second_ns)"
  have N: "1 \<le> N" "N \<le> 2 ^ 32" and R: "1 \<le> R"
    using assms of_int_le_iff [of n "2 ^ 32", where 'a = rat] by (simp_all add: N_def R_def)
  have ab: "0 < a" "0 < b" "1 - 1 / 2 ^ 51 \<le> a * a * a / b" by (simp_all add: a_def b_def)
  have fN: "0 < fl N" "N * a \<le> fl N" and fR: "0 < fl R" "fl R \<le> R * b"
    using fl_gt_0 [of N] fl_gt_0 [of R] fl_lower [of N] fl_upper [of R] N R by (simp_all add: a_def b_def)
  then have q: "0 < q" by (simp add: q_def)
  have "N * a / (R * b) \<le> q"
    unfolding q_def by (rule frac_le [OF less_imp_le [OF fN(1)] fN(2) fR])
  from mult_right_mono [OF this less_imp_le [OF ab(1)]] have "N * a / (R * b) * a \<le> fl q"
    using fl_lower [OF q] unfolding a_def [symmetric] by (rule order_trans)
  from mult_right_mono [OF this, of "10 ^ 9 * a"] have "N * a / (R * b) * a * (10 ^ 9 * a) \<le> fl q * 10 ^ 9 * a"
    using ab(1) by (simp add: mult.assoc)
  also have "\<dots> \<le> v"
    using fl_lower [of "fl q * 10 ^ 9"] fl_gt_0 [OF q] unfolding v_def a_def [symmetric] by (simp add: second_ns_def)
  finally have "N * 10 ^ 9 / R * (a * a * a / b) \<le> v" by (simp add: ac_simps)
  moreover have "0 \<le> N * 10 ^ 9 / R" using N(1) R by simp
  from mult_left_mono [OF ab(3) this] have "N * 10 ^ 9 / R * (1 - 1 / 2 ^ 51) \<le> N * 10 ^ 9 / R * (a * a * a / b)" .
  ultimately have lower: "N * 10 ^ 9 / R * (1 - 1 / 2 ^ 51) \<le> v" by (rule order_trans [rotated])
  have "fl N = N" unfolding N_def using assms by (intro fl_int) simp_all
  moreover have "1 \<le> fl R" using fl_mono [of 1 R] fl_int [of 1] R by simp
  ultimately have "q \<le> 2 ^ 32" using N frac_le [of N N 1 "fl R"] by (simp add: q_def)
  then have "fl q \<le> 2 ^ 32" using fl_mono [of q "of_int (2 ^ 32)"] fl_int [of "2 ^ 32"] q by simp
  then have "v \<le> fl (2 ^ 62)"
    unfolding v_def using fl_gt_0 [OF q] by (intro fl_mono) (simp_all add: second_ns_def)
  also have "\<dots> < 2 ^ 63" by (rule le_less_trans [OF fl_upper]) simp_all
  finally have upper: "v < 2 ^ 63" .
  have pos: "0 < v" unfolding v_def using fl_gt_0 [OF q] by (intro fl_gt_0) (simp add: second_ns_def)
  have d: "xnode_duration n rate = \<lfloor>v\<rfloor>"
    using pos upper unfolding xnode_duration_def N_def [symmetric] R_def [symmetric] q_def [symmetric] v_def [symmetric]
    by (auto simp: Let_def float_to_int64_def trunc_rat_def in_i64_def floor_less_iff)
  show "0 \<le> xnode_duration n rate" using pos by (simp add: d)
  have "N * 10 ^ 9 / R * (1 - 1 / 2 ^ 51) \<le> of_int (\<lfloor>v\<rfloor> + 1)"
    using lower floor_correct [of v] by simp
  then have "N * 10 ^ 9 * (1 - 1 / 2 ^ 51) \<le> R * of_int (\<lfloor>v\<rfloor> + 1)"
    using R by (simp add: field_simps)
  then show "of_int n * 10 ^ 9 * (1 - 1 / 2 ^ 51) \<le> (of_int rate * of_int (xnode_duration n rate + 1) :: rat)"
    by (simp add: d N_def R_def)
qed

lemma step_bucket:
  assumes "limiter_step ev st st'"
  shows "(\<exists>now n rate. ev = Reserve now key n rate \<and> bucket (fst st') key = xnode_reserve now n rate (bucket (fst st) key))
    \<or> bytes_reserved key [ev] = [] \<and> bucket (fst st') key = bucket (fst st) key"
  using assms
proof (cases rule: limiter_step.cases)
  case (admitted p email ip s)
  have "xl_buckets (snd (xnode_enter p email ip s)) = xl_buckets s"
    by (simp add: xnode_enter_def Let_def)
  with admitted show ?thesis by (simp add: bucket_def)
next
  case (refused p email ip s)
  have "xl_buckets (snd (xnode_enter p email ip s)) = xl_buckets s"
    by (simp add: xnode_enter_def Let_def)
  with refused show ?thesis by (simp add: bucket_def)
next
  case (left email ip conns s)
  then show ?thesis by (simp add: bucket_def xnode_release_def Let_def split: option.split)
next
  case (reserved now k n rate s)
  then show ?thesis by (cases "k = key") (simp_all add: bucket_def map_simps)
qed (simp add: bucket_def)

text \<open>
  Claim C35. The limiter paces a user as a whole. Whatever else happens in between and however many
  connections share the bucket, the bytes reserved between two moments, at a constant rate, take at least as
  long as the rate demands: the time at which the last of them may pass lies that much later, up to
  one nanosecond for each transfer and the rounding of the floating point numbers, which is below one part in \<open>2 ^ 51\<close>.
\<close>

theorem bucket_paces:
  assumes "limiter_steps evs st st'" and "0 < rate"
    and "\<And>now n r. Reserve now key n r \<in> set evs \<Longrightarrow> r = rate \<and> 0 < n \<and> n \<le> 2 ^ 32"
  shows "of_int (sum_list (bytes_reserved key evs)) * 10 ^ 9 * (1 - 1 / 2 ^ 51)
    \<le> (of_int rate * of_int (bucket (fst st') key - bucket (fst st) key + int (length (bytes_reserved key evs))) :: rat)"
  using assms
proof (induction rule: limiter_steps.induct)
  case (none st)
  show ?case by simp
next
  case (more evs st st' ev st'')
  define c :: rat where "c = 1 - 1 / 2 ^ 51"
  have IH: "of_int (sum_list (bytes_reserved key evs)) * 10 ^ 9 * c
      \<le> (of_int rate * of_int (bucket (fst st') key - bucket (fst st) key + int (length (bytes_reserved key evs))) :: rat)"
    unfolding c_def by (rule more.IH) (use more.prems in auto)
  from step_bucket [OF more.hyps(2), of key] show ?case
  proof (elim disjE exE conjE)
    fix now n r assume ev: "ev = Reserve now key n r" and b: "bucket (fst st'') key = xnode_reserve now n r (bucket (fst st') key)"
    have n: "r = rate" "0 < n" "n \<le> 2 ^ 32" using more.prems(2) [of now n r] ev by simp_all
    have "bucket (fst st') key + xnode_duration n rate \<le> bucket (fst st'') key"
      by (simp add: b n(1) xnode_reserve_def)
    then have "of_int rate * of_int (bucket (fst st') key - bucket (fst st) key + int (length (bytes_reserved key evs)))
        + of_int rate * of_int (xnode_duration n rate + 1)
      \<le> (of_int rate * of_int (bucket (fst st'') key - bucket (fst st) key + int (length (bytes_reserved key (evs @ [ev])))) :: rat)"
      using more.prems(1) unfolding distrib_left [symmetric] of_int_add [symmetric]
      by (intro mult_left_mono) (simp_all add: ev bytes_reserved_append flip: of_int_le_iff)
    with IH duration_bounds(1) [OF n(2,3) more.prems(1), folded c_def] show ?thesis
      unfolding c_def [symmetric] by (simp add: ev bytes_reserved_append distrib_right)
  next
    assume "bytes_reserved key [ev] = []" and "bucket (fst st'') key = bucket (fst st') key"
    with IH show ?thesis unfolding c_def [symmetric] by (simp add: bytes_reserved_append)
  qed
qed

theorem bucket_paces_witness:
  "(of_int 1000 * 10 ^ 9 * (1 - 1 / 2 ^ 51) :: rat)
     \<le> of_int 1000 * of_int (xnode_reserve 0 1000 1000 zero_time - zero_time + 1)"
proof -
  let ?s = "start_limiter\<lparr>xl_buckets := go_put ''u:up'' (xnode_reserve 0 1000 1000
        (case go_get (xl_buckets start_limiter) ''u:up'' of None \<Rightarrow> zero_time | Some t \<Rightarrow> t)) (xl_buckets start_limiter)\<rparr>"
  have "limiter_steps ([] @ [Reserve 0 ''u:up'' 1000 1000]) (start_limiter, {#})
      (start_limiter\<lparr>xl_buckets := go_put ''u:up'' (xnode_reserve 0 1000 1000
        (case go_get (xl_buckets start_limiter) ''u:up'' of None \<Rightarrow> zero_time | Some t \<Rightarrow> t)) (xl_buckets start_limiter)\<rparr>, {#})"
    by (rule limiter_steps.more [OF limiter_steps.none limiter_step.reserved])
  moreover have "r = 1000 \<and> 0 < n \<and> n \<le> 2 ^ 32" if "Reserve now ''u:up'' n r \<in> set ([] @ [Reserve 0 ''u:up'' 1000 1000])"
    for now n r using that by simp
  ultimately have "of_int (sum_list (bytes_reserved ''u:up'' ([] @ [Reserve 0 ''u:up'' 1000 1000]))) * 10 ^ 9 * (1 - 1 / 2 ^ 51)
      \<le> (of_int 1000 * of_int (bucket ?s ''u:up'' - bucket start_limiter ''u:up''
        + int (length (bytes_reserved ''u:up'' ([] @ [Reserve 0 ''u:up'' 1000 1000])))) :: rat)"
    using bucket_paces [where evs = "[] @ [Reserve 0 ''u:up'' 1000 1000]" and rate = 1000 and key = "''u:up''"
        and st = "(start_limiter, {#})" and st' = "(?s, {#})"] by (simp only: fst_conv)
  moreover have "bucket ?s ''u:up'' = xnode_reserve 0 1000 1000 zero_time" "bucket start_limiter ''u:up'' = zero_time"
    by (simp_all add: bucket_def start_limiter_def)
  moreover have "bytes_reserved ''u:up'' ([] @ [Reserve 0 ''u:up'' 1000 1000]) = [1000]" by simp
  ultimately show ?thesis by (simp only: sum_list.Cons sum_list.Nil list.size of_nat_1 One_nat_def add_0_right add_0) simp
qed

section \<open>What a changed policy does to a session\<close>

lemma policy_for_frame [simp]: "xl_connections (snd (xnode_policy_for r later email s)) = xl_connections s"
  by (simp add: xnode_policy_for_def Let_def)

text \<open>The policy in force at a wait ends a session: it blocks the user, or it starts another generation.\<close>

definition session_over :: "waiting \<Rightarrow> string \<Rightarrow> int64 \<Rightarrow> xnode_limiter \<Rightarrow> bool" where
  "session_over w email generation s \<longleftrightarrow>
     (let p = fst (xnode_policy_for (wt_reading w) (wt_check w) email s)
      in cp_Blocked p \<or> cp_SessionGeneration p \<noteq> generation)"

lemma wait_refuses:
  assumes "session_over w email generation s" and "0 < n" and "email \<noteq> []"
  shows "\<exists>err. xnode_wait w email generation downlink n s = (Some err, snd (xnode_policy_for (wt_reading w) (wt_check w) email s))"
proof -
  obtain p s' where "xnode_policy_for (wt_reading w) (wt_check w) email s = (p, s')" by (rule prod.exhaust)
  then show ?thesis using assms by (auto simp: session_over_def xnode_wait_def)
qed

text \<open>
  Claim C36. A link is cut when its user is blocked or its session generation is over. If the policy in force at a write is
  blocked, or has another generation than the one the link was wrapped with, the write fails: nothing
  reaches the writer below and no time is reserved.
\<close>

theorem session_is_cut:
  assumes "xnode_wrap r later ctx s = (Some (up, down), s1)" and "xnode_email ctx = email" and "l = up \<or> l = down" and "0 < n"
    and "session_over w email (cp_SessionGeneration (fst (xnode_policy_for r later email s))) s2"
  shows "\<exists>err. xnode_write w out l n (s2, chan) = (Some err, snd (xnode_policy_for (wt_reading w) (wt_check w) email s2), chan)"
proof -
  have "rl_email l = email" "rl_generation l = cp_SessionGeneration (fst (xnode_policy_for r later email s))" "email \<noteq> []"
    using assms(1-3) by (auto simp: xnode_wrap_def Let_def case_prod_unfold split: if_splits)
  with wait_refuses [OF assms(5,4), of "rl_downlink l"] show ?thesis by (auto simp: xnode_write_def)
qed

text \<open>The same for a provided link: what its reader takes from below is not passed on, nothing is written.\<close>

lemma provided_session_is_cut:
  assumes "xnode_wrap_provided r later ctx True s = (Some (rd, l), s1)" and "xnode_email ctx = email"
    and "session_over w email (cp_SessionGeneration (fst (xnode_policy_for r later email s))) s2"
  shows "fst (inp chan) = (Some bytes, e) \<and> bytes \<noteq> [] \<Longrightarrow> \<exists>err. fst (xnode_read w inp rd (s2, chan)) = (None, Some err)"
    and "0 < n \<Longrightarrow> \<exists>err. xnode_write w out l n (s2, chan) = (Some err, snd (xnode_policy_for (wt_reading w) (wt_check w) email s2), chan)"
proof -
  let ?g = "cp_SessionGeneration (fst (xnode_policy_for r later email s))"
  have l: "rd = \<lparr>rr_email = email, rr_generation = ?g\<rparr>" "rl_email l = email" "rl_generation l = ?g" "email \<noteq> []"
    using assms(1,2) by (auto simp: xnode_wrap_provided_def Let_def case_prod_unfold split: if_splits)
  show "\<exists>err. fst (xnode_read w inp rd (s2, chan)) = (None, Some err)" if "fst (inp chan) = (Some bytes, e) \<and> bytes \<noteq> []"
    using wait_refuses [OF assms(3) _ l(4), of "int (length bytes)" False] that l(1)
    by (auto simp: xnode_read_def case_prod_unfold split: prod.split)
  show "\<exists>err. xnode_write w out l n (s2, chan) = (Some err, snd (xnode_policy_for (wt_reading w) (wt_check w) email s2), chan)" if "0 < n"
    using wait_refuses [OF assms(3) that l(4), of "rl_downlink l"] l by (auto simp: xnode_write_def)
qed

text \<open>A reading without a policy file.\<close>

definition no_file :: "gotime \<Rightarrow> reading" where
  "no_file t = \<lparr>rd_now = t, rd_path = [], rd_mtime = None, rd_file = None\<rparr>"

definition ex_limiter :: xnode_limiter where
  "ex_limiter = start_limiter\<lparr>xl_policies := [(''u'', zero_policy\<lparr>cp_SessionGeneration := 2\<rparr>)]\<rparr>"

theorem session_is_cut_witness:
  "\<exists>err s'. xnode_write \<lparr>wt_reading = no_file zero_time, wt_check = 0, wt_now = 0, wt_until = 0, wt_cancelled = (\<lambda>_. None)\<rparr>
     (\<lambda>_ o'. (None, o' + 1 :: nat)) \<lparr>rl_email = ''u'', rl_generation = 0, rl_downlink = True\<rparr> 5 (ex_limiter, 7) = (Some err, s', 7)"
proof -
  have pol: "fst (xnode_policy_for (no_file zero_time) 0 ''u'' start_limiter) = zero_policy"
    "fst (xnode_policy_for (no_file zero_time) 0 ''u'' ex_limiter) = zero_policy\<lparr>cp_SessionGeneration := 2\<rparr>"
    by code_simp+
  let ?link = "\<lambda>d. \<lparr>rl_email = ''u'', rl_generation = 0, rl_downlink = d\<rparr>"
  let ?ctx = "Some \<lparr>si_User = Some ''u'', si_Source = None\<rparr>"
  have "xnode_wrap (no_file zero_time) 0 ?ctx start_limiter = (Some (?link False, ?link True), start_limiter)"
    "xnode_email ?ctx = ''u''"
    by code_simp+
  from session_is_cut [OF this, of "?link True" 5 "\<lparr>wt_reading = no_file zero_time, wt_check = 0, wt_now = 0, wt_until = 0, wt_cancelled = (\<lambda>_. None)\<rparr>"
      ex_limiter "\<lambda>_ o'. (None, o' + 1 :: nat)" 7]
  show ?thesis by (auto simp: session_over_def pol zero_policy_def)
qed

text \<open>
  Claim C37. The limiter can forget a policy that is on disk. When \<^verbatim>\<open>Stat\<close> of the policy file fails
  once, the limiter drops every policy but keeps the path and the modification time it has seen; while the
  file then has that time again, later refreshes do not read it, whatever it holds, and every user is without limits.
\<close>

theorem limiter_forgets_policies:
  assumes "xl_path s = rd_path r" and "rd_path r \<noteq> []" and "rd_mtime r = None"
    and "second_ns \<le> time_sub (rd_now r) (xl_checkedAt s)"
    and "\<And>r'. r' \<in> set later \<Longrightarrow> rd_path r' = rd_path r \<and> rd_mtime r' = Some (xl_mtime s)"
  shows "xl_policies (fold xnode_refresh later (xnode_refresh r s)) = []
    \<and> xl_mode (fold xnode_refresh later (xnode_refresh r s)) = ''active''"
proof -
  define lost where "lost s' \<longleftrightarrow> xl_policies s' = [] \<and> xl_mode s' = ''active'' \<and> xl_path s' = rd_path r \<and> xl_mtime s' = xl_mtime s"
    for s' :: xnode_limiter
  have "lost (xnode_refresh r s)" using assms(1-4) by (simp add: lost_def xnode_refresh_def Let_def)
  moreover have "lost (fold xnode_refresh later s')" if "lost s'" "\<And>r'. r' \<in> set later \<Longrightarrow> rd_path r' = rd_path r \<and> rd_mtime r' = Some (xl_mtime s)" for s' later
    using that
  proof (induction later arbitrary: s')
    case (Cons r' later)
    have "lost (xnode_refresh r' s')"
      using Cons.prems assms(2) by (auto simp: lost_def xnode_refresh_def Let_def)
    with Cons show ?case by simp
  qed simp
  ultimately show ?thesis using assms(5) by (simp add: lost_def)
qed

theorem limiter_forgets_policies_witness:
  "\<exists>s. xl_policies s \<noteq> [] \<and> xl_policies (fold xnode_refresh
     [\<lparr>rd_now = 4 * second_ns, rd_path = ''p'', rd_mtime = Some (xl_mtime s), rd_file = Some (Doc \<lparr>xf_Version = 1, xf_Mode = [], xf_Users = Some [(''u'', zero_policy)]\<rparr>)\<rparr>]
     (xnode_refresh \<lparr>rd_now = 2 * second_ns, rd_path = ''p'', rd_mtime = None, rd_file = None\<rparr> s)) = []"
proof -
  let ?s = "ex_limiter\<lparr>xl_path := ''p'', xl_checkedAt := 0\<rparr>"
  let ?r = "\<lparr>rd_now = 2 * second_ns, rd_path = ''p'', rd_mtime = None, rd_file = None\<rparr>"
  let ?l = "\<lparr>rd_now = 4 * second_ns, rd_path = ''p'', rd_mtime = Some (xl_mtime ?s), rd_file = Some (Doc \<lparr>xf_Version = 1, xf_Mode = [], xf_Users = Some [(''u'', zero_policy)]\<rparr>)\<rparr>"
  have "xl_policies (fold xnode_refresh [?l] (xnode_refresh ?r ?s)) = []"
    by (rule limiter_forgets_policies [THEN conjunct1]) (simp_all, code_simp)
  then show ?thesis by (intro exI [of _ ?s]) (simp add: ex_limiter_def)
qed

end
