(* ===== verification/Enforcement.thy ===== *)
theory Enforcement
  imports Limiter Operation
begin

text \<open>
  From the panel's state to the data path: the agent evaluates the state and writes the policy
  file, the limiter in the Xray core reads the file and decides about every connection. The
  components meet in two places only, the file and the identity of a user, which is the email
  that both the configuration and the policy file are keyed by.
\<close>

text \<open>What the decoder of the limiter makes of a document that the agent wrote.\<close>

definition seen_doc :: "core_policy_file \<Rightarrow> xnode_policy_file" where
  "seen_doc d = \<lparr>xf_Version = cpf_Version d, xf_Mode = cpf_Mode d, xf_Users = Some (cpf_Users d)\<rparr>"

text \<open>A refresh that finds the document: it is due, and the file is not the one that was read last.\<close>

definition finds :: "reading \<Rightarrow> xnode_limiter \<Rightarrow> core_policy_file \<Rightarrow> bool" where
  "finds r core d \<longleftrightarrow> rd_path r \<noteq> [] \<and> second_ns \<le> time_sub (rd_now r) (xl_checkedAt core)
     \<and> rd_file r = Some (Doc (seen_doc d))
     \<and> (case rd_mtime r of None \<Rightarrow> False | Some t \<Rightarrow> rd_path r \<noteq> xl_path core \<or> t \<noteq> xl_mtime core)"

lemma refresh_finds:
  assumes "finds r core (policy_doc s now old)"
  shows "xl_policies (xnode_refresh r core) = cpf_Users (policy_doc s now old)"
    and "xl_mode (xnode_refresh r core) = (if ds_Mode s = [] then ''active'' else ds_Mode s)"
    and "xl_checkedAt (xnode_refresh r core) = rd_now r"
proof -
  obtain t where "rd_mtime r = Some t" "rd_path r \<noteq> xl_path core \<or> t \<noteq> xl_mtime core"
    using assms by (auto simp: finds_def split: option.splits)
  then have "xnode_refresh r core = core\<lparr>xl_checkedAt := rd_now r, xl_path := rd_path r, xl_mtime := t,
      xl_mode := (if cpf_Mode (policy_doc s now old) = [] then ''active'' else cpf_Mode (policy_doc s now old)),
      xl_policies := cpf_Users (policy_doc s now old)\<rparr>"
    using assms by (auto simp: finds_def xnode_refresh_def seen_doc_def policy_doc_def Let_def)
  then show "xl_policies (xnode_refresh r core) = cpf_Users (policy_doc s now old)"
    and "xl_mode (xnode_refresh r core) = (if ds_Mode s = [] then ''active'' else ds_Mode s)"
    and "xl_checkedAt (xnode_refresh r core) = rd_now r"
    by (simp_all add: policy_doc_def)
qed

lemma refresh_not_due: "time_sub (rd_now r) (xl_checkedAt core) < second_ns \<Longrightarrow> xnode_refresh r core = core"
  by (simp add: xnode_refresh_def)

lemma find_distinct:
  assumes "distinct (map f xs)" and "x \<in> set xs"
  shows "find (\<lambda>y. f y = f x) (rev xs) = Some x"
proof (cases "find (\<lambda>y. f y = f x) (rev xs)")
  case None
  then have "f x \<notin> f ` set xs" by (auto simp: find_None_iff)
  with assms(2) show ?thesis by simp
next
  case (Some y)
  from find_Some_in [OF this] have "y \<in> set xs" "f y = f x" by simp_all
  with assms have "y = x" by (metis distinct_map inj_onD)
  with Some show ?thesis by simp
qed

text \<open>The decision about a connection of a user of the state the policy file was written for.\<close>

lemma core_enforces_state:
  assumes run: "limiter_run evs core conns" and iu: "iu \<in> set (all_users s)"
    and keys: "distinct (map user_key (all_users s))" "go_ok (old_users old)"
    and email: "user_key iu \<noteq> []" "xnode_email ctx = user_key iu"
    and found: "finds r core (policy_doc s now old)" and soon: "time_sub (rd_now r') (rd_now r) < second_ns"
  shows "fst (xnode_admit r r' later ctx core) = None \<longleftrightarrow>
    ds_Mode s \<noteq> ''draining'' \<and> usr_Enabled (snd iu) \<and> room (user_policy (fst iu) (snd iu)) (user_key iu) (xnode_source_ip ctx) conns"
proof -
  let ?core = "xnode_refresh r core"
  note ref = refresh_finds [OF found]
  have "go_get (xl_policies ?core) (user_key iu) = Some (user_policy (fst iu) (snd iu))"
    unfolding ref(1) policy_doc_get [OF keys(2)] find_distinct [OF keys(1) iu] by simp
  moreover have "xnode_refresh r' ?core = ?core" using soon by (intro refresh_not_due) (simp add: ref(3))
  ultimately have pol: "xnode_policy_for r' later (user_key iu) ?core = (user_policy (fst iu) (snd iu), ?core)"
    by (simp add: xnode_policy_for_def Let_def) (simp add: user_policy_def)
  have mode: "xnode_mode r core = (if ds_Mode s = [] then ''active'' else ds_Mode s, ?core)"
    by (simp add: xnode_mode_def ref(2) Let_def)
  have "counts_exact ?core conns" using run_exact [OF run] by (rule refreshed_exact)
  from enter_iff_room [OF this, of "user_policy (fst iu) (snd iu)" "user_key iu" "xnode_source_ip ctx"]
  show ?thesis
    using email by (auto simp: xnode_admit_def Let_def mode pol) (simp_all add: user_policy_def)
qed

text \<open>A user of the evaluated state at its place in the desired state.\<close>

lemma evaluated_user:
  assumes "i \<in> set (ds_Inbounds d)" and "j < length (inb_Users i)"
  shows "(admit_inbound ok i, (inb_Users i ! j)\<lparr>usr_Enabled := ok i (inb_Users i ! j) \<and> device_ok (ok i) (inb_Users i) j\<rparr>)
    \<in> set (all_users (d\<lparr>ds_Inbounds := map (admit_inbound ok) (ds_Inbounds d)\<rparr>))"
  using assms by (fastforce simp: all_users_def admit_inbound_def)

lemma evaluated_keys:
  "map user_key (all_users (d\<lparr>ds_Inbounds := map (admit_inbound ok) (ds_Inbounds d)\<rparr>)) = map user_key (all_users d)"
proof -
  have "map user_key (map (Pair (admit_inbound ok i)) (inb_Users (admit_inbound ok i)))
      = map user_key (map (Pair i) (inb_Users i))" for i
    by (rule nth_equalityI) (simp_all add: admit_inbound_def user_key_def)
  then have "map user_key (concat (map (\<lambda>i. map (Pair i) (inb_Users i)) (map (admit_inbound ok) ins)))
      = map user_key (concat (map (\<lambda>i. map (Pair i) (inb_Users i)) ins))" for ins
    by (induction ins) (simp_all del: map_map)
  then show ?thesis by (simp add: all_users_def del: map_map)
qed

text \<open>
  Claim C28. Admission end to end. Let the agent write the policy file for the evaluated state, and
  let the limiter read it. Then a new connection of a user enters if and only if the
  node is not draining, the user is admissible (enabled, not expired, below the quota with the pending
  usage, within the address limit of the sessions) and within the device limit of its account,
  and the connections that are open now leave room under its connection limit and, unless the inbound switches it
  off, its address limit.
\<close>

theorem admission_end_to_end:
  assumes "limiter_run evs core conns" and "i \<in> set (ds_Inbounds d)" and "j < length (inb_Users i)"
    and "distinct (map user_key (all_users d))" and "go_ok (old_users old)"
    and "user_key (i, inb_Users i ! j) \<noteq> []" and "xnode_email ctx = user_key (i, inb_Users i ! j)"
    and "finds r core (policy_doc (ev_State (evaluate d ss pending now)) written old)"
    and "time_sub (rd_now r') (rd_now r) < second_ns"
  shows "fst (xnode_admit r r' later ctx core) = None \<longleftrightarrow>
    ds_Mode d \<noteq> ''draining'' \<and> admissible ss pending now i (inb_Users i ! j)
    \<and> device_ok (admissible ss pending now i) (inb_Users i) j
    \<and> room (user_policy i (inb_Users i ! j)) (user_key (i, inb_Users i ! j)) (xnode_source_ip ctx) conns"
proof -
  let ?ok = "admissible ss pending now"
  let ?s = "d\<lparr>ds_Inbounds := map (admit_inbound ?ok) (ds_Inbounds d)\<rparr>"
  let ?u = "inb_Users i ! j"
  let ?iu = "(admit_inbound ?ok i, ?u\<lparr>usr_Enabled := ?ok i ?u \<and> device_ok (?ok i) (inb_Users i) j\<rparr>)"
  have key: "user_key ?iu = user_key (i, ?u)" by (simp add: user_key_def admit_inbound_def)
  have room: "room (user_policy (fst ?iu) (snd ?iu)) e ip conns = room (user_policy i ?u) e ip conns" for e ip
    by (simp add: room_def user_policy_def admit_inbound_def)
  have "distinct (map user_key (all_users ?s))" using assms(4) by (simp only: evaluated_keys)
  moreover have "user_key ?iu \<noteq> []" "xnode_email ctx = user_key ?iu" using assms(6,7) key by simp_all
  moreover have "finds r core (policy_doc ?s written old)" using assms(8) by (simp only: evaluate_state)
  ultimately have "fst (xnode_admit r r' later ctx core) = None \<longleftrightarrow>
      ds_Mode ?s \<noteq> ''draining'' \<and> usr_Enabled (snd ?iu) \<and> room (user_policy (fst ?iu) (snd ?iu)) (user_key ?iu) (xnode_source_ip ctx) conns"
    using assms(5,9) by (intro core_enforces_state [OF assms(1) evaluated_user [OF assms(2,3)]])
  then show ?thesis unfolding key room by (simp add: conj_ac)
qed

definition one_user :: desired_state where
  "one_user = zero_state\<lparr>ds_Inbounds := [zero_inbound\<lparr>inb_ID := ''i'', inb_Users := [zero_user\<lparr>usr_ID := ''u'', usr_Enabled := True\<rparr>]\<rparr>]\<rparr>"

definition reading_of :: "core_policy_file \<Rightarrow> reading" where
  "reading_of d = \<lparr>rd_now = 0, rd_path = ''p'', rd_mtime = Some 0, rd_file = Some (Doc (seen_doc d))\<rparr>"

lemma reading_of_finds: "finds (reading_of d) start_limiter d"
proof -
  have "second_ns \<le> time_sub 0 zero_time" by code_simp
  then show ?thesis by (simp add: finds_def reading_of_def start_limiter_def)
qed

theorem admission_end_to_end_witness:
  "fst (xnode_admit (reading_of (policy_doc (ev_State (evaluate one_user [] [] 0)) 0 None))
      (reading_of (policy_doc (ev_State (evaluate one_user [] [] 0)) 0 None)) 0
      (Some \<lparr>si_User = Some ''u:u|i:i'', si_Source = Some ''1''\<rparr>) start_limiter) = None"
proof -
  let ?i = "zero_inbound\<lparr>inb_ID := ''i'', inb_Users := [zero_user\<lparr>usr_ID := ''u'', usr_Enabled := True\<rparr>]\<rparr>"
  let ?r = "reading_of (policy_doc (ev_State (evaluate one_user [] [] 0)) 0 None)"
  let ?ctx = "Some \<lparr>si_User = Some ''u:u|i:i'', si_Source = Some ''1''\<rparr>"
  let ?u = "inb_Users ?i ! 0"
  have i: "?i \<in> set (ds_Inbounds one_user)" by (simp add: one_user_def)
  have key: "user_key (?i, ?u) = ''u:u|i:i''" by code_simp
  have ctx: "xnode_email ?ctx = user_key (?i, ?u)" "xnode_source_ip ?ctx = ''1''"
    unfolding key by (simp_all add: xnode_email_def xnode_source_ip_def)
  have "distinct (map user_key (all_users one_user))" and drain: "ds_Mode one_user \<noteq> ''draining''"
    by (simp_all add: one_user_def all_users_def zero_defs)
  moreover have "time_sub (rd_now ?r) (rd_now ?r) < second_ns"
    by (simp add: reading_of_def time_sub_def second_ns_def)
  ultimately have enters: "fst (xnode_admit ?r ?r 0 ?ctx start_limiter) = None \<longleftrightarrow>
      ds_Mode one_user \<noteq> ''draining'' \<and> admissible [] [] 0 ?i ?u \<and> device_ok (admissible [] [] 0 ?i) (inb_Users ?i) 0
      \<and> room (user_policy ?i ?u) (user_key (?i, ?u)) (xnode_source_ip ?ctx) {#}"
    by (intro admission_end_to_end [OF limiter_run.start i _ _ _ _ ctx(1) reading_of_finds])
      (simp_all only: key old_users_def option.case go_ok_Nil, simp_all)
  have "admissible [] [] 0 ?i ?u" "device_ok (admissible [] [] 0 ?i) (inb_Users ?i) 0" by code_simp+
  moreover have "room (user_policy ?i ?u) (user_key (?i, ?u)) (xnode_source_ip ?ctx) {#}"
    unfolding key ctx(2) by (simp add: room_def user_policy_def zero_defs)
  ultimately show ?thesis unfolding enters using drain by (intro conjI)
qed

end
