(* ===== verification/Handshake.thy ===== *)
theory Handshake
  imports Limiter Process
begin

text \<open>
  How the agent learns that the core is patched: it names the policy file in the environment of the process it starts, and the
  limiter in the core, which reads the policies from there, leaves a marker beside it.
\<close>

lemma started_without_marker:
  assumes "start_locked e m = (None, m')" and "mg_LimitsFile m \<noteq> []"
  shows "go_get (mg_files m') (marker_path m) = None \<and> same_paths m m'"
proof -
  let ?m = "m\<lparr>mg_files := go_delete (marker_path m) (mg_files m)\<rparr>"
  let ?c = "\<lparr>cm_config = go_get (mg_files ?m) (mg_Config ?m), cm_alive = True\<rparr>"
  show ?thesis
    using assms is_running_frame [where e = e and m = "(tick ?m)\<lparr>mg_cmd := Some ?c\<rparr>"]
    by (auto simp: start_locked_def Let_def case_prod_unfold same_paths_def tick_def map_simps split: option.splits bool.splits)
qed

text \<open>
  Claim C33. The marker of a patched core. A process that was just started has no marker: that of an earlier process is
  gone. Once a package initialization has run in the environment the manager gives its processes, \<^verbatim>\<open>CorePatchReady\<close>
  is true exactly if it could write the marker (a core without the patch writes none), and the limiter
  reads the file that the agent writes. (\<^verbatim>\<open>xray run -test\<close> gets that environment too, so the marker tells of the binary
  that ran last, which may be newer than the process that serves.)
\<close>

theorem core_patch_handshake:
  assumes "start_locked e m = (None, m')" and "mg_LimitsFile m \<noteq> []" and "\<not> os_marker e (mg_clock m')"
  shows "\<not> fst (core_patch_ready e m')
    \<and> (let path = getenv (command_env m environ) ''XNODE_LIMITS_FILE''
       in path = mg_LimitsFile m \<and> (fst (core_patch_ready e (m'\<lparr>mg_files := xnode_init ok path (mg_files m')\<rparr>)) \<longleftrightarrow> ok))"
  using started_without_marker [OF assms(1,2)] assms(2,3)
  by (simp add: getenv_command_env core_patch_ready_def same_paths_def marker_path_def xnode_init_def map_simps)

theorem core_patch_handshake_witness:
  "\<exists>m'. start_locked ex_os (ex_manager [(''l.core-ready'', [])]) = (None, m') \<and> \<not> fst (core_patch_ready ex_os m')
     \<and> fst (core_patch_ready ex_os (m'\<lparr>mg_files := xnode_init True
         (getenv (command_env (ex_manager [(''l.core-ready'', [])]) [''A=b'']) ''XNODE_LIMITS_FILE'') (mg_files m')\<rparr>))"
proof -
  let ?m = "ex_manager [(''l.core-ready'', [])]"
  have "fst (start_locked ex_os ?m) = None" by code_simp
  then obtain m' where m': "start_locked ex_os ?m = (None, m')" by (metis prod.collapse)
  have quiet: "\<not> os_marker ex_os (mg_clock m')" and named: "mg_LimitsFile ?m \<noteq> []" by (simp_all add: ex_os_def ex_manager_def)
  from core_patch_handshake [OF m' named quiet, of "[''A=b'']" True] m'
  show ?thesis unfolding Let_def by blast
qed

end
