(* ===== verification/Lifecycle.thy ===== *)
theory Lifecycle
  imports Operation
begin

text \<open>
  What one synchronisation leaves for the next: the state that is read back from the file, the
  plan that starts from it, what becomes of a hot reload that failed, and of a policy that cannot be written.
\<close>

section \<open>The plan from the saved state\<close>

lemma json_state_Inr:
  assumes "json_state f s = Inr s'"
  shows "list_all2 (\<lambda>r r'. f r = Inr r') (ds_Outbounds s) (ds_Outbounds s')"
    and "json_raw f (ds_Routing s) = Inr (ds_Routing s')" and "json_raw f (ds_DNS s) = Inr (ds_DNS s')"
    and "ds_Inbounds s' = map json_inbound (ds_Inbounds s)"
    and "ds_Enabled s' = ds_Enabled s" and "ds_Mode s' = ds_Mode s"
  using assms by (auto simp: json_state_def collect_map_Inr split: sum.splits)

lemma json_inbound_frame [simp]:
  "inb_ID (json_inbound i) = inb_ID i" "inb_Users (json_inbound i) = inb_Users i" "inb_Tag (json_inbound i) = inb_Tag i"
  "inb_Protocol (json_inbound i) = inb_Protocol i"
  by (simp_all add: json_inbound_def)

lemma json_users: "ds_Inbounds s' = map json_inbound (ds_Inbounds s) \<Longrightarrow>
    all_users s' = map (\<lambda>iu. (json_inbound (fst iu), snd iu)) (all_users s)"
  by (simp add: all_users_def map_concat comp_def)

lemma json_routes:
  assumes "ds_Inbounds s' = map json_inbound (ds_Inbounds s)"
  shows "collect_routes s' = collect_routes s" and "active_levels s' = active_levels s"
  by (simp_all add: collect_routes_def active_levels_def json_users [OF assms] filter_map comp_def case_prod_unfold foldl_map cong: if_cong)

text \<open>The inbounds that come back from the file as others: a map that is empty, but there.\<close>

definition has_empty_map :: "managed_inbound \<Rightarrow> bool" where
  "has_empty_map i \<longleftrightarrow> inb_Settings i = Some [] \<or> inb_StreamSettings i = Some [] \<or> inb_Sniffing i = Some []"

lemma json_base_equal: "inbound_base_equal (json_inbound i) i \<longleftrightarrow> \<not> has_empty_map i"
  by (cases i) (auto simp: inbound_base_equal_def json_inbound_def has_empty_map_def omit_empty_def)

lemma json_messages:
  assumes "list_all2 (\<lambda>r r'. f r = Inr r') rs rs'" and "\<And>r r'. f r = Inr r' \<Longrightarrow> bytes_json_equal unm r' r"
  shows "raw_messages_equal unm rs' rs"
  using assms by (auto simp: raw_messages_equal_def list_all2_conv_all_nth)

lemma json_raw_equal:
  "json_raw f r = Inr r' \<Longrightarrow> (\<And>r r'. f r = Inr r' \<Longrightarrow> bytes_json_equal unm r' r) \<Longrightarrow> bytes_json_equal unm r' r"
  by (auto simp: json_raw_def split: if_splits)

lemma saved_plan:
  assumes "json_state f s = Inr s'" and "distinct (map inb_ID (ds_Inbounds s))"
    and "\<And>r r'. f r = Inr r' \<Longrightarrow> bytes_json_equal unm r' r"
  shows "plan_runtime unm s' s = \<lparr>plan_Operations =
      map (\<lambda>i. ReplaceInbound (inb_Tag i) i)
        (filter has_empty_map (ds_Inbounds s)),
      plan_RequiresRestart = False, plan_Reason = []\<rparr>"
proof -
  note js = json_state_Inr [OF assms(1)]
  have ids: "map inb_ID (ds_Inbounds s') = map inb_ID (ds_Inbounds s)" by (simp add: js(4))
  have global: "runtime_global_equal unm s' s"
    unfolding runtime_global_equal_def managed_routing_equal_def json_routes(1) [OF js(4)]
    using json_messages [OF js(1) assms(3)] json_raw_equal [OF js(2) assms(3)] json_raw_equal [OF js(3) assms(3)] by blast
  have levels: "find (\<lambda>(i, u). usr_Enabled u \<and> go_get (active_levels s') (usr_Level u) = None) (all_users s) = None"
    using active_levels_get [of _ _ s] by (auto simp: find_None_iff json_routes(2) [OF js(4)])
  have removals: "plan_removals (ds_Inbounds s') (ds_Inbounds s) = []"
    by (auto simp: js(4) plan_removals_def filter_empty_conv inbound_by_id_None simp del: not_None_eq)
  have "plan_inbound (inbound_by_id (ds_Inbounds s')) i = (if has_empty_map i then [ReplaceInbound (inb_Tag i) i] else [])"
    if "i \<in> set (ds_Inbounds s)" for i
  proof -
    have "json_inbound i \<in> set (ds_Inbounds s')" using that by (simp add: js(4))
    with assms(2) have "go_get (inbound_by_id (ds_Inbounds s')) (inb_ID (json_inbound i)) = Some (json_inbound i)"
      by (subst inbound_by_id_get) (simp_all add: ids)
    then show ?thesis
      by (simp add: plan_inbound_def json_base_equal users_runtime_equal_refl)
  qed
  then have "concat (map (plan_inbound (inbound_by_id (ds_Inbounds s'))) (ds_Inbounds s))
      = concat (map (\<lambda>i. if has_empty_map i then [ReplaceInbound (inb_Tag i) i] else []) (ds_Inbounds s))"
    by (simp cong: map_cong)
  also have "concat (map (\<lambda>i. if has_empty_map i then [ReplaceInbound (inb_Tag i) i] else []) ins)
      = map (\<lambda>i. ReplaceInbound (inb_Tag i) i) (filter has_empty_map ins)" for ins
    by (induction ins) auto
  finally show ?thesis
    by (simp add: plan_runtime_def global levels removals)
qed

text \<open>
  Claim C31. What an unchanged state costs. Let a state be saved and read back, by an encoder that
  keeps the meaning of raw messages, and let the panel ask for the same state again. Then the plan needs no
  restart, and its operations replace exactly the inbounds that carry a settings, stream or
  sniffing map which is empty but present (\<^verbatim>\<open>omitempty\<close> drops it from the file, so it comes back as nil).
\<close>

theorem saved_state_plan:
  assumes "json_state f s = Inr s'" and "distinct (map inb_ID (ds_Inbounds s))"
    and "\<And>r r'. f r = Inr r' \<Longrightarrow> bytes_json_equal unm r' r"
  shows "plan_runtime unm s' s = \<lparr>plan_Operations =
      map (\<lambda>i. ReplaceInbound (inb_Tag i) i)
        (filter (\<lambda>i. inb_Settings i = Some [] \<or> inb_StreamSettings i = Some [] \<or> inb_Sniffing i = Some []) (ds_Inbounds s)),
      plan_RequiresRestart = False, plan_Reason = []\<rparr>"
  using saved_plan [OF assms] by (simp add: has_empty_map_def [abs_def])

theorem saved_state_plan_witness:
  "plan_Operations (plan_runtime (\<lambda>_. Inl [])
      (zero_state\<lparr>ds_Inbounds := [json_inbound (zero_inbound\<lparr>inb_ID := ''i'', inb_Tag := ''t'', inb_Settings := Some []\<rparr>)]\<rparr>)
      (zero_state\<lparr>ds_Inbounds := [zero_inbound\<lparr>inb_ID := ''i'', inb_Tag := ''t'', inb_Settings := Some []\<rparr>]\<rparr>))
    = [ReplaceInbound ''t'' (zero_inbound\<lparr>inb_ID := ''i'', inb_Tag := ''t'', inb_Settings := Some []\<rparr>)]"
proof -
  let ?i = "zero_inbound\<lparr>inb_ID := ''i'', inb_Tag := ''t'', inb_Settings := Some []\<rparr>"
  have "json_state Inr (zero_state\<lparr>ds_Inbounds := [?i]\<rparr>) = Inr (zero_state\<lparr>ds_Inbounds := [json_inbound ?i]\<rparr>)"
    by (simp add: json_state_def json_raw_def zero_state_def)
  from saved_state_plan [OF this, of "\<lambda>_. Inl []"] show ?thesis by simp
qed

section \<open>A hot reload that fails\<close>

lemma store_config_cmd: "mg_cmd (snd (store_config sha e c m)) = mg_cmd m"
  by (simp add: store_config_def case_prod_unfold write_config_def write_backup_def write_file_cmd split: option.split)

lemma xray_running_cmd: "fst (xray_running e a) \<Longrightarrow> mg_cmd (ag_Xray (snd (xray_running e a))) = mg_cmd (ag_Xray a)"
  using is_running_True [of "en_os e" "ag_Xray a" "snd (is_running (en_os e) (ag_Xray a))"]
  by (auto simp: xray_running_def with_manager_def prod_eq_iff)

lemma hot_reload_cmd: "mg_cmd (ag_Xray (snd (hot_reload e plan content a))) = mg_cmd (ag_Xray a)"
  by (simp add: hot_reload_def case_prod_unfold frame store_config_cmd split: option.split sum.split)

text \<open>A process that is neither started nor stopped keeps serving what it serves.\<close>

definition steady :: "('x, 'p, 'l) sync_env \<Rightarrow> bool" where
  "steady e \<longleftrightarrow> (\<forall>m m' x. mg_cmd m' = mg_cmd m \<longrightarrow> en_settle e m m' x = x)"

lemma with_manager_serving:
  "steady e \<Longrightarrow> mg_cmd (snd rm) = mg_cmd (ag_Xray a) \<Longrightarrow> ag_serving (snd (with_manager e rm a)) = ag_serving a"
  by (simp add: with_manager_def steady_def)

lemma hot_reload_nothing:
  assumes "steady e" and "plan_Operations plan = []" and "\<not> plan_RequiresRestart plan"
  shows "ag_serving (snd (hot_reload e plan content a)) = ag_serving a"
  using assms
  by (simp add: hot_reload_def case_prod_unfold apply_runtime_def frame with_manager_serving store_config_cmd
      split: option.split sum.split)

lemma reconcile_hot:
  assumes "fst (xray_running e a)" and "ds_Enabled prev" and "\<not> switched_mode (ds_Mode prev)"
    and "\<not> plan_RequiresRestart (plan_runtime (en_unmarshal e) prev s)"
  shows "reconcile e (Some prev) s content a
    = (None, snd (hot_reload e (plan_runtime (en_unmarshal e) prev s) content (snd (xray_running e a))))"
  using assms by (simp add: reconcile_def case_prod_unfold hot_path_def Let_def)


text \<open>An agent whose Xray runs, a machine on which no configuration passes the test, and a state with a new inbound.\<close>

definition busy_agent :: "(unit, traffic_batch set, unit) agent" where
  "busy_agent = idle_agent\<lparr>ag_Xray := (ag_Xray idle_agent)\<lparr>mg_cmd := Some \<lparr>cm_config = Some ''c1'', cm_alive = True\<rparr>\<rparr>\<rparr>"

definition failing_env :: "(unit, traffic_batch set, unit) sync_env" where
  "failing_env = ready_env\<lparr>en_os := ex_os\<lparr>os_test := \<lambda>_ _. Some ''bad''\<rparr>\<rparr>"

definition grown_state :: desired_state where
  "grown_state = ready_state\<lparr>ds_Inbounds := [zero_inbound\<lparr>inb_ID := ''i'', inb_Tag := ''t''\<rparr>]\<rparr>"


section \<open>A policy that cannot be written\<close>

lemma write_policy_fault:
  assumes "cfg_XrayLimitsFile (ag_Cfg a) \<noteq> []" and "we_fault (en_policy_write e) st \<noteq> None"
    and "we_temp (en_policy_write e) \<noteq> cfg_XrayLimitsFile (ag_Cfg a)"
  shows "\<exists>err. fst (write_policy e s a) = Some err"
    and "go_get (ag_policies (snd (write_policy e s a))) (cfg_XrayLimitsFile (ag_Cfg a)) = go_get (ag_policies a) (cfg_XrayLimitsFile (ag_Cfg a))"
proof -
  let ?p = "cfg_XrayLimitsFile (ag_Cfg a)"
  define c where "c = Doc (policy_doc s (en_now e) (if en_policy_unreadable e then None else go_get (ag_policies a) ?p))"
  let ?w = "atomic_write (en_policy_write e) ?p c (ag_policies a)"
  have eq: "write_policy e s a = (fst ?w, a\<lparr>ag_policies := last (snd ?w)\<rparr>)"
    using assms(1) by (simp add: write_policy_def write_core_policy_def case_prod_unfold c_def)
  have "st \<in> {Mkdir, CreateTemp, Chmod, Write, Sync, Close, Rename}" by (cases st) simp_all
  with assms(2) have w: "fst ?w \<noteq> None" unfolding atomic_write_ok by metis
  then show "\<exists>err. fst (write_policy e s a) = Some err" by (simp add: eq)
  show "go_get (ag_policies (snd (write_policy e s a))) ?p = go_get (ag_policies a) ?p"
    using w atomic_write_final [OF assms(3) assms(3) [symmetric], of c "ag_policies a"] by (simp only: eq if_False simp_thms) simp
qed

lemma sync_desired_fault:
  assumes "cfg_XrayLimitsFile (ag_Cfg b) \<noteq> []" and "we_fault (en_policy_write e) st \<noteq> None"
    and "we_temp (en_policy_write e) \<noteq> cfg_XrayLimitsFile (ag_Cfg b)"
  obtains err msg c where "sync_desired e ss rs ps u d b = fail e msg err c"
    and "ag_Xray c = ag_Xray b" and "ag_states c = ag_states b"
    and "go_get (ag_policies c) (cfg_XrayLimitsFile (ag_Cfg b)) = go_get (ag_policies b) (cfg_XrayLimitsFile (ag_Cfg b))"
proof (cases "validate_mode (ds_Mode d)")
  case (Some err)
  then show thesis by (intro that [of err err b]) (simp_all add: sync_desired_def)
next
  case None
  let ?s = "ev_State (evaluate (localize ss d) rs u (en_now e))"
  let ?b = "set_drain_ready ?s (set_node_metadata ?s b)"
  have b: "ag_Cfg ?b = ag_Cfg b" "ag_policies ?b = ag_policies b" "ag_states ?b = ag_states b" "ag_Xray ?b = ag_Xray b"
    by (simp_all add: frame set_node_metadata_def set_drain_ready_def Let_def)
  note w = write_policy_fault [of ?b e st ?s, unfolded b, OF assms]
  obtain err where err: "fst (write_policy e ?s ?b) = Some err" using w(1) by blast
  show thesis
  proof (rule that [of "''write strict limits: '' @ err" err "snd (write_policy e ?s ?b)"])
    show "sync_desired e ss rs ps u d b = fail e (''write strict limits: '' @ err) err (snd (write_policy e ?s ?b))"
      using None err by (simp add: sync_desired_def Let_def case_prod_unfold)
  qed (simp_all add: frame w(2) b)
qed

text \<open>
  Claim C12. Xray never runs ahead of its policy. Where strict limits are configured and any call of writing the policy
  file fails, the synchronisation fails with an error and the node reports that it is unhealthy; Xray, its files and the saved state stay
  as they were and the core goes on reading the old policy. This holds for every answer of the panel: a node
  that is switched off keeps serving until the policy can be written.
\<close>

theorem unwritten_policy_stops_sync:
  assumes "cfg_XrayLimitsFile (ag_Cfg a) \<noteq> []" and "we_fault (en_policy_write e) st \<noteq> None"
    and "we_temp (en_policy_write e) \<noteq> cfg_XrayLimitsFile (ag_Cfg a)"
  shows "(\<exists>err. fst (sync e a) = Failed err) \<and> fst (healthz (agent_status (snd (sync e a)))) = 503
    \<and> runs (snd (sync e a)) = runs a \<and> mg_files (ag_Xray (snd (sync e a))) = mg_files (ag_Xray a)
    \<and> ag_states (snd (sync e a)) = ag_states a
    \<and> go_get (ag_policies (snd (sync e a))) (cfg_XrayLimitsFile (ag_Cfg a)) = go_get (ag_policies a) (cfg_XrayLimitsFile (ag_Cfg a))"
proof -
  let ?same = "\<lambda>b. runs b = runs a \<and> mg_files (ag_Xray b) = mg_files (ag_Xray a) \<and> ag_states b = ag_states a
    \<and> go_get (ag_policies b) (cfg_XrayLimitsFile (ag_Cfg a)) = go_get (ag_policies a) (cfg_XrayLimitsFile (ag_Cfg a))"
  have kept: "?same b" if "in_force b = in_force a" for b using that by (simp add: in_force_def)
  have "\<exists>msg err b. sync e a = fail e msg err b \<and> ?same b"
  proof (cases rule: sync_cases [of e a])
    case (failed msg err b)
    show ?thesis by (rule exI [of _ msg], rule exI [of _ err], rule exI [of _ b]) (rule conjI [OF failed(1) kept [OF failed(2)]])
  next
    case (answered ss rs u d b)
    note b = kept [OF answered(2)]
    obtain err msg c where c: "sync_desired e (load_state e a) ss rs u d b = fail e msg err c" "ag_Xray c = ag_Xray b" "ag_states c = ag_states b"
      "go_get (ag_policies c) (cfg_XrayLimitsFile (ag_Cfg b)) = go_get (ag_policies b) (cfg_XrayLimitsFile (ag_Cfg b))"
      using assms sync_desired_fault [of b e st "load_state e a" ss rs u d] unfolding answered(4) by blast
    have "?same c" using b c(2-4) answered(4) by simp
    with answered(1) c(1) show ?thesis by metis
  qed
  then obtain msg err b where s: "sync e a = fail e msg err b" and b: "?same b" by blast
  have "in_force (snd (sync e a)) = in_force b" by (simp add: s frame)
  then have "?same (snd (sync e a))" using b by (simp add: in_force_def)
  then show ?thesis by (simp add: s frame healthz_def agent_status_def)
qed

text \<open>The panel switches the node off, and the disk is full.\<close>

definition full_env :: "(unit, traffic_batch set, unit) sync_env" where
  "full_env = (answer_env (zero_state\<lparr>ds_Mode := ''maintenance''\<rparr>))
     \<lparr>en_policy_write := \<lparr>we_temp = ''t'', we_partial = Junk [], we_fault = (\<lambda>st. if st = Write then Some ''no space left on device'' else None)\<rparr>\<rparr>"

theorem unwritten_policy_stops_sync_witness:
  "(\<exists>err. fst (sync full_env idle_agent) = Failed err) \<and> go_get (ag_policies (snd (sync full_env idle_agent))) ''l'' = None"
  using unwritten_policy_stops_sync [of idle_agent full_env Write]
  by (simp add: full_env_def idle_agent_def new_agent_def)

end
