(* ===== verification/Run.thy ===== *)
theory Run
  imports Operation
begin

text \<open>
  A run of the agent: what the synchronisations of \<^verbatim>\<open>Run\<close>, one after the other, keep of the traffic that
  was taken from Xray's counters, how a node outlives an outage of its panel, and how the run ends.
\<close>

section \<open>Requests that are not about traffic\<close>

text \<open>The books after some requests that carry no batch.\<close>

definition only_asks :: "'p panel_env \<Rightarrow> 'p books \<Rightarrow> 'p books \<Rightarrow> bool" where
  "only_asks P s s' \<longleftrightarrow> (\<forall>c node p0 D. billed P c node p0 D s \<longrightarrow> billed P c node p0 D s')"

lemma only_asks_refl [simp]: "only_asks P s s"
  by (simp add: only_asks_def)

lemma only_asks_trans [trans]: "only_asks P s s' \<Longrightarrow> only_asks P s' s'' \<Longrightarrow> only_asks P s s''"
  by (simp add: only_asks_def)

lemma panel_do_asks:
  assumes "\<And>b. body \<noteq> Some (PTraffic b)"
  shows "only_asks P s (s\<lparr>bk_panel := snd (panel_do P c meth path body (bk_panel s))\<rparr>)"
proof (cases "Option.bind body (pe_marshal P)")
  case None
  obtain x p where send: "pe_send P (panel_request_of c meth path body) (bk_panel s) = (x, p)" by (rule prod.exhaust)
  have "prq_Body (panel_request_of c meth path body) = body" by (simp add: panel_request_of_def)
  with assms have "billed P c' node p0 D (s\<lparr>bk_panel := p\<rparr>)" if "billed P c' node p0 D s" for c' node p0 D
    using billed.other [OF that send] by simp
  then have "only_asks P s (s\<lparr>bk_panel := p\<rparr>)" by (simp add: only_asks_def)
  moreover have "snd (panel_do P c meth path body (bk_panel s)) = p"
    using None send by (auto simp: panel_do_def split: sum.split)
  ultimately show ?thesis by simp
qed (simp add: panel_do_def)

lemma post_asks:
  "(\<And>b. body \<noteq> PTraffic b) \<Longrightarrow> only_asks P s (s\<lparr>bk_panel := snd (post P c path body (bk_panel s))\<rparr>)"
  using panel_do_asks [of "Some body" P s c "''POST''" path]
  by (simp add: post_def case_prod_unfold split: sum.split)

lemma fetch_asks: "only_asks P s (s\<lparr>bk_panel := snd (fetch_desired_state P c node (bk_panel s))\<rparr>)"
  using panel_do_asks [of None P s c "''GET''" "node_path node ''/desired-state''"]
  by (simp add: fetch_desired_state_def case_prod_unfold split: sum.split)

section \<open>The books after the traffic\<close>

lemma books_frame [frame]:
  "ag_books (snd (session_snapshot e a)) = ag_books a"
  "ag_books (set_node_metadata s a) = ag_books a" "ag_books (set_drain_ready s a) = ag_books a"
  "ag_books (snd (write_policy e s a)) = ag_books a" "ag_books (snd (persist_state e s a)) = ag_books a"
  "ag_books (external_limits e s a) = ag_books a" "ag_books (xray_stop e a) = ag_books a"
  by (simp_all add: session_snapshot_def set_node_metadata_def set_drain_ready_def write_policy_def persist_state_def
      external_limits_def xray_stop_def Let_def case_prod_unfold frame split: option.split sum.split bool.split)

lemma reconcile_books [frame]: "ag_books (snd (reconcile e prev s c a)) = ag_books a"
  by (simp add: reconcile_def hot_path_def hot_reload_def force_config_def cold_path_def Let_def case_prod_unfold frame
      split: option.split sum.split bool.split)

lemma check_api_books [frame]: "ag_books (snd (check_api e a)) = ag_books a"
  by (simp add: check_api_def api_health_def case_prod_unfold frame split: option.split)

lemma with_panel_books: "ag_books (snd (with_panel rp a)) = (ag_books a)\<lparr>bk_panel := snd rp\<rparr>"
  by (simp add: with_panel_def)

lemma report_sessions_asks: "only_asks (en_panel e) (ag_books a) (ag_books (report_sessions e rs vs a))"
  by (simp add: report_sessions_def with_panel_books post_sessions_def post_asks)

lemma send_heartbeat_asks: "only_asks (en_panel e) (ag_books a) (ag_books (send_heartbeat e h msg api a))"
proof -
  obtain m sampler where m: "health_snapshot (en_proc e) (en_heartbeat_at e) (ag_Metrics a) = (m, sampler)" by (rule prod.exhaust)
  obtain r a1 where r: "xray_running e (a\<lparr>ag_Metrics := sampler\<rparr>) = (r, a1)" by (rule prod.exhaust)
  have "ag_books a1 = ag_books a" using xray_running_frame(4) [of e "a\<lparr>ag_Metrics := sampler\<rparr>"] by (simp add: r)
  then show ?thesis
    by (simp add: send_heartbeat_def m r Let_def with_panel_books post_heartbeat_def)
      (simp add: post_asks flip: \<open>ag_books a1 = ag_books a\<close>)
qed

lemma fail_asks: "only_asks (en_panel e) (ag_books a) (ag_books (snd (fail e msg err a)))"
  by (simp add: fail_def send_heartbeat_asks)

lemma finish_asks: "only_asks (en_panel e) (ag_books a) (ag_books (snd (finish_sync e s vs th strict rs api a)))"
proof -
  obtain ready a1 where r: "(if strict = [] then (True, a) else with_manager e (core_patch_ready (en_os e) (ag_Xray a)) a) = (ready, a1)"
    by (rule prod.exhaust)
  have "ag_books a1 = ag_books a"
    using r with_manager_frame(6) [of e "core_patch_ready (en_os e) (ag_Xray a)" a] by (auto split: if_splits)
  then have "only_asks (en_panel e) (ag_books a) (ag_books (report_sessions e rs vs (a1\<lparr>ag_strictReady := ready\<rparr>)))"
    using report_sessions_asks [of e "a1\<lparr>ag_strictReady := ready\<rparr>" rs vs] by simp
  also have "only_asks (en_panel e) \<dots> (ag_books (send_heartbeat e h msg api (snd (persist_state e s
      ((report_sessions e rs vs (a1\<lparr>ag_strictReady := ready\<rparr>))\<lparr>ag_stateVersion := v\<rparr>)))))" for h msg v
    using send_heartbeat_asks [of e "snd (persist_state e s ((report_sessions e rs vs (a1\<lparr>ag_strictReady := ready\<rparr>))\<lparr>ag_stateVersion := v\<rparr>))"]
    by (simp add: frame)
  finally show ?thesis by (simp add: finish_sync_def r Let_def)
qed

lemma sync_stopped_asks: "only_asks (en_panel e) (ag_books a) (ag_books (snd (sync_stopped e s vs strict rs a)))"
proof -
  let ?a1 = "snd (persist_state e s ((xray_stop e a)\<lparr>ag_strictReady := strict = [], ag_stateVersion := ds_Version s\<rparr>))"
  have "only_asks (en_panel e) (ag_books a) (ag_books (report_sessions e rs vs ?a1))"
    using report_sessions_asks [of e ?a1 rs vs] by (simp add: frame)
  also have "only_asks (en_panel e) \<dots> (ag_books (send_heartbeat e True (''node '' @ ds_Mode s) False (report_sessions e rs vs ?a1)))"
    by (rule send_heartbeat_asks)
  finally show ?thesis by (simp add: sync_stopped_def Let_def)
qed

lemma sync_active_asks: "only_asks (en_panel e) (ag_books a) (ag_books (snd (sync_active e prev s vs th strict rs a)))"
proof (cases "build_config (en_unmarshal e) s (cfg_XrayAPI (ag_Cfg a)) [cfg_XrayAccessLog (ag_Cfg a)]")
  case (Inl f)
  then show ?thesis by (cases f) (simp_all add: sync_active_def fail_asks)
next
  case (Inr doc)
  show ?thesis
  proof (cases "en_render e doc")
    case (Inl err)
    with Inr show ?thesis by (simp add: sync_active_def fail_asks)
  next
    case (Inr content)
    obtain r a1 where rec: "reconcile e prev s content a = (r, a1)" by (rule prod.exhaust)
    obtain q a2 where chk: "check_api e (external_limits e s a1) = (q, a2)" by (rule prod.exhaust)
    have "ag_books a1 = ag_books a" "ag_books a2 = ag_books a"
      using reconcile_books [of e prev s content a] check_api_books [of e "external_limits e s a1"] rec chk by (simp_all add: frame)
    then show ?thesis
      using fail_asks [of e a1] fail_asks [of e a2] finish_asks [of e a2 s vs th strict rs] Inr \<open>build_config _ _ _ _ = _\<close> rec chk
      by (cases r; cases q) (auto simp: sync_active_def)
  qed
qed

lemma sync_desired_asks: "only_asks (en_panel e) (ag_books a) (ag_books (snd (sync_desired e prev ss rs u d a)))"
proof (cases "validate_mode (ds_Mode d)")
  case None
  let ?s = "ev_State (evaluate (localize prev d) ss u (en_now e))"
  obtain r b where w: "write_policy e ?s (set_drain_ready ?s (set_node_metadata ?s a)) = (r, b)" by (rule prod.exhaust)
  have "ag_books b = ag_books a"
    using books_frame(4) [of e ?s "set_drain_ready ?s (set_node_metadata ?s a)"] w by (simp add: frame)
  then show ?thesis
    using fail_asks [of e b] sync_stopped_asks [of e b ?s] sync_active_asks [of e b prev ?s]
    by (cases r) (simp_all add: sync_desired_def None w Let_def)
qed (simp add: sync_desired_def fail_asks)

lemma sync_asks: "only_asks (en_panel e) (ag_books (sync_traffic e a)) (ag_books (snd (sync e a)))"
proof -
  obtain ss rs a1 where snap: "session_snapshot e (sync_traffic e a) = ((ss, rs), a1)" by (metis prod.exhaust)
  let ?a2 = "a1\<lparr>ag_onlineUsers := fst (counts ss), ag_trackedIPs := snd (counts ss)\<rparr>"
  let ?fetch = "fetch_desired_state (en_panel e) (client_of_agent ?a2) (cfg_NodeID (ag_Cfg ?a2)) (bk_panel (ag_books ?a2))"
  obtain x a3 where ans: "with_panel ?fetch ?a2 = (x, a3)" by (rule prod.exhaust)
  have "ag_books ?a2 = ag_books (sync_traffic e a)"
    using books_frame(1) [of e "sync_traffic e a"] by (simp add: snap)
  moreover have "ag_books a3 = (ag_books ?a2)\<lparr>bk_panel := snd ?fetch\<rparr>"
    using with_panel_books [of ?fetch ?a2] by (simp only: ans snd_conv)
  ultimately have a3: "only_asks (en_panel e) (ag_books (sync_traffic e a)) (ag_books a3)"
    using fetch_asks [of "en_panel e" "ag_books ?a2"] by simp
  also have "only_asks (en_panel e) (ag_books a3) (ag_books (snd (sync e a)))"
    using fail_asks [of e a3] sync_desired_asks [of e a3] ans
    by (cases x) (simp_all add: sync_def snap Let_def)
  finally show ?thesis .
qed

section \<open>The traffic of a synchronisation\<close>

text \<open>The batches that were in the spool at some moment of a synchronisation.\<close>

definition sync_spooled :: "('x, 'p, 'l) sync_env \<Rightarrow> ('x, 'p, 'l) agent \<Rightarrow> traffic_batch set" where
  "sync_spooled e a =
     (let tr = retry_traffic (en_panel e) (client_of_agent a) (en_list e) (en_delete e) (ag_books a);
          running = fst (xray_running e (a\<lparr>ag_books := last tr\<rparr>))
      in durable tr \<union> durable (snd (collect_traffic (en_panel e) (client_of_agent a) (cfg_NodeID (ag_Cfg a))
           (collection_of e a running) (last tr))))"

lemma retry_loop_fresh:
  "go_get (entries (bk_spool s)) k = None \<Longrightarrow> go_get (entries (bk_spool (last (retry_loop e c del bs s)))) k = None"
proof (induction e c del bs s rule: retry_loop.induct)
  case (2 e c del b bs s)
  obtain x p where x: "post_batch e c b (bk_panel s) = (x, p)" by (rule prod.exhaust)
  obtain y d where y: "spool_delete (del (bat_EventID b)) (bat_EventID b) (bk_spool s) = (y, d)" by (rule prod.exhaust)
  have "y = None \<Longrightarrow> go_get (entries d) k = None"
    using "2.prems" y by (auto simp: spool_delete_def entries_def map_simps split: option.splits if_splits)
  with 2 x y show ?case by (cases x; cases y) (auto simp: neq_Nil_conv elim: retry_loop.elims)
qed simp

lemma retry_fresh:
  "go_get (entries (bk_spool s)) k = None \<Longrightarrow> go_get (entries (bk_spool (last (retry_traffic e c r del s)))) k = None"
  by (simp add: retry_traffic_def retry_loop_fresh split: sum.split)

lemma retry_loop_nonempty [simp]: "retry_loop e c del bs s \<noteq> []"
  by (cases bs) (auto split: prod.split option.split)

lemma enqueue_nonempty: "snd (enqueue e b d) \<noteq> []"
  by (simp add: enqueue_def Let_def split: option.split)

lemma report_batch_nonempty: "snd (report_batch e c fault b s) \<noteq> []"
  by (simp add: report_batch_def case_prod_unfold split: option.split)

lemma collect_nonempty [simp]: "snd (collect_traffic e c node q s) \<noteq> []"
  by (simp add: collect_traffic_def Let_def case_prod_unfold enqueue_nonempty report_batch_nonempty
      split: option.split sum.split list.split)

lemma billed_retry:
  assumes "billed P c node p0 D s"
  shows "billed P c node p0 (D \<union> durable (retry_traffic P c r del s)) (last (retry_traffic P c r del s))"
proof -
  let ?tr = "retry_traffic P c r del s"
  have tr: "?tr \<noteq> []" by (simp add: retry_traffic_def split: sum.split)
  then have "take (Suc (length ?tr - 1)) ?tr = ?tr" "?tr ! (length ?tr - 1) = last ?tr" by (simp_all add: last_conv_nth)
  with billed.retried [OF assms refl, of "length ?tr - 1" r del] tr show ?thesis by simp
qed

lemma billed_collect:
  assumes "billed P c node p0 D s" and "go_get (entries (bk_spool s)) (batch_name (co_event q)) = None"
  shows "billed P c node p0 (D \<union> durable (snd (collect_traffic P c node q s))) (last (snd (collect_traffic P c node q s)))"
proof -
  let ?tr = "snd (collect_traffic P c node q s)"
  have "take (Suc (length ?tr - 1)) ?tr = ?tr" "?tr ! (length ?tr - 1) = last ?tr" by (simp_all add: last_conv_nth)
  with billed.collected [OF assms refl, of "length ?tr - 1"] show ?thesis by simp
qed

lemma sync_bills:
  assumes "billed (en_panel e) (client_of_agent a) (cfg_NodeID (ag_Cfg a)) p0 D (ag_books a)"
    and "go_get (entries (bk_spool (ag_books a))) (batch_name (en_event e)) = None"
  shows "billed (en_panel e) (client_of_agent a) (cfg_NodeID (ag_Cfg a)) p0 (D \<union> sync_spooled e a) (ag_books (snd (sync e a)))"
proof -
  let ?tr = "retry_traffic (en_panel e) (client_of_agent a) (en_list e) (en_delete e) (ag_books a)"
  obtain r a2 where run: "xray_running e (a\<lparr>ag_books := last ?tr\<rparr>) = (r, a2)" by (rule prod.exhaust)
  have a2: "ag_books a2 = last ?tr" using xray_running_frame(4) [of e "a\<lparr>ag_books := last ?tr\<rparr>"] by (simp add: run)
  have "go_get (entries (bk_spool (last ?tr))) (batch_name (co_event (collection_of e a r))) = None"
    using retry_fresh [OF assms(2)] by (simp add: collection_of_def)
  from billed_collect [OF billed_retry [OF assms(1)] this]
  have "billed (en_panel e) (client_of_agent a) (cfg_NodeID (ag_Cfg a)) p0 (D \<union> sync_spooled e a) (ag_books (sync_traffic e a))"
    by (simp add: sync_traffic_def sync_spooled_def run a2 Let_def Un_assoc)
  with sync_asks [of e a] show ?thesis by (simp add: only_asks_def)
qed

section \<open>A synchronisation keeps the configuration of the agent\<close>

lemma fail_cfg [frame]: "ag_Cfg (snd (fail e msg err a)) = ag_Cfg a"
  by (simp add: fail_def frame)

lemma finish_cfg [frame]: "ag_Cfg (snd (finish_sync e s vs th strict rs api a)) = ag_Cfg a"
  by (simp add: finish_sync_def Let_def case_prod_unfold frame)

lemma stopped_cfg [frame]: "ag_Cfg (snd (sync_stopped e s vs strict rs a)) = ag_Cfg a"
  by (simp add: sync_stopped_def Let_def frame xray_stop_def)

lemma active_cfg [frame]: "ag_Cfg (snd (sync_active e prev s vs th strict rs a)) = ag_Cfg a"
  by (simp add: sync_active_def case_prod_unfold frame split: sum.split failure.split option.split)

lemma desired_cfg [frame]: "ag_Cfg (snd (sync_desired e prev ss rs u d a)) = ag_Cfg a"
  by (simp add: sync_desired_def Let_def case_prod_unfold frame split: option.split)

lemma sync_cfg: "ag_Cfg (snd (sync e a)) = ag_Cfg a"
  by (cases rule: sync_cases [of e a]) (simp_all add: fail_cfg desired_cfg)

section \<open>Runs\<close>

definition sync_all :: "('x, 'p, 'l) sync_env list \<Rightarrow> ('x, 'p, 'l) agent \<Rightarrow> ('x, 'p, 'l) agent" where
  "sync_all es a = foldl (\<lambda>a e. snd (sync e a)) a es"

lemma sync_all_simps [simp]: "sync_all [] a = a" "sync_all (e # es) a = sync_all es (snd (sync e a))"
  by (simp_all add: sync_all_def)

text \<open>The batches that were in the spool at some moment of the synchronisations.\<close>

fun run_spooled :: "('x, 'p, 'l) sync_env list \<Rightarrow> ('x, 'p, 'l) agent \<Rightarrow> traffic_batch set" where
  "run_spooled [] a = {}"
| "run_spooled (e # es) a = sync_spooled e a \<union> run_spooled es (snd (sync e a))"

text \<open>All synchronisations meet one panel, and each draws an event id that no file of the spool has.\<close>

fun fresh_run :: "'p panel_env \<Rightarrow> ('x, 'p, 'l) sync_env list \<Rightarrow> ('x, 'p, 'l) agent \<Rightarrow> bool" where
  "fresh_run P [] a \<longleftrightarrow> True"
| "fresh_run P (e # es) a \<longleftrightarrow> en_panel e = P \<and> go_get (entries (bk_spool (ag_books a))) (batch_name (en_event e)) = None
     \<and> fresh_run P es (snd (sync e a))"

lemma run_bills:
  assumes "billed P (client_of_agent a) (cfg_NodeID (ag_Cfg a)) p0 D (ag_books a)" and "fresh_run P es a"
  shows "billed P (client_of_agent a) (cfg_NodeID (ag_Cfg a)) p0 (D \<union> run_spooled es a) (ag_books (sync_all es a))"
  using assms
proof (induction es arbitrary: a D)
  case (Cons e es)
  have c: "client_of_agent (snd (sync e a)) = client_of_agent a"
    by (rule client_of_agent_frame) (rule sync_cfg)
  have "billed P (client_of_agent a) (cfg_NodeID (ag_Cfg a)) p0 (D \<union> sync_spooled e a) (ag_books (snd (sync e a)))"
    using sync_bills [of e a p0 D] Cons.prems by simp
  from Cons.IH [of "snd (sync e a)", unfolded c sync_cfg, OF this] Cons.prems
  show ?case by (simp add: Un_assoc)
qed simp


text \<open>An agent that starts with a batch in its spool, and a panel whose replies are lost.\<close>

definition spooling_agent :: "(unit, traffic_batch set, unit) agent" where
  "spooling_agent = idle_agent\<lparr>ag_Cfg := (ag_Cfg idle_agent)\<lparr>cfg_PanelURL := ''https://panel/'', cfg_PanelToken := ''secret'', cfg_NodeID := ''n''\<rparr>,
     ag_books := \<lparr>bk_spool = Some [(''0b.json'', File (Doc (ex_batch ''0b'' 3)))], bk_panel = {ex_batch ''0b'' 3}\<rparr>\<rparr>"


section \<open>After an outage\<close>

text \<open>No request for the desired state gets a usable answer.\<close>

definition outage :: "('x, 'p, 'l) sync_env \<Rightarrow> ('x, 'p, 'l) agent \<Rightarrow> bool" where
  "outage e a \<longleftrightarrow> (\<forall>p d. fst (fetch_desired_state (en_panel e) (client_of_agent a) (cfg_NodeID (ag_Cfg a)) p) = Inr d
     \<longrightarrow> validate_mode (ds_Mode d) \<noteq> None)"

lemma outage_sync:
  assumes "outage e a"
  shows "in_force (snd (sync e a)) = in_force a \<and> fst (readyz (agent_status (snd (sync e a)))) = 503"
proof -
  have "\<exists>msg err b. sync e a = fail e msg err b \<and> in_force b = in_force a"
  proof (cases rule: sync_cases [of e a])
    case (failed msg err b)
    then show ?thesis by metis
  next
    case (answered ss rs u d b)
    with assms obtain err where "validate_mode (ds_Mode d) = Some err" unfolding outage_def by blast
    then have "sync e a = fail e err err b" by (simp add: answered(1) sync_desired_def)
    with answered(2) show ?thesis by metis
  qed
  then show ?thesis by (auto simp: frame readyz_def agent_status_def Let_def)
qed

lemma outage_run:
  "(\<And>e. e \<in> set es \<Longrightarrow> outage e a) \<Longrightarrow> in_force (sync_all es a) = in_force a \<and> ag_Cfg (sync_all es a) = ag_Cfg a"
proof (induction es arbitrary: a)
  case (Cons e es)
  have "outage e' (snd (sync e a))" if "e' \<in> set es" for e'
    using Cons.prems [of e'] that client_of_agent_frame [OF sync_cfg [of e a]] by (simp add: outage_def sync_cfg)
  from Cons.IH [OF this] outage_sync [of e a] Cons.prems [of e] show ?case by (simp add: sync_cfg)
qed simp

text \<open>
  Claim C8. The node outlives an outage of the panel. Let an agent start without an Xray process, let any number
  of synchronisations get no usable answer, and let the panel then ask for an active node, with a machine that causes
  no fault, a configuration that can be built and no patched core required. Then the node was not ready during the outage, and the next
  synchronisation leaves Xray running on the configuration that was asked for, and the node ready, whatever the
  earlier synchronisations met.
\<close>

theorem node_outlives_outage:
  assumes "\<And>e'. e' \<in> set es \<Longrightarrow> outage e' a" and "mg_cmd (ag_Xray a) = None" and "\<not> cfg_RequirePatchedCore (ag_Cfg a)"
    and "\<And>p. fst (fetch_desired_state (en_panel e) (client_of_agent a) (cfg_NodeID (ag_Cfg a)) p) = Inr d"
    and "validate_mode (ds_Mode d) = None" and "ds_Enabled d" and "\<not> switched_mode (ds_Mode d)"
    and "\<And>ss u. \<exists>doc. build_config (en_unmarshal e) (effective_state e a d ss u) (cfg_XrayAPI (ag_Cfg a))
        [cfg_XrayAccessLog (ag_Cfg a)] = Inr doc \<and> \<not> isl (en_render e doc)"
    and "healthy_os (en_os e)" and "names_apart (en_os e) (ag_Xray a)" and "\<And>st. we_fault (en_policy_write e) st = None"
  shows "(es \<noteq> [] \<longrightarrow> fst (readyz (agent_status (sync_all es a))) = 503)
    \<and> fst (sync e (sync_all es a)) = Done \<and> fst (readyz (agent_status (sync_all (es @ [e]) a))) = 200
    \<and> (\<exists>ss u doc content c. build_config (en_unmarshal e) (effective_state e a d ss u) (cfg_XrayAPI (ag_Cfg a))
          [cfg_XrayAccessLog (ag_Cfg a)] = Inr doc
        \<and> en_render e doc = Inr content \<and> en_sha e c = en_sha e content \<and> up c (ag_Xray (sync_all (es @ [e]) a)))"
proof -
  let ?b = "sync_all es a"
  have kept: "in_force ?b = in_force a" "ag_Cfg ?b = ag_Cfg a" using outage_run assms(1) by blast+
  have x: "mg_cmd (ag_Xray ?b) = None" "same_paths (ag_Xray a) (ag_Xray ?b)" "ag_states ?b = ag_states a"
    using kept(1) assms(2) by (simp_all add: in_force_def same_paths_def)
  have eff: "effective_state e ?b d ss u = effective_state e a d ss u" for ss u
    by (simp add: effective_state_def load_state_def x(3) kept(2))
  have apart: "names_apart (en_os e) (ag_Xray ?b)" using same_pathsD(4) [OF x(2)] assms(10) by simp
  have last: "sync_all (es @ [e]) a = snd (sync e ?b)" by (simp add: sync_all_def)
  have "fst (readyz (agent_status ?b)) = 503" if "es \<noteq> []"
  proof (cases es rule: rev_cases)
    case es: (snoc es' e')
    have out: "\<And>e. e \<in> set es' \<Longrightarrow> outage e a" using assms(1) es by simp
    have "outage e' (sync_all es' a)"
      using assms(1) [of e'] outage_run [OF out] client_of_agent_frame [of "sync_all es' a" a] by (simp add: es outage_def)
    from outage_sync [OF this] show ?thesis by (simp add: es sync_all_def)
  qed (use that in simp)
  moreover note sync_comes_up [of e ?b d, unfolded eff kept(2) client_of_agent_frame [OF kept(2)], OF assms(4-9) apart x(1) assms(11,3)]
  ultimately show ?thesis unfolding last by blast
qed

text \<open>The panel is down twice and then asks for an enabled node.\<close>

theorem node_outlives_outage_witness:
  "fst (readyz (agent_status (sync_all [down_env, down_env] idle_agent))) = 503
     \<and> fst (readyz (agent_status (sync_all [down_env, down_env, ready_env] idle_agent))) = 200"
proof -
  have "fst (fetch_desired_state (en_panel (down_env :: (unit, _, _) sync_env)) c n p) \<noteq> Inr d" for c n p d
    by (simp add: fetch_desired_state_def panel_do_def down_env_def demo_panel_def)
  then have out: "e' \<in> set [down_env, down_env] \<Longrightarrow> outage e' idle_agent" for e' by (auto simp: outage_def)
  have "validate_mode (ds_Mode ready_state) = None" "\<not> switched_mode (ds_Mode ready_state)"
    by (simp_all add: ready_state_simps validate_mode_def switched_mode_def)
  note good = this(1) ready_state_simps(1) this(2)
  have policy: "we_fault (en_policy_write ready_env) st = None" for st by (simp add: ready_env_simps)
  have start: "mg_cmd (ag_Xray idle_agent) = None" "\<not> cfg_RequirePatchedCore (ag_Cfg idle_agent)" by (simp_all add: idle_agent_simps)
  have "fst (readyz (agent_status (sync_all [down_env, down_env] idle_agent))) = 503 \<and>
      fst (readyz (agent_status (sync_all ([down_env, down_env] @ [ready_env]) idle_agent))) = 200"
    using node_outlives_outage [OF out start ready_fetch good ready_builds ready_os policy] by (simp only: list.distinct simp_thms)
  then show ?thesis by (simp only: append.simps)
qed

section \<open>The end of a run\<close>



end
