(* ===== verification/Documents.thy ===== *)
theory Documents
  imports Builder
begin

text \<open>
  The documents that are written for Xray are well-formed: at every depth an object has each key
  once, its keys in order. (Maps are kept as sorted association lists, so this is what makes the
  literals of the model maps.)
\<close>

function doc_ok :: "any \<Rightarrow> bool" where
  "doc_ok (AMap m) \<longleftrightarrow> go_ok m \<and> (\<forall>x \<in> set m. doc_ok (snd x))"
| "doc_ok (AArr xs) \<longleftrightarrow> (\<forall>x \<in> set xs. doc_ok x)"
| "doc_ok ANil \<longleftrightarrow> True"
| "doc_ok (ABool b) \<longleftrightarrow> True"
| "doc_ok (ANum q) \<longleftrightarrow> True"
| "doc_ok (AInt n) \<longleftrightarrow> True"
| "doc_ok (AStr s) \<longleftrightarrow> True"
  by pat_completeness auto

termination
proof (relation "measure size", goal_cases)
  case (2 m x)
  have "size (snd x) < Suc (size_list (\<lambda>x. Suc (size (snd x))) m)"
    using 2 by (induction m) auto
  then show ?case by (simp add: size_prod_def case_prod_unfold)
next
  case (3 xs x)
  then show ?case by (induction xs) auto
qed simp

definition obj_ok :: "obj \<Rightarrow> bool" where
  "obj_ok m \<longleftrightarrow> doc_ok (AMap m)"

lemma doc_ok_empty: "doc_ok (AMap [])" "doc_ok (AArr [])"
  by simp_all

lemma obj_ok_put: "obj_ok m \<Longrightarrow> doc_ok v \<Longrightarrow> obj_ok (go_put k v m)"
  using list_all_put [of "\<lambda>x. doc_ok (snd x)" m k v] by (auto simp: obj_ok_def go_ok_put list_all_iff)

lemma obj_ok_Nil [simp]: "obj_ok []"
  by (simp add: obj_ok_def)

lemma obj_ok_put_some: "obj_ok m \<Longrightarrow> (\<And>o'. v = Some o' \<Longrightarrow> obj_ok o') \<Longrightarrow> obj_ok (put_some k v m)"
  using obj_ok_def by (cases v) (auto simp: put_some_def intro!: obj_ok_put simp del: doc_ok.simps(1))

definition opt_ok :: "obj option \<Rightarrow> bool" where
  "opt_ok m \<longleftrightarrow> obj_ok (clone_map m)"

definition inbound_ok :: "managed_inbound \<Rightarrow> bool" where
  "inbound_ok i \<longleftrightarrow> opt_ok (inb_Settings i) \<and> opt_ok (inb_StreamSettings i) \<and> opt_ok (inb_Sniffing i)
     \<and> doc_ok (inb_Port i) \<and> (\<forall>u \<in> set (inb_Users i). opt_ok (usr_Credential u))"

lemma client_of_ok: "opt_ok (usr_Credential u) \<Longrightarrow> doc_ok (client_of i u)"
  unfolding client_of_def obj_ok_def [symmetric] opt_ok_def by (intro obj_ok_put) simp_all

lemma build_settings_ok: "inbound_ok i \<Longrightarrow> obj_ok (build_settings i)"
  by (auto simp: build_settings_def Let_def inbound_ok_def opt_ok_def [symmetric] client_of_ok intro!: obj_ok_put simp flip: opt_ok_def)

lemma inbound_document_ok:
  assumes "inbound_ok i" and "build_inbound i = Inr m"
  shows "obj_ok m"
proof -
  let ?m0 = "go_put ''port'' (inb_Port i) (go_put ''protocol'' (AStr (inb_Protocol i)) (go_put ''tag'' (AStr (inb_Tag i)) []))"
  let ?m1 = "if inb_Listen i \<noteq> [] then go_put ''listen'' (AStr (inb_Listen i)) ?m0 else ?m0"
  have maps: "obj_ok o'" if "inb_StreamSettings i = Some o' \<or> inb_Sniffing i = Some o'" for o'
    using assms(1) that by (auto simp: inbound_ok_def opt_ok_def clone_map_def split: option.splits)
  have settings: "doc_ok (AMap (build_settings i))" using build_settings_ok [OF assms(1)] by (simp only: obj_ok_def)
  have port: "doc_ok (inb_Port i)" using assms(1) by (simp add: inbound_ok_def)
  then have "obj_ok ?m0" by (intro obj_ok_put) simp_all
  then have "obj_ok ?m1" using obj_ok_put [of ?m0] by (simp del: go_put.simps)
  then have "obj_ok (put_some ''sniffing'' (inb_Sniffing i) (put_some ''streamSettings'' (inb_StreamSettings i)
      (go_put ''settings'' (AMap (build_settings i)) ?m1)))"
    using settings maps by (intro obj_ok_put_some obj_ok_put) blast+
  moreover have "m = put_some ''sniffing'' (inb_Sniffing i) (put_some ''streamSettings'' (inb_StreamSettings i)
      (go_put ''settings'' (AMap (build_settings i)) ?m1))"
    using assms(2) by (simp add: build_inbound_def Let_def del: go_put.simps split: if_split_asm)
  ultimately show ?thesis by simp
qed

lemma collect_mem: "collect (map f xs) = Inr ys \<Longrightarrow> y \<in> set ys \<Longrightarrow> \<exists>x \<in> set xs. f x = Inr y"
  by (induction xs arbitrary: ys) (auto split: sum.splits)

lemma build_inbounds_ok:
  assumes "\<And>i. i \<in> set (ds_Inbounds s) \<Longrightarrow> inbound_ok i" and "build_inbounds s = Inr ins" and "d \<in> set ins"
  shows "doc_ok d"
proof -
  obtain i where i: "i \<in> set (ds_Inbounds s)"
    and "(case build_inbound i of Inl e \<Rightarrow> Inl (wrap_error (''inbound '' @ inb_ID i) e) | Inr m \<Rightarrow> Inr (AMap m)) = Inr d"
    using collect_mem [OF assms(2) [unfolded build_inbounds_def] assms(3)] by blast
  then obtain m where "build_inbound i = Inr m" "d = AMap m" by (cases "build_inbound i") auto
  with i inbound_document_ok assms(1) show ?thesis by (metis obj_ok_def)
qed

text \<open>The literals.\<close>

lemma literals_ok:
  "doc_ok stats_level" "doc_ok (managed_rule i u)" "\<forall>d \<in> set default_outbounds. doc_ok d"
  by (simp_all add: stats_level_def managed_rule_def default_outbounds_def go_ok_def)

lemma stats_levels_ok: "obj_ok (stats_levels s)"
  unfolding stats_levels_def
  by (rule foldl_invariant) (auto simp: obj_ok_put literals_ok, simp add: obj_ok_def go_ok_def literals_ok)

lemma config_head_ok: "obj_ok (config_head s api logs)"
  using stats_levels_ok [of s]
  by (auto simp: config_head_def obj_ok_def go_ok_def split: list.split)

text \<open>The decoder of raw messages yields well-formed values.\<close>

definition decodes_ok :: "unmarshal \<Rightarrow> bool" where
  "decodes_ok unm \<longleftrightarrow> (\<forall>r v. unm r = Inr v \<longrightarrow> doc_ok v)"

lemma decodes_okD: "decodes_ok unm \<Longrightarrow> unm r = Inr v \<Longrightarrow> doc_ok v"
  by (simp add: decodes_ok_def)

lemma build_outbounds_ok:
  assumes "decodes_ok unm" and "build_outbounds unm s = Inr outs" and "d \<in> set outs"
  shows "doc_ok d"
proof (cases "ds_Outbounds s = []")
  case True
  with assms(2,3) literals_ok(3) show ?thesis by (auto simp: build_outbounds_def)
next
  case False
  with assms(2,3) obtain raw where "unm raw = Inr d"
    unfolding build_outbounds_def if_not_P [OF False] by (auto dest!: collect_mem split: sum.splits)
  with assms(1) show ?thesis by (simp add: decodes_ok_def)
qed

lemma build_routing_ok:
  assumes "decodes_ok unm" and "build_routing unm s = Inr r"
  shows "opt_ok r"
proof -
  have base: "opt_ok b" if "(if ds_Routing s \<noteq> [] then unmarshal_map unm (ds_Routing s) else Inr (Some [])) = Inr b" for b
    using that decodes_okD [OF assms(1), of "ds_Routing s"]
    by (auto simp: unmarshal_map_def opt_ok_def clone_map_def obj_ok_def doc_ok_empty simp del: doc_ok.simps(1)
        split: if_splits sum.splits any.splits)
  obtain b where b: "(if ds_Routing s \<noteq> [] then unmarshal_map unm (ds_Routing s) else Inr (Some [])) = Inr b"
    using assms(2) by (auto simp: build_routing_def split: sum.splits)
  let ?old = "case go_get (clone_map b) ''rules'' of Some (AArr rs) \<Rightarrow> rs | _ \<Rightarrow> []"
  have "doc_ok (AArr rs)" if "go_get (clone_map b) ''rules'' = Some (AArr rs)" for rs
    using base [OF b] map_of_SomeD [OF that] by (auto simp: opt_ok_def obj_ok_def simp del: doc_ok.simps(2))
  then have old: "doc_ok (AArr ?old)"
    by (cases "go_get (clone_map b) ''rules''") (auto simp del: doc_ok.simps(2) simp add: doc_ok_empty(2) split: any.split)
  moreover have "\<forall>x \<in> set (managed_rules s). doc_ok x" by (auto simp: managed_rules_def literals_ok)
  ultimately have "doc_ok (AArr (managed_rules s @ ?old))" unfolding doc_ok.simps by (auto split del: option.split)
  then show ?thesis
    using assms(2) base [OF b] b
    by (auto simp: build_routing_def Let_def opt_ok_def clone_map_def obj_ok_put
        simp del: doc_ok.simps go_put.simps split: if_splits option.splits)
qed



end
