(* ===== verification/Quota.thy ===== *)
theory Quota
  imports Stats Policy
begin

text \<open>
  The traffic that the panel has not counted yet, from Xray's counters to the quota: the counters are
  named after sanitized identities, the evaluator looks the usage up under the identities of the state.
\<close>

text \<open>The bytes of the counters whose identities sanitize to the given ones.\<close>

definition counted_bytes :: "counter list \<Rightarrow> string \<Rightarrow> string \<Rightarrow> int" where
  "counted_bytes cs uid iid =
     sum_list (map (\<lambda>(u, i, d, n). n) (filter (\<lambda>(u, i, d, n). sanitize u = uid \<and> sanitize i = iid \<and> 0 < n) cs))"

lemma bytes_for_counters:
  "list_all counter_ok cs \<Longrightarrow> bytes_for (map counter_record cs) (UsageKey uid iid) = counted_bytes cs uid iid"
proof (induction cs)
  case Nil
  show ?case by (simp add: bytes_for_def counted_bytes_def)
next
  case (Cons c cs)
  obtain u i d n where c: "c = (u, i, d, n)" by (cases c)
  have "counts_usage (counter_record c) \<longleftrightarrow> 0 < n" using Cons.prems by (auto simp: c counts_usage_def)
  moreover have "record_key (counter_record c) = UsageKey (sanitize u) (sanitize i)" and "rec_Value (counter_record c) = n"
    by (simp_all add: c record_key_def)
  ultimately show ?case using Cons by (simp add: bytes_for_def counted_bytes_def c del: counter_record.simps)
qed

lemma counted_bytes_unclean:
  assumes "sanitize uid \<noteq> uid \<or> sanitize iid \<noteq> iid"
  shows "counted_bytes cs uid iid = 0"
proof -
  have "(\<lambda>(u :: string, i :: string, d :: string, n :: int). sanitize u = uid \<and> sanitize i = iid \<and> 0 < n) = (\<lambda>_. False)"
    using assms by (auto simp: fun_eq_iff)
  then show ?thesis by (simp add: counted_bytes_def)
qed



end
