(* ===== verification/Convergence.thy ===== *)
theory Convergence
  imports Operation Reload
begin

text \<open>
  What Xray serves after a synchronisation. The manager starts processes, the hot reload changes a running one, and
  the operations in between must leave what is served alone; the locale \<open>quiet_stable\<close> collects what
  survives them.
\<close>

section \<open>Operations that start and stop nothing\<close>

definition quiet :: "('x, 'p, 'l) sync_env \<Rightarrow> manager \<Rightarrow> manager \<Rightarrow> bool" where
  "quiet e m m' \<longleftrightarrow> m' = m \<or> m' = snd (is_running (en_os e) m) \<or> m' = snd (api_healthy (en_os e) m)
     \<or> m' = snd (core_patch_ready (en_os e) m) \<or> (\<exists>c. m' = snd (validate_content (en_os e) c m))"

definition holds :: "(manager \<Rightarrow> 'x \<Rightarrow> bool) \<Rightarrow> ('x, 'p, 'l) agent \<Rightarrow> bool" where
  "holds P a \<longleftrightarrow> P (ag_Xray a) (ag_serving a)"

lemma holds_upd [simp]:
  "holds P (a\<lparr>ag_books := b\<rparr>) = holds P a" "holds P (a\<lparr>ag_Sessions := t\<rparr>) = holds P a"
  "holds P (a\<lparr>ag_onlineUsers := n\<rparr>) = holds P a" "holds P (a\<lparr>ag_trackedIPs := n\<rparr>) = holds P a"
  "holds P (a\<lparr>ag_Metrics := s\<rparr>) = holds P a" "holds P (a\<lparr>ag_lastHB := hb\<rparr>) = holds P a"
  "holds P (a\<lparr>ag_strictReady := r\<rparr>) = holds P a" "holds P (a\<lparr>ag_stateVersion := v\<rparr>) = holds P a"
  "holds P (a\<lparr>ag_policies := p\<rparr>) = holds P a" "holds P (a\<lparr>ag_states := st\<rparr>) = holds P a"
  "holds P (a\<lparr>ag_backend := l\<rparr>) = holds P a"
  by (simp_all add: holds_def)

lemma holds_other [simp]:
  "holds P (snd (with_panel rp a)) = holds P a" "holds P (set_node_metadata s a) = holds P a"
  "holds P (set_drain_ready s a) = holds P a" "holds P (snd (write_policy e s a)) = holds P a"
  "holds P (snd (persist_state e s a)) = holds P a" "holds P (external_limits e s a) = holds P a"
  "holds P (report_sessions e rs vs a) = holds P a"
  by (simp_all add: with_panel_def set_node_metadata_def set_drain_ready_def write_policy_def persist_state_def
      external_limits_def report_sessions_def Let_def case_prod_unfold holds_def split: option.split sum.split)

locale quiet_stable =
  fixes e :: "('x, 'p, 'l) sync_env"
    and P :: "manager \<Rightarrow> 'x \<Rightarrow> bool"
  assumes stable: "quiet e m m' \<Longrightarrow> P m x \<Longrightarrow> P m' (en_settle e m m' x)"
begin

lemma quiet_manager: "quiet e (ag_Xray a) (snd rm) \<Longrightarrow> holds P a \<Longrightarrow> holds P (snd (with_manager e rm a))"
  using stable by (simp add: holds_def with_manager_def)

lemma running: "holds P a \<Longrightarrow> holds P (snd (xray_running e a))"
  unfolding xray_running_def by (rule quiet_manager) (simp_all add: quiet_def)

lemma traffic: "holds P a \<Longrightarrow> holds P (sync_traffic e a)"
  using running [of "a\<lparr>ag_books := b\<rparr>" for b] by (simp add: sync_traffic_def Let_def case_prod_unfold)

lemma snapshot: "holds P a \<Longrightarrow> holds P (snd (session_snapshot e a))"
  using running [of "a\<lparr>ag_Sessions := t\<rparr>" for t]
  by (simp add: session_snapshot_def Let_def case_prod_unfold split: bool.split sum.split)

lemma heartbeat: "holds P a \<Longrightarrow> holds P (send_heartbeat e h msg api a)"
  using running [of "a\<lparr>ag_Metrics := s\<rparr>" for s] by (simp add: send_heartbeat_def Let_def case_prod_unfold)

lemma api: "holds P a \<Longrightarrow> holds P (snd (api_health e a))"
  unfolding api_health_def by (rule quiet_manager) (simp_all add: quiet_def)

lemma finish: "holds P a \<Longrightarrow> holds P (snd (finish_sync e s vs th strict rs ok a))"
  using quiet_manager [of a "core_patch_ready (en_os e) (ag_Xray a)"]
  by (auto simp: finish_sync_def Let_def case_prod_unfold quiet_def intro!: heartbeat)

text \<open>A synchronisation that gets an answer reaches the evaluation with everything that is stable.\<close>

lemma answered:
  assumes "\<And>p. fst (fetch_desired_state (en_panel e) (client_of_agent a) (cfg_NodeID (ag_Cfg a)) p) = Inr d" and "holds P a"
  obtains ss rs u b where "sync e a = sync_desired e (load_state e a) ss rs u d b" and "holds P b"
    and "ag_Cfg b = ag_Cfg a"
proof -
  obtain ss rs a1 where snap: "session_snapshot e (sync_traffic e a) = ((ss, rs), a1)" by (metis prod.exhaust)
  have a1: "ag_Cfg a1 = ag_Cfg a" "holds P a1"
    using session_snapshot_frame(3) [of e "sync_traffic e a"] snapshot [OF traffic [OF assms(2)]] by (simp_all add: snap frame)
  let ?a2 = "a1\<lparr>ag_onlineUsers := fst (counts ss), ag_trackedIPs := snd (counts ss)\<rparr>"
  let ?fetch = "fetch_desired_state (en_panel e) (client_of_agent a) (cfg_NodeID (ag_Cfg a)) (bk_panel (ag_books a1))"
  have client: "client_of_agent ?a2 = client_of_agent a" by (rule client_of_agent_frame) (simp add: a1)
  obtain y a3 where ans: "with_panel ?fetch ?a2 = (y, a3)" by (rule prod.exhaust)
  have a3: "y = Inr d" "holds P a3" "ag_Cfg a3 = ag_Cfg a"
    using with_panel_frame(1,4) [of ?fetch ?a2] holds_other(1) [of P ?fetch ?a2] a1 assms(1) by (simp_all add: ans)
  note sync = sync_def [of e a] snap Let_def client a1(1) ans a3(1)
  show thesis
    by (rule that [of ss rs _ a3]) (use a3(2,3) in \<open>auto simp: sync\<close>)
qed

end

lemma quiet_frame:
  assumes "quiet e m m'"
  shows "mg_files m' = mg_files m" and "same_paths m m'" and "mg_cmd m = None \<Longrightarrow> mg_cmd m' = None"
    and "healthy_os (en_os e) \<Longrightarrow> mg_cmd m = Some \<lparr>cm_config = c, cm_alive = True\<rparr> \<Longrightarrow> mg_cmd m' = mg_cmd m"
proof -
  have v: "mg_files (snd (validate_content (en_os e) c m)) = mg_files m" "mg_cmd (snd (validate_content (en_os e) c m)) = mg_cmd m"
    "same_paths m (snd (validate_content (en_os e) c m))" for c
    by (auto simp: validate_content_def validate_def split: option.split)
  have r: "mg_files (snd (is_running (en_os e) m)) = mg_files m" "same_paths m (snd (is_running (en_os e) m))"
    using is_running_frame [where e = "en_os e" and m = m] by simp_all
  have t: "mg_files (tick m') = mg_files m'" "mg_cmd (tick m') = mg_cmd m'" "same_paths m' (tick m')" for m'
    by (simp_all add: tick_def same_paths_def)
  have a: "mg_files (snd (api_healthy (en_os e) m)) = mg_files m" "same_paths m (snd (api_healthy (en_os e) m))"
    "mg_cmd (snd (api_healthy (en_os e) m)) = mg_cmd (snd (is_running (en_os e) m))"
    using r by (simp_all add: api_healthy_def case_prod_unfold same_paths_def tick_def split: bool.split)
  show "mg_files m' = mg_files m" and "same_paths m m'"
    using assms v r a t by (auto simp: quiet_def core_patch_ready_def same_paths_def)
  show "mg_cmd m' = None" if "mg_cmd m = None"
    using assms v a t that by (auto simp: quiet_def core_patch_ready_def is_running_none)
  show "mg_cmd m' = mg_cmd m" if "healthy_os (en_os e)" "mg_cmd m = Some \<lparr>cm_config = c, cm_alive = True\<rparr>"
    using assms v a t that by (auto simp: quiet_def core_patch_ready_def is_running_def Let_def healthy_os_def)
qed

text \<open>Where nothing runs, no quiet operation starts anything, and none touches the files of the manager.\<close>

interpretation idle: quiet_stable e "\<lambda>m x. mg_cmd m = None \<and> mg_files m = fs \<and> same_paths m0 m" for e fs m0
  by unfold_locales (auto dest: quiet_frame(1,3) quiet_frame(2) [THEN same_paths_trans [rotated]])

section \<open>What a process serves\<close>

text \<open>The inbounds of a configuration, served as Xray reads them: under a tag the first inbound that has it.\<close>

fun objects :: "any list \<Rightarrow> obj list" where
  "objects [] = []"
| "objects (AMap m # xs) = m # objects xs"
| "objects (_ # xs) = objects xs"

definition config_serving :: "any \<Rightarrow> serving" where
  "config_serving doc t =
     (case json_field ''inbounds'' doc of
        Some (AArr xs) \<Rightarrow> map_option served_of (find (\<lambda>m. tag_of m = t) (objects xs))
      | _ \<Rightarrow> None)"

lemma built_inbounds_serving:
  assumes "collect (map (\<lambda>i. case build_inbound i of Inl e \<Rightarrow> Inl (f i e) | Inr m \<Rightarrow> Inr (AMap m)) ins) = Inr xs"
  shows "map_option served_of (find (\<lambda>m. tag_of m = t) (objects xs)) = serving_of ins t"
proof -
  have "list_all2 (\<lambda>i x. \<exists>m. build_inbound i = Inr m \<and> x = AMap m) ins xs"
    using assms unfolding collect_map_Inr by (rule list_all2_mono) (auto split: sum.splits)
  then show ?thesis
  proof (induction rule: list_all2_induct)
    case (Cons i ins x xs)
    then obtain m where m: "build_inbound i = Inr m" "x = AMap m" by blast
    then have "tag_of m = inb_Tag i" by (simp add: tag_of_built)
    with m Cons.IH show ?case by (auto simp: served_inbound_def)
  qed simp
qed

lemma config_serves_state:
  assumes "build_config unm s api logs = Inr doc"
  shows "config_serving doc = serving_of (ds_Inbounds s)"
proof -
  from assms obtain xs where xs: "build_inbounds s = Inr xs" "json_field ''inbounds'' doc = Some (AArr xs)"
    by (auto simp: build_config_def Let_def map_simps split: sum.splits if_splits)
  from built_inbounds_serving [OF xs(1) [unfolded build_inbounds_def]] xs(2) show ?thesis
    by (simp add: config_serving_def fun_eq_iff)
qed

text \<open>
  What is assumed of Xray: looking at a process, testing and storing a configuration leave what is served alone, and a process that was
  started or restarted on a configuration file serves what the file holds. \<open>load\<close> is how Xray reads a file.
\<close>

definition settles :: "('x, 'p, 'l) sync_env \<Rightarrow> ('x \<Rightarrow> serving) \<Rightarrow> (string \<Rightarrow> any option) \<Rightarrow> bool" where
  "settles e view load \<longleftrightarrow>
     (\<forall>m m' x. quiet e m m' \<or> (\<exists>c. m' = snd (store_config (en_sha e) (en_os e) c m)) \<longrightarrow> view (en_settle e m m' x) = view x)
   \<and> (\<forall>m m' x c doc. mg_cmd m = None \<or> (\<exists>content. force_apply (en_sha e) (en_os e) content m = (None, m')) \<longrightarrow> mg_cmd m' = Some \<lparr>cm_config = Some c, cm_alive = True\<rparr> \<longrightarrow> load c = Some doc
        \<longrightarrow> view (en_settle e m m' x) = config_serving doc)"

definition serves :: "('x \<Rightarrow> serving) \<Rightarrow> serving \<Rightarrow> manager \<Rightarrow> 'x \<Rightarrow> bool" where
  "serves view v m x \<longleftrightarrow> (\<exists>c. mg_cmd m = Some \<lparr>cm_config = c, cm_alive = True\<rparr>) \<and> view x = v"

lemma settles_store:
  "settles e view load \<Longrightarrow> view (en_settle e m (snd (store_config (en_sha e) (en_os e) c m)) x) = view x"
  unfolding settles_def by blast

lemma settles_force:
  "settles e view load \<Longrightarrow> force_apply (en_sha e) (en_os e) content m = (None, m') \<Longrightarrow>
     mg_cmd m' = Some \<lparr>cm_config = Some c, cm_alive = True\<rparr> \<Longrightarrow> load c = Some doc \<Longrightarrow> view (en_settle e m m' x) = config_serving doc"
  unfolding settles_def by blast

lemma serves_stable:
  assumes "healthy_os (en_os e)" and "settles e view load"
  shows "quiet_stable e (serves view v)"
proof
  fix m m' x assume "quiet e m m'" and "serves view v m x"
  then show "serves view v m' (en_settle e m m' x)"
    using assms quiet_frame(4) [of e m m'] by (auto simp: serves_def settles_def)
qed

section \<open>Bringing Xray to the configuration\<close>

lemma started_serves:
  assumes "settles e view load" and "load c = Some doc" and "mg_cmd (ag_Xray a) = None" and "up c (snd rm)"
  shows "holds (serves view (config_serving doc)) (snd (with_manager e rm a))"
  using assms by (simp add: holds_def serves_def up_def with_manager_def settles_def)

lemma cold_serves:
  assumes os: "healthy_os (en_os e)" and "settles e view load" and "load content = Some doc"
    and none: "mg_cmd (ag_Xray b) = None" and apart: "names_apart (en_os e) (ag_Xray b)"
    and sha: "\<And>c. cfg (ag_Xray b) = Some c \<Longrightarrow> en_sha e c = en_sha e content \<Longrightarrow> c = content"
  shows "fst (cold_path e content b) = None \<and> holds (serves view (config_serving doc)) (snd (cold_path e content b))"
proof -
  note start = started_serves [OF assms(2,3)]
  obtain r m' where app: "apply_config (en_sha e) (en_os e) content (ag_Xray b) = (r, m')" by (rule prod.exhaust)
  from healthy_apply [OF os apart app] show ?thesis
  proof (elim disjE conjE exE)
    assume r: "r = Inr True" and "up content m'"
    from start [OF none, of "(r, m')"] this show ?thesis
      by (simp add: cold_path_def app case_prod_unfold frame r)
  next
    fix c assume r: "r = Inr False" and m: "m' = ag_Xray b" and c: "en_sha e c = en_sha e content" "cfg (ag_Xray b) = Some c"
    obtain b1 where again: "with_manager e (Inr False :: string + bool, m') b = (Inr False, b1)" "ag_Xray b1 = ag_Xray b"
      by (simp add: with_manager_def m)
    obtain b2 where b2: "xray_running e b1 = (False, b2)" "ag_Xray b2 = ag_Xray b"
      using none by (simp add: xray_running_def is_running_none with_manager_def again(2))
    have "c = content" using sha c by blast
    then have "fst (start_xray (en_os e) (ag_Xray b2)) = None" "up content (snd (start_xray (en_os e) (ag_Xray b2)))"
      using healthy_start_up [OF os apart none] c(2) b2(2) by simp_all
    with start [of b2 "start_xray (en_os e) (ag_Xray b2)"] none b2(2)
    show ?thesis by (simp add: cold_path_def app r again(1) b2(1) frame)
  qed
qed

lemma healthy_store: "healthy_os e \<Longrightarrow> \<exists>changed. fst (store_config sha e c m) = Inr changed"
  by (auto simp: store_config_def write_config_def case_prod_unfold healthy_validate write_file_ok healthy_os_def split: option.split)

lemma store_cmd: "mg_cmd (snd (store_config sha e c m)) = mg_cmd m"
  by (simp add: store_config_def write_config_def write_backup_def case_prod_unfold write_file_cmd validate_content_def validate_def tick_def
      split: option.split)

lemma hot_serves:
  assumes os: "healthy_os (en_os e)" and settle: "settles e view load" and api: "handler_service (en_run e) view"
    and wf: "wf_inbounds (ds_Inbounds prev)" "wf_inbounds (ds_Inbounds s)"
    and b: "holds (serves view (serving_of (ds_Inbounds prev))) b"
    and plan: "\<And>x. view x = serving_of (ds_Inbounds prev) \<Longrightarrow>
      fst (apply_runtime (en_run e) (en_cancelled e) (plan_runtime unm prev s) x) = None"
  shows "holds (serves view (serving_of (ds_Inbounds s))) (snd (hot_reload e (plan_runtime unm prev s) content b))"
proof -
  let ?P = "serves view (serving_of (ds_Inbounds prev))" and ?plan = "plan_runtime unm prev s"
  obtain v b1 where v: "with_manager e (validate_content (en_os e) content (ag_Xray b)) b = (v, b1)" by (rule prod.exhaust)
  have "v = None" using healthy_validate [OF os] with_manager_frame(1) v by (metis fst_conv)
  have "quiet e (ag_Xray b) (snd (validate_content (en_os e) content (ag_Xray b)))" by (auto simp: quiet_def)
  from quiet_stable.quiet_manager [OF serves_stable [OF os settle] this b] have b1: "holds ?P b1" by (simp add: v)
  then have x: "view (ag_serving b1) = serving_of (ds_Inbounds prev)" by (simp add: holds_def serves_def)
  obtain x' where x': "apply_runtime (en_run e) (en_cancelled e) ?plan (ag_serving b1) = (None, x')"
    using plan [OF x] by (metis prod.collapse)
  let ?st = "store_config (en_sha e) (en_os e) content (ag_Xray b1)"
  obtain changed where st: "fst ?st = Inr changed" using healthy_store [OF os] by blast
  have "snd (hot_reload e ?plan content b) = snd (with_manager e ?st (b1\<lparr>ag_serving := x'\<rparr>))"
    using st by (simp add: hot_reload_def v \<open>v = None\<close> x' case_prod_unfold frame)
  moreover have "view (en_settle e (ag_Xray b1) (snd ?st) x') = serving_of (ds_Inbounds s)"
    using reload_refines [OF api wf x x'] settles_store [OF settle] by simp
  ultimately show ?thesis using b1 by (simp add: holds_def serves_def with_manager_def store_cmd)
qed

lemma force_serves:
  assumes os: "healthy_os (en_os e)" and settle: "settles e view load" and "load content = Some doc"
    and apart: "names_apart (en_os e) (ag_Xray b)"
  shows "fst (force_config e content b) = None \<and> holds (serves view (config_serving doc)) (snd (force_config e content b))"
proof -
  let ?m = "ag_Xray b"
  let ?prep = "back_up_old (\<lambda>old. en_sha e old \<noteq> en_sha e content) (en_os e) (snd (validate_content (en_os e) content ?m))"
  have v: "validate_content (en_os e) content ?m = (None, snd (validate_content (en_os e) content ?m))"
    using healthy_validate [OF os] by (simp add: prod_eq_iff)
  have sw: "switch_config (en_os e) content ?prep = (None, snd (switch_config (en_os e) content ?prep))"
    using healthy_switch [OF os] by (simp add: prod_eq_iff)
  have f: "force_apply (en_sha e) (en_os e) content ?m = (None, snd (switch_config (en_os e) content ?prep))"
    by (subst force_apply_def, subst v) (simp add: sw [symmetric])
  note cmd = switch_success(2) [OF prepared(1) [OF apart] sw]
  from settles_force [OF settle f cmd assms(3)] cmd f show ?thesis
    by (simp add: force_config_def with_manager_def holds_def serves_def)
qed

section \<open>After a synchronisation\<close>

text \<open>The plan asks for a restart, or it can be carried out from what the previous state serves.\<close>

definition reloadable :: "('x, 'p, 'l) sync_env \<Rightarrow> ('x \<Rightarrow> serving) \<Rightarrow> desired_state \<Rightarrow> desired_state \<Rightarrow> bool" where
  "reloadable e view prev s \<longleftrightarrow>
     (let plan = plan_runtime (en_unmarshal e) prev s
      in plan_RequiresRestart plan
       \<or> wf_inbounds (ds_Inbounds prev) \<and> wf_inbounds (ds_Inbounds s)
         \<and> (\<forall>x. view x = serving_of (ds_Inbounds prev) \<longrightarrow> fst (apply_runtime (en_run e) (en_cancelled e) plan x) = None))"

text \<open>Xray is down, or it serves the saved state.\<close>

definition in_step :: "('x, 'p, 'l) sync_env \<Rightarrow> ('x \<Rightarrow> serving) \<Rightarrow> ('x, 'p, 'l) agent \<Rightarrow> bool" where
  "in_step e view a \<longleftrightarrow> mg_cmd (ag_Xray a) = None
     \<or> (\<exists>prev. load_state e a = Some prev \<and> ds_Enabled prev \<and> \<not> switched_mode (ds_Mode prev)
         \<and> holds (serves view (serving_of (ds_Inbounds prev))) a)"

lemma serves_alive:
  assumes "healthy_os (en_os e)" and "holds (serves view v) a"
  shows "fst (xray_running e a)" and "fst (api_health e a)"
proof -
  obtain c where c: "mg_cmd (ag_Xray a) = Some \<lparr>cm_config = c, cm_alive = True\<rparr>" using assms(2) by (auto simp: holds_def serves_def)
  have run: "is_running (en_os e) (ag_Xray a) = (True, tick (ag_Xray a))"
    using assms(1) c by (simp add: is_running_def Let_def healthy_os_def tick_def)
  have "case os_api (en_os e) (mg_clock (tick (ag_Xray a))) of None \<Rightarrow> False | Some out \<Rightarrow> out \<noteq> []"
    using assms(1) unfolding healthy_os_def by blast
  then show "fst (xray_running e a)" and "fst (api_health e a)"
    by (simp_all add: xray_running_def api_health_def frame run api_healthy_def)
qed

lemma serves_checked:
  assumes os: "healthy_os (en_os e)" and settle: "settles e view load" and a: "holds (serves view v) a"
  shows "fst (check_api e a) = Inr True" and "holds (serves view v) (snd (check_api e a))"
proof -
  note st = serves_stable [OF os settle]
  have h: "holds (serves view v) (snd (api_health e a))" by (rule quiet_stable.api [OF st a])
  have eq: "check_api e a = (Inr True, snd (xray_running e (snd (api_health e a))))"
    using serves_alive(2) [OF os a] by (simp add: check_api_def case_prod_unfold)
  from quiet_stable.running [OF st h] show "fst (check_api e a) = Inr True" "holds (serves view v) (snd (check_api e a))"
    by (simp_all add: eq)
qed

lemma reconcile_serves:
  assumes os: "healthy_os (en_os e)" and settle: "settles e view load" and api: "handler_service (en_run e) view"
    and load: "load content = Some doc" and doc: "config_serving doc = serving_of (ds_Inbounds s)"
    and apart: "names_apart (en_os e) (ag_Xray b)"
    and sha: "\<And>c. cfg (ag_Xray b) = Some c \<Longrightarrow> en_sha e c = en_sha e content \<Longrightarrow> c = content"
    and start: "mg_cmd (ag_Xray b) = None \<or> (\<exists>prev. previous = Some prev \<and> ds_Enabled prev \<and> \<not> switched_mode (ds_Mode prev)
         \<and> holds (serves view (serving_of (ds_Inbounds prev))) b \<and> reloadable e view prev s)"
  shows "fst (reconcile e previous s content b) = None
    \<and> holds (serves view (serving_of (ds_Inbounds s))) (snd (reconcile e previous s content b))"
proof -
  obtain r b1 where run: "xray_running e b = (r, b1)" by (rule prod.exhaust)
  have "quiet e (ag_Xray b) (ag_Xray b1)" using run by (auto simp: xray_running_def with_manager_def quiet_def)
  note kept = quiet_frame(1,2) [OF this]
  have apart1: "names_apart (en_os e) (ag_Xray b1)" using same_pathsD(4) [OF kept(2)] apart by simp
  have sha1: "cfg (ag_Xray b1) = Some c \<Longrightarrow> en_sha e c = en_sha e content \<Longrightarrow> c = content" for c
    using sha kept same_pathsD(1) [OF kept(2)] by simp
  from start show ?thesis
  proof (elim disjE exE conjE)
    assume none: "mg_cmd (ag_Xray b) = None"
    then have "\<not> r" and none1: "mg_cmd (ag_Xray b1) = None"
      using run by (auto simp: xray_running_def is_running_none with_manager_def)
    then have "reconcile e previous s content b = cold_path e content b1"
      by (simp add: reconcile_def run split: option.split)
    with cold_serves [OF os settle load none1 apart1 sha1] show ?thesis by (simp add: doc)
  next
    fix prev assume prev: "previous = Some prev" "ds_Enabled prev" "\<not> switched_mode (ds_Mode prev)"
      and b: "holds (serves view (serving_of (ds_Inbounds prev))) b" and plan: "reloadable e view prev s"
    have r: r using serves_alive(1) [OF os b] run by simp
    have b1: "holds (serves view (serving_of (ds_Inbounds prev))) b1"
      using quiet_stable.running [OF serves_stable [OF os settle] b] run by simp
    let ?plan = "plan_runtime (en_unmarshal e) prev s"
    show ?thesis
    proof (cases "plan_RequiresRestart ?plan")
      case True
      with force_serves [OF os settle load apart1] show ?thesis
        by (simp add: reconcile_def run prev r Let_def doc)
    next
      case False
      with plan have "wf_inbounds (ds_Inbounds prev)" "wf_inbounds (ds_Inbounds s)"
        "\<And>x. view x = serving_of (ds_Inbounds prev) \<Longrightarrow> fst (apply_runtime (en_run e) (en_cancelled e) ?plan x) = None"
        by (auto simp: reloadable_def Let_def)
      from hot_serves [OF os settle api this(1,2) b1 this(3)] False show ?thesis
        by (simp add: reconcile_def run prev r Let_def hot_path_def case_prod_unfold)
    qed
  qed
qed

lemma stable_files:
  assumes "quiet_stable e P"
  shows "quiet_stable e (\<lambda>m x. P m x \<and> mg_files m = fs \<and> same_paths m0 m)"
proof
  fix m m' x assume "quiet e m m'" and "P m x \<and> mg_files m = fs \<and> same_paths m0 m"
  then show "P m' (en_settle e m m' x) \<and> mg_files m' = fs \<and> same_paths m0 m'"
    using quiet_stable.stable [OF assms] quiet_frame(1,2) same_paths_trans by metis
qed

lemma reaches_active:
  assumes stable: "quiet_stable e P" and "holds P a"
    and "\<And>p. fst (fetch_desired_state (en_panel e) (client_of_agent a) (cfg_NodeID (ag_Cfg a)) p) = Inr d"
    and "validate_mode (ds_Mode d) = None" and "ds_Enabled d" and "\<not> switched_mode (ds_Mode d)"
    and "\<And>st. we_fault (en_policy_write e) st = None"
  obtains ss rs u vs strict b
    where "sync e a = sync_active e (load_state e a) (effective_state e a d ss u) vs (threshold_reached d) strict rs b"
      and "holds P b" and "mg_files (ag_Xray b) = mg_files (ag_Xray a)" and "same_paths (ag_Xray a) (ag_Xray b)"
      and "ag_Cfg b = ag_Cfg a"
proof -
  let ?P = "\<lambda>m x. P m x \<and> mg_files m = mg_files (ag_Xray a) \<and> same_paths (ag_Xray a) m"
  have "holds ?P a" using assms(2) by (simp add: holds_def same_paths_def)
  from quiet_stable.answered [OF stable_files [OF stable] assms(3) this]
  obtain ss rs u b0 where b0: "sync e a = sync_desired e (load_state e a) ss rs u d b0" "holds ?P b0" "ag_Cfg b0 = ag_Cfg a" .
  let ?s = "effective_state e a d ss u"
  let ?b = "snd (write_policy e ?s (set_drain_ready ?s (set_node_metadata ?s b0)))"
  have "sync e a = sync_active e (load_state e a) ?s (ev_Violations (evaluate (localize (load_state e a) d) ss u (en_now e)))
      (threshold_reached d) (strict_users e ?b) rs ?b"
    unfolding b0(1) desired_active [OF assms(4-7)] by (simp add: effective_state_def Let_def)
  moreover have "holds ?P ?b" using b0(2) by simp
  moreover have "ag_Cfg ?b = ag_Cfg a" using b0(3) by (simp add: frame)
  ultimately show thesis using that by (auto simp: holds_def)
qed

text \<open>The configuration of a state is built, written and read again.\<close>

definition deployable :: "('x, 'p, 'l) sync_env \<Rightarrow> (string \<Rightarrow> any option) \<Rightarrow> ('x, 'p, 'l) agent \<Rightarrow> desired_state \<Rightarrow> bool" where
  "deployable e load a s \<longleftrightarrow>
     (\<exists>doc content. build_config (en_unmarshal e) s (cfg_XrayAPI (ag_Cfg a)) [cfg_XrayAccessLog (ag_Cfg a)] = Inr doc
       \<and> en_render e doc = Inr content \<and> load content = Some doc
       \<and> (\<forall>c. cfg (ag_Xray a) = Some c \<longrightarrow> en_sha e c = en_sha e content \<longrightarrow> c = content))"

text \<open>
  Claim C2. A synchronisation takes effect. Let Xray be down, or serve the saved state. Let the panel ask for an active node, the machine cause no
  fault, the configuration be buildable and a hot reload, where the plan asks for one, be accepted by Xray. Then one synchronisation succeeds
  and Xray serves exactly the inbounds and users of the state that the evaluation made of the panel's answer: users that it
  switched off are not served, whether Xray was started, restarted or reloaded.
\<close>

theorem sync_serves_desired:
  assumes "healthy_os (en_os e)" and "names_apart (en_os e) (ag_Xray a)" and "\<And>st. we_fault (en_policy_write e) st = None"
    and "settles e view load" and "handler_service (en_run e) view"
    and "\<And>p. fst (fetch_desired_state (en_panel e) (client_of_agent a) (cfg_NodeID (ag_Cfg a)) p) = Inr d"
    and "validate_mode (ds_Mode d) = None" and "ds_Enabled d" and "\<not> switched_mode (ds_Mode d)"
    and "in_step e view a" and "\<And>ss u. deployable e load a (effective_state e a d ss u)"
    and "\<And>prev ss u. load_state e a = Some prev \<Longrightarrow> mg_cmd (ag_Xray a) \<noteq> None \<Longrightarrow> reloadable e view prev (effective_state e a d ss u)"
  shows "fst (sync e a) = Done
    \<and> (\<exists>ss u. view (ag_serving (snd (sync e a))) = serving_of (ds_Inbounds (effective_state e a d ss u)))"
proof -
  let ?goal = "\<lambda>ss u. fst (sync e a) = Done \<and> holds (serves view (serving_of (ds_Inbounds (effective_state e a d ss u)))) (snd (sync e a))"
  have reached: "?goal ss u"
    if act: "sync e a = sync_active e (load_state e a) (effective_state e a d ss u) vs (threshold_reached d) strict rs b"
      and b: "mg_files (ag_Xray b) = mg_files (ag_Xray a)" "same_paths (ag_Xray a) (ag_Xray b)" "ag_Cfg b = ag_Cfg a"
      and start: "mg_cmd (ag_Xray b) = None \<or> (\<exists>prev. load_state e a = Some prev \<and> ds_Enabled prev \<and> \<not> switched_mode (ds_Mode prev)
         \<and> holds (serves view (serving_of (ds_Inbounds prev))) b \<and> reloadable e view prev (effective_state e a d ss u))"
    for ss u vs strict rs b
  proof -
    let ?s = "effective_state e a d ss u"
    obtain doc content where cfgs: "build_config (en_unmarshal e) ?s (cfg_XrayAPI (ag_Cfg a)) [cfg_XrayAccessLog (ag_Cfg a)] = Inr doc"
      "en_render e doc = Inr content" "load content = Some doc"
      "\<And>c. cfg (ag_Xray a) = Some c \<Longrightarrow> en_sha e c = en_sha e content \<Longrightarrow> c = content"
      using assms(11) [of ss u] unfolding deployable_def by blast
    have "names_apart (en_os e) (ag_Xray b)" using same_pathsD(4) [OF b(2)] assms(2) by simp
    moreover have "cfg (ag_Xray b) = Some c \<Longrightarrow> en_sha e c = en_sha e content \<Longrightarrow> c = content" for c
      using cfgs(4) b(1) same_pathsD(1) [OF b(2)] by simp
    ultimately have rec: "fst (reconcile e (load_state e a) ?s content b) = None"
        "holds (serves view (serving_of (ds_Inbounds ?s))) (snd (reconcile e (load_state e a) ?s content b))"
      using reconcile_serves [OF assms(1,4,5) cfgs(3) config_serves_state [OF cfgs(1)] _ _ start] by blast+
    let ?a1 = "external_limits e ?s (snd (reconcile e (load_state e a) ?s content b))"
    have "holds (serves view (serving_of (ds_Inbounds ?s))) ?a1" using rec(2) by simp
    note chk = serves_checked [OF assms(1,4) this]
    have "sync e a = finish_sync e ?s vs (threshold_reached d) strict rs True (snd (check_api e ?a1))"
      using cfgs(1,2) rec(1) chk(1) b(3) by (simp add: act sync_active_def case_prod_unfold)
    then show ?thesis
      using quiet_stable.finish [OF serves_stable [OF assms(1,4)] chk(2)] finish_sync_shows(1) by simp
  qed
  note reach = reaches_active [OF _ _ assms(6-9,3)]
  from assms(10) have "\<exists>ss u. ?goal ss u" unfolding in_step_def
  proof (elim disjE exE conjE)
    assume "mg_cmd (ag_Xray a) = None"
    then have "holds (\<lambda>m x. mg_cmd m = None \<and> mg_files m = mg_files (ag_Xray a) \<and> same_paths (ag_Xray a) m) a"
      by (simp add: holds_def same_paths_def)
    then show ?thesis
    proof (rule reach [OF idle.quiet_stable_axioms])
      fix ss rs u vs strict b
      assume act: "sync e a = sync_active e (load_state e a) (effective_state e a d ss u) vs (threshold_reached d) strict rs b"
        and b: "holds (\<lambda>m x. mg_cmd m = None \<and> mg_files m = mg_files (ag_Xray a) \<and> same_paths (ag_Xray a) m) b" "ag_Cfg b = ag_Cfg a"
      then have "?goal ss u" by (intro reached [OF act]) (simp_all add: holds_def)
      then show ?thesis by blast
    qed
  next
    fix prev assume prev: "load_state e a = Some prev" "ds_Enabled prev" "\<not> switched_mode (ds_Mode prev)"
      and a: "holds (serves view (serving_of (ds_Inbounds prev))) a"
    have "mg_cmd (ag_Xray a) \<noteq> None" using a by (auto simp: holds_def serves_def)
    note plan = assms(12) [OF prev(1) this]
    from a show ?thesis
    proof (rule reach [OF serves_stable [OF assms(1,4)]])
      fix ss rs u vs strict b
      assume act: "sync e a = sync_active e (load_state e a) (effective_state e a d ss u) vs (threshold_reached d) strict rs b"
        and b: "holds (serves view (serving_of (ds_Inbounds prev))) b" "mg_files (ag_Xray b) = mg_files (ag_Xray a)"
          "same_paths (ag_Xray a) (ag_Xray b)" "ag_Cfg b = ag_Cfg a"
      have "?goal ss u" using prev b(1) plan by (intro reached [OF act b(2-4)] disjI2 exI [of _ prev] conjI)
      then show ?thesis by blast
    qed
  qed
  then show ?thesis by (auto simp: holds_def serves_def)
qed

text \<open>A node that serves what it saved, and a panel that adds a user, switches one off and adds an inbound.\<close>

definition live_before :: desired_state where
  "live_before = demo_before\<lparr>ds_Enabled := True\<rparr>"

definition live_after :: desired_state where
  "live_after = demo_after\<lparr>ds_Enabled := True\<rparr>"

definition live_load :: "string \<Rightarrow> any option" where
  "live_load content =
     (if content = ''c2'' then (case build_config (\<lambda>_. Inl []) live_after ''a'' [[]] of Inr doc \<Rightarrow> Some doc | Inl _ \<Rightarrow> None)
      else None)"

definition live_env :: "(serving, traffic_batch set, unit) sync_env" where
  "live_env = (answer_env live_after)
     \<lparr>en_os := ex_os\<lparr>os_api := \<lambda>_. Some ''stats''\<rparr>, en_unmarshal := \<lambda>_. Inl [], en_render := \<lambda>_. Inr ''c2'', en_run := demo_run,
      en_settle := \<lambda>m m' v.
        (case mg_cmd m' of
           Some c \<Rightarrow>
             (case (if mg_cmd m = None \<or> mg_clock m + 4 < mg_clock m' then Option.bind (cm_config c) live_load else None) of
                Some doc \<Rightarrow> config_serving doc | None \<Rightarrow> v)
         | None \<Rightarrow> v)\<rparr>"

definition live_agent :: "(serving, traffic_batch set, unit) agent" where
  "live_agent = (new_agent (ex_loaded\<lparr>cfg_XrayConfig := ''x'', cfg_XrayLimitsFile := ''l'', cfg_StateFile := ''s'',
       cfg_XrayAPI := ''a'', cfg_XrayAccessLog := []\<rparr>)
     [(''x'', ''c1'')] \<lparr>bk_spool = None, bk_panel = {}\<rparr> (serving_of (ds_Inbounds live_before)) () [] [(''s'', Doc live_before)])
     \<lparr>ag_Xray := \<lparr>mg_Config = ''x'', mg_LimitsFile = ''l'', mg_files = [(''x'', ''c1'')],
        mg_cmd = Some \<lparr>cm_config = Some ''c1'', cm_alive = True\<rparr>, mg_clock = 7\<rparr>\<rparr>"

lemma quiet_clock: "quiet e m m' \<Longrightarrow> mg_clock m' \<le> mg_clock m + 2"
  by (auto simp: quiet_def is_running_def api_healthy_def core_patch_ready_def validate_content_def validate_def tick_def Let_def
      split: option.split bool.split)

lemma write_file_clock [simp]: "mg_clock (snd (write_file e p c m)) = Suc (mg_clock m)"
  by (simp add: write_file_def tick_def case_prod_unfold)

lemma validate_content_clock [simp]: "mg_clock (snd (validate_content e c m)) = Suc (mg_clock m)"
  by (simp add: validate_content_def validate_def tick_def split: option.split)

lemma store_clock: "mg_clock (snd (store_config sha e c m)) \<le> mg_clock m + 3"
  by (auto simp: store_config_def write_config_def write_backup_def case_prod_unfold split: option.split)

lemma stop_polls_clock: "mg_clock m \<le> mg_clock (stop_polls e n m)"
proof (induction n arbitrary: m)
  case (Suc n)
  have "mg_clock m \<le> mg_clock (snd (is_running e m))" by (simp add: is_running_def Let_def tick_def split: option.split)
  with Suc.IH [of "snd (is_running e m)"] show ?case by (auto simp: case_prod_unfold split: bool.split)
qed simp

lemma restart_clock: "restart_locked e m = (None, m') \<Longrightarrow> mg_clock m + 2 \<le> mg_clock m'"
proof -
  have "mg_clock m \<le> mg_clock (stop_locked e m)"
    using stop_polls_clock [of "snd (is_running e m)" e 50]
    by (auto simp: stop_locked_def case_prod_unfold is_running_def Let_def tick_def split: option.split bool.split)
  moreover assume "restart_locked e m = (None, m')"
  ultimately show ?thesis
    by (auto simp: restart_locked_def start_locked_def is_running_def Let_def tick_def split: option.splits bool.splits if_splits)
qed

lemma force_clock: "force_apply sha e c m = (None, m') \<Longrightarrow> mg_clock m + 4 < mg_clock m'"
proof -
  assume f: "force_apply sha e c m = (None, m')"
  obtain v m1 where v: "validate_content e c m = (v, m1)" by (rule prod.exhaust)
  let ?m2 = "back_up_old (\<lambda>old. sha old \<noteq> sha c) e m1"
  have m2: "mg_clock m1 \<le> mg_clock ?m2" by (simp add: back_up_old_def write_backup_def split: option.split)
  obtain w m3 where w: "write_config e c ?m2 = (w, m3)" by (rule prod.exhaust)
  obtain x m4 where x: "restart_locked e m3 = (x, m4)" by (rule prod.exhaust)
  have "v = None" "w = None" "x = None" "m' = snd (write_backup e c m4)"
    using f v w x by (auto simp: force_apply_def switch_config_def case_prod_unfold split: option.splits)
  moreover have "mg_clock m1 = Suc (mg_clock m)" using validate_content_clock [of e c m] by (simp add: v)
  moreover have "mg_clock m3 = Suc (mg_clock ?m2)" using write_file_clock [of e "mg_Config ?m2" c ?m2] w by (simp add: write_config_def del: write_file_clock)
  ultimately show ?thesis using m2 restart_clock [of e m3 m4] x by (simp add: write_backup_def)
qed

lemma live_env_simps:
  "en_os live_env = ex_os\<lparr>os_api := \<lambda>_. Some ''stats''\<rparr>" "en_sha live_env = (\<lambda>s. s)"
  "en_unmarshal live_env = (\<lambda>_. Inl [])" "en_render live_env = (\<lambda>_. Inr ''c2'')" "en_run live_env = demo_run"
  "en_cancelled live_env = (\<lambda>_. False)" "en_panel live_env = (demo_panel False)\<lparr>pe_decode := \<lambda>_. Inr live_after\<rparr>"
  "en_policy_write live_env = \<lparr>we_temp = ''t'', we_partial = Junk [], we_fault = (\<lambda>_. None)\<rparr>"
  "en_state_unreadable live_env = False"
  by (simp_all add: live_env_def answer_env_def down_env_def)

lemma live_agent_simps:
  "ag_Xray live_agent = \<lparr>mg_Config = ''x'', mg_LimitsFile = ''l'', mg_files = [(''x'', ''c1'')],
     mg_cmd = Some \<lparr>cm_config = Some ''c1'', cm_alive = True\<rparr>, mg_clock = 7\<rparr>"
  "ag_serving live_agent = serving_of (ds_Inbounds live_before)" "cfg_StateFile (ag_Cfg live_agent) = ''s''"
  "ag_states live_agent = [(''s'', Doc live_before)]"
  "cfg_XrayAPI (ag_Cfg live_agent) = ''a''" "cfg_XrayAccessLog (ag_Cfg live_agent) = []"
  by (simp_all add: live_agent_def new_agent_def)

lemma live_settle:
  "en_settle live_env m m' v = (case mg_cmd m' of
     Some c \<Rightarrow>
       (case (if mg_cmd m = None \<or> mg_clock m + 4 < mg_clock m' then Option.bind (cm_config c) live_load else None) of
          Some doc \<Rightarrow> config_serving doc | None \<Rightarrow> v)
   | None \<Rightarrow> v)"
  by (simp add: live_env_def)

lemma live_settles: "settles live_env (\<lambda>v. v) live_load"
proof -
  have still: "\<not> (mg_cmd m = None \<and> mg_cmd m' \<noteq> None) \<and> \<not> mg_clock m + 4 < mg_clock m'"
    if "quiet live_env m m' \<or> (\<exists>c. m' = snd (store_config (en_sha live_env) (en_os live_env) c m))" for m m'
    using that
  proof
    assume "quiet live_env m m'"
    from quiet_clock [OF this] quiet_frame(3) [OF this] show ?thesis by (cases "mg_cmd m") auto
  next
    assume "\<exists>c. m' = snd (store_config (en_sha live_env) (en_os live_env) c m)"
    then obtain c where "m' = snd (store_config (en_sha live_env) (en_os live_env) c m)" ..
    with store_clock [of "en_sha live_env" "en_os live_env" c m] store_cmd [of "en_sha live_env" "en_os live_env" c m] show ?thesis
      by auto
  qed
  have keep: "en_settle live_env m m' x = x"
    if "quiet live_env m m' \<or> (\<exists>c. m' = snd (store_config (en_sha live_env) (en_os live_env) c m))" for m m' x
    using still [OF that] by (auto simp: live_settle split: option.split)
  show ?thesis
    unfolding settles_def
  proof (intro conjI allI impI)
    fix m m' :: manager and x
    assume "quiet live_env m m' \<or> (\<exists>c. m' = snd (store_config (en_sha live_env) (en_os live_env) c m))"
    then show "en_settle live_env m m' x = x" by (rule keep)
  next
    fix m m' x c doc
    assume "mg_cmd m = None \<or> (\<exists>content. force_apply (en_sha live_env) (en_os live_env) content m = (None, m'))"
      and "mg_cmd m' = Some \<lparr>cm_config = Some c, cm_alive = True\<rparr>" and "live_load c = Some doc"
    then show "en_settle live_env m m' x = config_serving doc"
      by (auto simp: live_settle dest: force_clock)
  qed
qed

lemma live_after_simps:
  "ds_Enabled live_after" "ds_Mode live_after = []" "clone_state live_after = live_after" "\<not> threshold_reached live_after"
  by (simp_all add: live_after_def demo_after_def zero_state_def zero_node_def threshold_reached_def clone_state_def)

lemma live_effective: "effective_state live_env live_agent live_after ss u = live_after"
proof -
  have "localize p live_after = live_after" for p
    by (simp add: localize_def live_after_simps Let_def split: option.split)
  moreover have "evaluate_inbound sm u now i = (i, [])" if "i \<in> set (ds_Inbounds live_after)" for sm now i
    using that by (auto simp: live_after_def demo_after_def evaluate_inbound_def eval_user_def demo_inbound_def demo_user_def zero_defs
        Let_def map_simps limit_by_account_def cap_step_def)
  ultimately show ?thesis
    by (simp add: effective_state_def evaluate_def live_after_simps Let_def cong: map_cong)
qed

lemma live_deployable: "deployable live_env live_load live_agent live_after"
proof -
  have "\<not> isl (build_config (\<lambda>_. Inl []) live_after ''a'' [[]])" by code_simp
  then obtain doc where "build_config (\<lambda>_. Inl []) live_after ''a'' [[]] = Inr doc" by (cases "build_config (\<lambda>_. Inl []) live_after ''a'' [[]]") auto
  then show ?thesis by (simp add: deployable_def live_env_simps live_agent_simps live_load_def)
qed

lemma live_reloadable: "reloadable live_env (\<lambda>v. v) live_before live_after"
proof -
  let ?plan = "plan_runtime (\<lambda>_. Inl []) live_before live_after"
  have "wf_inbounds (ds_Inbounds live_before)" "wf_inbounds (ds_Inbounds live_after)" by code_simp+
  moreover have "Option.is_none (fst (apply_runtime demo_run (\<lambda>_. False) ?plan (serving_of (ds_Inbounds live_before))))"
    by code_simp
  ultimately show ?thesis by (simp add: reloadable_def live_env_simps Option.is_none_def)
qed

theorem sync_serves_desired_witness:
  "fst (sync live_env live_agent) = Done
     \<and> ag_serving (snd (sync live_env live_agent)) = serving_of (ds_Inbounds live_after)"
proof -
  have panel: "fst (fetch_desired_state (en_panel live_env) c n p) = Inr live_after" for c n p
    using answer_env_fetch [of live_after c n p] by (simp add: live_env_simps answer_env_def)
  have os: "healthy_os (en_os live_env)" "names_apart (en_os live_env) (ag_Xray live_agent)"
    by (simp_all add: healthy_os_def writes_ok_def live_env_simps ex_os_def live_agent_simps names_apart_def backup_path_def marker_path_def)
  have saved: "load_state live_env live_agent = Some live_before"
    by (simp add: load_state_def live_env_simps live_agent_simps map_simps)
  have step: "in_step live_env (\<lambda>v. v) live_agent"
    by (simp add: in_step_def saved holds_def serves_def live_agent_simps)
      (simp add: live_before_def demo_before_def zero_defs switched_mode_def)
  have "fst (sync live_env live_agent) = Done
     \<and> (\<exists>ss u. ag_serving (snd (sync live_env live_agent)) = serving_of (ds_Inbounds (effective_state live_env live_agent live_after ss u)))"
    by (rule sync_serves_desired [OF os _ live_settles _ panel _ _ _ step])
      (simp_all add: live_env_simps demo_handler_service live_after_simps validate_mode_def switched_mode_def live_effective
        live_deployable saved live_reloadable)
  then show ?thesis by (simp add: live_effective)
qed

end
