(* ===== verification/Spec2Isabelle.thy ===== *)
theory Spec2Isabelle
  imports Prelude GoStrings Model Policy Builder Runtime Reload Files Traffic Stats CorePolicy Process Session
    Panel Billing Float64 Health Config Admin Agent Commands Operation Limiter Enforcement Handshake Lifecycle Run Documents Quota
    Convergence
begin

text \<open>
  A verification development of the XNode agent. One agent runs on every VPN node of a panel. It
  fetches the state the panel wants, decides which users may connect now, turns the result into
  a configuration of Xray and a policy file of the limiter inside Xray, brings both into force, and bills the
  traffic that Xray counts. Sources are named relative to \<^verbatim>\<open>src/\<close>.

  \<^bold>\<open>How the parts interact.\<close> \<^verbatim>\<open>main\<close> loads the configuration and runs the agent. Every
  synchronisation (\<^verbatim>\<open>Agent.sync\<close>) reports the batches of traffic that are still spooled, resets and collects
  Xray's counters into a new batch, takes a snapshot of the sessions, fetches the desired state, lets the policy
  evaluator switch users off, writes the policy file, stops Xray or brings the configuration into force by a hot reload
  or by a restart, saves the state it applied and sends a heartbeat, which the admin server shows.

  \<^bold>\<open>Theories and sources.\<close>

  \<^item> \<open>Prelude\<close>, \<open>GoStrings\<close>, \<open>Float64\<close>: what the model uses of Go. Maps are association lists sorted by key
    (the type \<open>gomap\<close>, with the laws of the locale \<open>go_map\<close>), \<^verbatim>\<open>int\<close> and \<^verbatim>\<open>int64\<close> are integers that
    wrap at \<open>2 ^ 63\<close> by \<open>i64\<close>, \<^verbatim>\<open>uint64\<close> is a 64-bit word, strings are lists of bytes, times are
    nanoseconds, a \<^verbatim>\<open>float64\<close> is the rational number it denotes, with the rounding of each operation.
  \<^item> \<open>Model\<close>: \<^verbatim>\<open>internal/model/model.go\<close>, one record per struct, and the JSON values of Go's \<^verbatim>\<open>any\<close>.
  \<^item> \<open>Policy\<close>: \<^verbatim>\<open>internal/policy/evaluator.go\<close>.
  \<^item> \<open>Builder\<close>, \<open>Documents\<close>: \<^verbatim>\<open>internal/xray/builder.go\<close>; the shape of what it builds.
  \<^item> \<open>Runtime\<close>, \<open>Reload\<close>, \<open>Commands\<close>: \<^verbatim>\<open>internal/xray/runtime.go\<close>; the planner and its execution, their
    correctness, and the API calls as commands of the xray binary.
  \<^item> \<open>Stats\<close>: \<^verbatim>\<open>internal/xray/stats.go\<close> and \<^verbatim>\<open>internal/xray/online.go\<close>.
  \<^item> \<open>Files\<close>: the atomic file writes every writer of the agent makes, call by call, and the locale
    \<open>atomic_store\<close> of what a reader finds at any moment and after a crash.
  \<^item> \<open>Process\<close>: \<^verbatim>\<open>internal/xray/process.go\<close>; the manager of the Xray process and its configurations.
  \<^item> \<open>Traffic\<close>: \<^verbatim>\<open>internal/traffic/spool.go\<close>. \<open>Billing\<close>: the accounting of \<^verbatim>\<open>internal/agent/agent.go\<close>.
  \<^item> \<open>CorePolicy\<close>: \<^verbatim>\<open>internal/limits/policyfile.go\<close> and \<^verbatim>\<open>internal/limits/limits.go\<close>.
  \<^item> \<open>Session\<close>: \<^verbatim>\<open>internal/session/tracker.go\<close>. \<open>Health\<close>: \<^verbatim>\<open>internal/health/health.go\<close>. \<open>Config\<close>:
    \<^verbatim>\<open>internal/config/config.go\<close>. \<open>Panel\<close>: \<^verbatim>\<open>internal/panel/client.go\<close>. \<open>Admin\<close>:
    \<^verbatim>\<open>internal/admin/server.go\<close>.
  \<^item> \<open>Agent\<close>: \<^verbatim>\<open>internal/agent/agent.go\<close> and \<^verbatim>\<open>cmd/xnode-agent/main.go\<close>. The record \<open>agent\<close> has
    the fields of the struct and, beside them, what it owns outside memory: files, spool, panel, what
    Xray serves. \<open>sync\<close> is one synchronisation, in the order of the code; every early return is a branch.
  \<^item> \<open>Limiter\<close>: \<^verbatim>\<open>patches/xray-v26.7.28/xnode_limiter.go.txt\<close>, which is compiled into Xray: the
    critical sections as a step relation, \<open>limiter_run\<close>.
  \<^item> \<open>Operation\<close>, \<open>Convergence\<close>, \<open>Lifecycle\<close>, \<open>Run\<close>, \<open>Quota\<close>, \<open>Handshake\<close>, \<open>Enforcement\<close>:
    properties that need several of these parts. The locale \<open>quiet_stable\<close> of \<open>Convergence\<close> collects what the
    operations that start and stop nothing leave alone.

  \<^bold>\<open>What the lemmas show.\<close>

  \<^item> Users. \<open>Policy\<close>: an evaluation enables exactly the users its specification admits (expiry, quota,
    addresses, devices), reports exactly the reasons, and draining only restricts. \<open>Quota\<close>: which traffic that is
    not committed yet counts. \<open>CorePolicy\<close>: the policy file is replaced atomically, tombstones last 300 seconds.
    \<open>Limiter\<close>: its counters are the open connections, no interleaving overruns a limit, a bucket paces,
    a session is cut when it should be, and when policies are forgotten. \<open>Enforcement\<close>:
    from the panel's state to the admission of a connection.
  \<^item> Configurations. \<open>Reload\<close>: a hot reload refines a restart, and disconnects nobody who did not
    change. \<open>Builder\<close>, \<open>Documents\<close>: full configurations and hot documents agree and are well-formed,
    and exactly when building panics. \<open>Process\<close>: what applying, its failures and stopping leave on disk and running.
  \<^item> Traffic and sessions. \<open>Traffic\<close>, \<open>Billing\<close>, \<open>Run\<close>: spooling is atomic, and nothing that was taken from the
    counters is lost in a run. \<open>Session\<close>: the log is consumed once, and reports refine the history.
  \<^item> The agent. \<open>Operation\<close>: a node comes up, readiness means serving, an outage of the panel changes nothing,
    a node that is switched off stops. \<open>Convergence\<close>: one synchronisation makes Xray serve exactly the evaluated state,
    whether it starts, restarts or reloads Xray. \<open>Lifecycle\<close>: what a saved state, a failed hot reload and an unwritable policy lead to.
    \<open>Run\<close>: a node outlives an outage of its panel, and how runs end. \<open>Handshake\<close>: how a patched core is recognised. \<open>Health\<close>, \<open>Config\<close>: metrics are
    in range, a loaded configuration is safe.

  \<^bold>\<open>What is outside.\<close> Everything the code cannot decide is an argument: the panel (\<open>panel_env\<close>), the operating system
  and the xray binary (\<open>os_env\<close>, \<open>binary\<close>, \<open>api\<close>), file system faults (\<open>write_env\<close>), what one
  synchronisation meets (\<open>sync_env\<close>), clocks, SHA-256, \<^verbatim>\<open>json.Unmarshal\<close>, \<^verbatim>\<open>url.Parse\<close>, the local
  time zone. Hypotheses on them are stated in the theorems: \<open>handler_service\<close> and \<open>documented_commands\<close> for
  the API of Xray (an argument that starts with a dash is a flag, so tags must be plain), \<open>settles\<close> for what an Xray process serves once it
  was started on a configuration, \<open>names_apart\<close> and \<open>fresh_env\<close> for names of temporary files, \<open>keeps_batches\<close> for a panel
  that does not lose what it accepted. Witnesses instantiate all of them.

  \<^bold>\<open>Bounds and fuel.\<close> Every function is total, without fuel. Loops are recursive in what they consume; the polls of a
  stop are bounded by the 5 seconds of \<^verbatim>\<open>stopLocked\<close>, 50 polls, and a run is a list of synchronisations of any
  length. 64-bit sums wrap where the code's do; where a theorem excludes the wrap-around it says so.

  \<^bold>\<open>Not modelled.\<close> Goroutine scheduling apart from the limiter and the \<^verbatim>\<open>select\<close> of \<^verbatim>\<open>Run\<close> (the agent's
  operations run under locks or in one goroutine), logging, contexts other than by their cancellation, the
  HTTP server and client below a request, signals and flags, permissions of files. Access log lines and version lines are taken as ASCII. The shell
  installer, the systemd units and the Python script that applies the patch are not Go and are left aside.
\<close>

end
